(* ===== verification/Prelude.thy ===== *)
theory Prelude
  imports Main "HOL-Library.AList" "HOL-Library.Multiset"
begin

text \<open>
  Shared notions of the development: the JavaScript \<open>Map\<close> as an insertion-ordered association
  list, \<open>Array.prototype.sort\<close> as a stable sort over a comparator, and the collections of facts
  the component theories share.  Everything here models the language runtime the code under
  \<^verbatim>\<open>src/\<close> runs on, not the program itself.
\<close>

named_theorems js_map_simps "what a JavaScript Map returns after set and delete"
named_theorems defs "definitions of operations, unfolded together in invariant proofs"

section \<open>JavaScript Map\<close>

text \<open>
  A \<open>Map\<close> iterates in insertion order, \<open>set\<close> on a present key keeps its position: exactly
  \<open>AList.update\<close>.
\<close>

type_synonym ('k, 'v) js_map = "('k \<times> 'v) list"

definition js_get :: "('k, 'v) js_map \<Rightarrow> 'k \<Rightarrow> 'v option" where
  "js_get m k = map_of m k"

definition js_set :: "'k \<Rightarrow> 'v \<Rightarrow> ('k, 'v) js_map \<Rightarrow> ('k, 'v) js_map" where
  "js_set k v m = AList.update k v m"

definition js_delete :: "'k \<Rightarrow> ('k, 'v) js_map \<Rightarrow> ('k, 'v) js_map" where
  "js_delete k m = AList.delete k m"

definition js_values :: "('k, 'v) js_map \<Rightarrow> 'v list" where
  "js_values m = map snd m"

definition js_map_ok :: "('k, 'v) js_map \<Rightarrow> bool" where
  "js_map_ok m \<longleftrightarrow> distinct (map fst m)"

lemma js_get_empty [simp, js_map_simps]: "js_get [] k = None"
  by (simp add: js_get_def)

lemma js_get_set [simp, js_map_simps]:
  "js_get (js_set k v m) k' = (if k' = k then Some v else js_get m k')"
  by (simp add: js_get_def js_set_def update_conv')

lemma js_get_delete [simp, js_map_simps]:
  "js_get (js_delete k m) k' = (if k' = k then None else js_get m k')"
  by (simp add: js_get_def js_delete_def delete_conv')

lemma js_map_ok_empty [simp]: "js_map_ok []"
  by (simp add: js_map_ok_def)

lemma js_map_ok_set [simp]: "js_map_ok m \<Longrightarrow> js_map_ok (js_set k v m)"
  by (simp add: js_map_ok_def js_set_def distinct_update)

lemma js_map_ok_delete [simp]: "js_map_ok m \<Longrightarrow> js_map_ok (js_delete k m)"
  by (simp add: js_map_ok_def js_delete_def distinct_delete)

lemma js_get_iff_mem: "js_map_ok m \<Longrightarrow> js_get m k = Some v \<longleftrightarrow> (k, v) \<in> set m"
  by (simp add: js_map_ok_def js_get_def)

lemma js_values_get:
  "js_map_ok m \<Longrightarrow> v \<in> set (js_values m) \<longleftrightarrow> (\<exists>k. js_get m k = Some v)"
  by (force simp: js_values_def js_get_iff_mem image_iff)

lemma length_js_set:
  "length (js_set k v m) = (if js_get m k = None then Suc (length m) else length m)"
proof (induction m)
  case Nil
  then show ?case by (simp add: js_set_def js_get_def)
next
  case (Cons a m)
  then show ?case by (cases a) (auto simp: js_set_def js_get_def)
qed

section \<open>Array.prototype.sort\<close>

text \<open>
  The sort of ECMAScript is stable and orders by a comparator whose sign decides.  Insertion
  sort from the right is a stable sort; any two stable sorts agree on a consistent comparator.
\<close>

fun insert_by :: "('a \<Rightarrow> 'a \<Rightarrow> int) \<Rightarrow> 'a \<Rightarrow> 'a list \<Rightarrow> 'a list" where
  "insert_by cmp x [] = [x]"
| "insert_by cmp x (y # ys) =
     (if cmp x y \<le> 0 then x # y # ys else y # insert_by cmp x ys)"

definition js_sort :: "('a \<Rightarrow> 'a \<Rightarrow> int) \<Rightarrow> 'a list \<Rightarrow> 'a list" where
  "js_sort cmp xs = foldr (insert_by cmp) xs []"

lemma mset_insert_by [simp]: "mset (insert_by cmp x ys) = add_mset x (mset ys)"
  by (induction ys) auto

lemma set_insert_by [simp]: "set (insert_by cmp x ys) = insert x (set ys)"
  by (induction ys) auto

lemma mset_js_sort [simp]: "mset (js_sort cmp xs) = mset xs"
  by (induction xs) (simp_all add: js_sort_def)

lemma set_js_sort [simp]: "set (js_sort cmp xs) = set xs"
  by (metis mset_js_sort set_mset_mset)

lemma length_js_sort [simp]: "length (js_sort cmp xs) = length xs"
  by (metis mset_js_sort size_mset)

text \<open>Only the sign of the comparator matters.\<close>

lemma insert_by_cong:
  "(\<And>y. y \<in> set ys \<Longrightarrow> cmp x y \<le> 0 \<longleftrightarrow> cmp' x y \<le> 0) \<Longrightarrow> insert_by cmp x ys = insert_by cmp' x ys"
  by (induction ys) auto

lemma js_sort_cong:
  "(\<And>x y. x \<in> set xs \<Longrightarrow> y \<in> set xs \<Longrightarrow> cmp x y \<le> 0 \<longleftrightarrow> cmp' x y \<le> 0) \<Longrightarrow> js_sort cmp xs = js_sort cmp' xs"
proof (induction xs)
  case (Cons x xs)
  then have "js_sort cmp xs = js_sort cmp' xs" by simp
  moreover have "insert_by cmp x (js_sort cmp xs) = insert_by cmp' x (js_sort cmp xs)"
    using Cons.prems by (intro insert_by_cong) auto
  ultimately show ?case by (simp add: js_sort_def)
qed (simp add: js_sort_def)

text \<open>The contract of a comparator that \<open>sort\<close> is specified for.\<close>

locale comparator =
  fixes cmp :: "'a \<Rightarrow> 'a \<Rightarrow> int"
  assumes total: "cmp x y \<le> 0 \<or> cmp y x \<le> 0"
    and trans: "cmp x y \<le> 0 \<Longrightarrow> cmp y z \<le> 0 \<Longrightarrow> cmp x z \<le> 0"
begin

lemma sorted_insert_by:
  "sorted_wrt (\<lambda>x y. cmp x y \<le> 0) ys \<Longrightarrow> sorted_wrt (\<lambda>x y. cmp x y \<le> 0) (insert_by cmp x ys)"
proof (induction ys)
  case Nil
  then show ?case by simp
next
  case (Cons y ys)
  show ?case
  proof (cases "cmp x y \<le> 0")
    case True
    with Cons.prems show ?thesis by (auto intro: trans)
  next
    case False
    with total have "cmp y x \<le> 0" by blast
    with False Cons show ?thesis by auto
  qed
qed

lemma sorted_js_sort: "sorted_wrt (\<lambda>x y. cmp x y \<le> 0) (js_sort cmp xs)"
  by (induction xs) (simp_all add: js_sort_def sorted_insert_by)

text \<open>Where no two elements compare equal, the sorted order is unique.\<close>

lemma sorted_unique:
  assumes "mset xs = mset ys" "sorted_wrt (\<lambda>x y. cmp x y \<le> 0) xs" "sorted_wrt (\<lambda>x y. cmp x y \<le> 0) ys"
    and antisym: "\<And>x y. x \<in> set xs \<Longrightarrow> y \<in> set xs \<Longrightarrow> cmp x y \<le> 0 \<Longrightarrow> cmp y x \<le> 0 \<Longrightarrow> x = y"
  shows "xs = ys"
  using assms
proof (induction xs arbitrary: ys)
  case (Cons x xs)
  then obtain y ys' where ys: "ys = y # ys'" by (cases ys) auto
  have same: "set (x # xs) = set ys" using Cons.prems(1) by (metis set_mset_mset)
  have "x = y"
  proof (rule ccontr)
    assume "x \<noteq> y"
    with same ys have "y \<in> set xs" "x \<in> set ys'" by auto
    with Cons.prems(2,3) ys have "cmp x y \<le> 0" "cmp y x \<le> 0" by auto
    with Cons.prems(4) [of x y] \<open>y \<in> set xs\<close> \<open>x \<noteq> y\<close> show False by simp
  qed
  with Cons.IH [of ys'] Cons.prems ys show ?case by simp
qed simp

lemma js_sort_unique:
  assumes "mset xs = mset ys"
    and "\<And>x y. x \<in> set xs \<Longrightarrow> y \<in> set xs \<Longrightarrow> cmp x y \<le> 0 \<Longrightarrow> cmp y x \<le> 0 \<Longrightarrow> x = y"
  shows "js_sort cmp xs = js_sort cmp ys"
  using assms sorted_js_sort by (intro sorted_unique) auto

end

section \<open>Lists\<close>

text \<open>\<open>Array.prototype.slice\<close>: a negative index counts from the end, both are clamped.\<close>

definition slice_index :: "int \<Rightarrow> int \<Rightarrow> int" where
  "slice_index n i = (if i < 0 then max (n + i) 0 else min i n)"

definition js_slice :: "int \<Rightarrow> int \<Rightarrow> 'a list \<Rightarrow> 'a list" where
  "js_slice start stop xs =
     (let n = int (length xs); a = slice_index n start; b = slice_index n stop
      in take (nat (b - a)) (drop (nat a) xs))"

lemma js_slice_page:
  assumes "0 \<le> offset" "0 \<le> limit"
  shows "js_slice offset (offset + limit) xs = take (nat limit) (drop (nat offset) xs)"
proof (cases "offset \<le> int (length xs)")
  case True
  then show ?thesis
    using assms by (cases "offset + limit \<le> int (length xs)")
      (auto simp: js_slice_def slice_index_def Let_def nat_diff_distrib min_def)
next
  case False
  then show ?thesis using assms by (simp add: js_slice_def slice_index_def Let_def)
qed

lemma filter_length_le_one:
  "distinct xs \<Longrightarrow> (\<And>x y. x \<in> set xs \<Longrightarrow> y \<in> set xs \<Longrightarrow> P x \<Longrightarrow> P y \<Longrightarrow> x = y) \<Longrightarrow>
    length (filter P xs) \<le> 1"
proof (induction xs)
  case Nil
  then show ?case by simp
next
  case (Cons a xs)
  show ?case
  proof (cases "P a")
    case True
    have "filter P xs = []"
    proof (rule ccontr)
      assume "filter P xs \<noteq> []"
      then obtain b where b: "b \<in> set xs" "P b" by (auto simp: filter_empty_conv)
      with Cons.prems(2) [of a b] True have "a = b" by simp
      with b Cons.prems(1) show False by simp
    qed
    with True show ?thesis by simp
  next
    case False
    with Cons show ?thesis by simp
  qed
qed

text \<open>Encoding element by element with a prefix code is injective.\<close>

lemma prefix_code_inject:
  assumes code: "\<And>c d x y. f c @ x = f d @ y \<Longrightarrow> c = d \<and> x = y" and ne: "\<And>c. f c \<noteq> []"
  shows "concat (map f s) = concat (map f t) \<longleftrightarrow> s = t"
proof
  show "concat (map f s) = concat (map f t) \<Longrightarrow> s = t"
  proof (induction s arbitrary: t)
    case Nil
    with ne show ?case by (cases t) auto
  next
    case (Cons c s)
    then obtain d t' where t: "t = d # t'" using ne by (cases t) auto
    with Cons.prems have "f c @ concat (map f s) = f d @ concat (map f t')" by simp
    from code [OF this] Cons.IH t show ?case by simp
  qed
qed simp

end
