(* ===== verification/Domain.thy ===== *)
theory Domain
  imports Prelude
begin

text \<open>
  The types the layers share: \<^verbatim>\<open>src/src/domain/transaction.ts\<close>, the error classes of
  \<^verbatim>\<open>src/src/application/errors/\<close>, the idempotency models of
  \<^verbatim>\<open>src/src/application/models/idempotency-operation.ts\<close> and the port result types of
  \<^verbatim>\<open>src/src/application/ports/\<close>.

  A \<open>Date\<close> is its time value, an \<open>int\<close> of milliseconds.  A string is a list of code units
  below 256 (\<open>char\<close>).  \<open>amount\<close> is an integer of minor units, as the type's comment says.
  A thrown error is a value of \<open>error\<close>, a function that may throw returns \<open>error + 'a\<close>.
\<close>

section \<open>Transactions\<close>

record transaction_input =
  amount :: int
  currency :: string
  description :: string

datatype transaction_status = Approved

text \<open>\<open>Transaction = TransactionInput & {...}\<close>: a record extension.\<close>

record transaction = transaction_input +
  transaction_id :: string
  provider_transaction_id :: string
  transaction_status :: transaction_status
  created_at :: int

record provider_result =
  result_provider_transaction_id :: string
  decision :: transaction_status

section \<open>Errors\<close>

text \<open>
  One constructor per error class; \<open>Plain_Error\<close> is the built-in \<open>Error\<close> with its message and
  \<open>Abort_Error\<close> the error of name \<open>AbortError\<close> that an aborted fetch rejects with.  A
  provider status is optional on a rejection (\<open>status?\<close>).
\<close>

datatype error =
    Idempotency_Conflict_Error
  | Idempotency_In_Progress_Error
  | Transaction_Not_Found_Error
  | Provider_Timeout_Error
  | Provider_Unavailable_Error
  | Provider_Network_Error
  | Provider_Rate_Limited_Error
  | Provider_Server_Error int
  | Provider_Circuit_Open_Error
  | Provider_Invalid_Response_Error
  | Provider_Rejected_Error "int option"
  | Invalid_Transaction_Cache_Entry_Error
  | Redis_Operation_Timeout_Error
  | Abort_Error
  | Plain_Error string

type_synonym 'a result = "error + 'a"

section \<open>Idempotency operations\<close>

datatype operation_status = Processing | Completed

lemma operation_status_not [simp]:
  "x \<noteq> Completed \<longleftrightarrow> x = Processing" "x \<noteq> Processing \<longleftrightarrow> x = Completed"
  by (cases x; simp)+

record idempotency_operation =
  idempotency_key :: string
  request_fingerprint :: string
  operation_status :: operation_status
  operation_transaction_id :: "string option"
  operation_created_at :: int
  updated_at :: int

record claim_request =
  claim_key :: string
  claim_fingerprint :: string
  claimed_at :: int
  stale_before :: int

record complete_request =
  complete_key :: string
  complete_fingerprint :: string
  complete_transaction :: transaction
  completed_at :: int

record release_request =
  release_key :: string
  release_fingerprint :: string

datatype claim_result =
    New_Claim
  | Completed_Replay transaction
  | Fingerprint_Conflict
  | Claim_Processing

text \<open>\<open>RateLimitResult\<close>.\<close>

record rate_limit_result =
  allowed :: bool
  retry_after_seconds :: int

end
