(* ===== verification/Js_Number.thy ===== *)
theory Js_Number
  imports Prelude Complex_Main "HOL-Library.Log_Nat"
begin

text \<open>
  JavaScript numbers.  A number is NaN, an infinity or a finite IEEE-754 binary64 value, held
  as the rational it denotes (the two zeros are one).  Arithmetic computes the exact rational
  and rounds it with \<open>to_double\<close>: to nearest, ties to even, 53 significant bits, subnormals
  below \<open>2 powi (- 1022)\<close>, overflow to infinity.
\<close>

datatype js_number = NaN | Infinity | Neg_Infinity | Num rat

definition max_safe_integer :: int where
  "max_safe_integer = 9007199254740991"

section \<open>Rounding\<close>

definition round_half_even :: "rat \<Rightarrow> int" where
  "round_half_even x =
     (let f = \<lfloor>x\<rfloor>; d = x - of_int f
      in if d < 1 / 2 then f else if 1 / 2 < d then f + 1 else if even f then f else f + 1)"

definition exponent2 :: "rat \<Rightarrow> int" where
  "exponent2 x =
     (let (n, d) = quotient_of x; e = bitlen n - bitlen d
      in if 2 powi e \<le> x then e else e - 1)"

definition ulp_exponent :: "rat \<Rightarrow> int" where
  "ulp_exponent x = max (- 1074) (exponent2 \<bar>x\<bar> - 52)"

definition round_double :: "rat \<Rightarrow> rat" where
  "round_double x =
     (if x = 0 then 0
      else of_int (round_half_even (x / 2 powi ulp_exponent x)) * 2 powi ulp_exponent x)"

definition to_double :: "rat \<Rightarrow> js_number" where
  "to_double x =
     (let y = round_double x
      in if 2 ^ 1024 \<le> y then Infinity else if y \<le> - (2 ^ 1024) then Neg_Infinity else Num y)"

subsection \<open>Rounding to an integer\<close>

lemma round_half_even_bounds:
  "\<lfloor>x\<rfloor> \<le> round_half_even x" "round_half_even x \<le> \<lfloor>x\<rfloor> + 1"
  by (simp_all add: round_half_even_def Let_def)

lemma round_half_even_of_int [simp]: "round_half_even (of_int n) = n"
  by (simp add: round_half_even_def)

lemma round_half_even_mono: "x \<le> y \<Longrightarrow> round_half_even x \<le> round_half_even y"
proof -
  assume le: "x \<le> y"
  then have fl: "\<lfloor>x\<rfloor> \<le> \<lfloor>y\<rfloor>" by (rule floor_mono)
  show ?thesis
  proof (cases "\<lfloor>x\<rfloor> = \<lfloor>y\<rfloor>")
    case True
    with le show ?thesis by (simp add: round_half_even_def Let_def)
  next
    case False
    with fl have "\<lfloor>x\<rfloor> + 1 \<le> \<lfloor>y\<rfloor>" by simp
    with round_half_even_bounds [of x] round_half_even_bounds [of y] show ?thesis by linarith
  qed
qed

subsection \<open>The exponent\<close>

lemma exponent2_bounds:
  assumes "0 < x"
  shows "2 powi exponent2 x \<le> x" "x < 2 powi (exponent2 x + 1)"
proof -
  obtain n d where q: "quotient_of x = (n, d)" by fastforce
  then have d: "0 < d" by (rule quotient_of_denom_pos)
  from q have x: "x = of_int n / of_int d" by (rule quotient_of_div)
  from assms x d have n: "0 < n" by (simp add: zero_less_divide_iff)
  let ?a = "nat (bitlen n - 1)" and ?b = "nat (bitlen d - 1)"
  have bn: "1 \<le> bitlen n" and bd: "1 \<le> bitlen d"
    using n d bitlen_nonneg [of n] bitlen_nonneg [of d] bitlen_eq_zero_iff [of n] bitlen_eq_zero_iff [of d]
    by linarith+
  have nb: "2 ^ ?a \<le> n \<and> n < 2 ^ nat (bitlen n)" using bitlen_bounds [OF n] .
  have db: "2 ^ ?b \<le> d \<and> d < 2 ^ nat (bitlen d)" using bitlen_bounds [OF d] .
  have nb': "(2::rat) powi (bitlen n - 1) \<le> of_int n" "of_int n < (2::rat) powi bitlen n"
  proof -
    have "of_int (2 ^ ?a) \<le> (of_int n :: rat)" using nb by (simp only: of_int_le_iff)
    then show "(2::rat) powi (bitlen n - 1) \<le> of_int n" using bn by (simp add: power_int_def)
    have "(of_int n :: rat) < of_int (2 ^ nat (bitlen n))" using nb by (simp only: of_int_less_iff)
    then show "of_int n < (2::rat) powi bitlen n" using bn by (simp add: power_int_def)
  qed
  have db': "(2::rat) powi (bitlen d - 1) \<le> of_int d" "of_int d < (2::rat) powi bitlen d"
  proof -
    have "of_int (2 ^ ?b) \<le> (of_int d :: rat)" using db by (simp only: of_int_le_iff)
    then show "(2::rat) powi (bitlen d - 1) \<le> of_int d" using bd by (simp add: power_int_def)
    have "(of_int d :: rat) < of_int (2 ^ nat (bitlen d))" using db by (simp only: of_int_less_iff)
    then show "of_int d < (2::rat) powi bitlen d" using bd by (simp add: power_int_def)
  qed
  let ?e = "bitlen n - bitlen d"
  have dpos: "(0::rat) < of_int d" using d by simp
  have lo: "2 powi (?e - 1) \<le> x"
  proof -
    have "(2::rat) powi (?e - 1) * of_int d \<le> 2 powi (?e - 1) * 2 powi bitlen d"
      using db'(2) by (simp add: mult_left_mono less_imp_le)
    also have "\<dots> = 2 powi (bitlen n - 1)"
      by (subst power_int_add [symmetric]) (simp_all add: algebra_simps)
    also have "\<dots> \<le> of_int n" by (rule nb'(1))
    finally show ?thesis using dpos by (simp add: x field_simps)
  qed
  have hi: "x < 2 powi (?e + 1)"
  proof -
    have "of_int n < (2::rat) powi bitlen n" by (rule nb'(2))
    also have "\<dots> = 2 powi (?e + 1) * 2 powi (bitlen d - 1)"
      by (subst power_int_add [symmetric]) (simp_all add: algebra_simps)
    also have "\<dots> \<le> 2 powi (?e + 1) * of_int d"
      using db'(1) by (simp add: mult_left_mono)
    finally show ?thesis using dpos by (simp add: x field_simps)
  qed
  show "2 powi exponent2 x \<le> x" "x < 2 powi (exponent2 x + 1)"
    using lo hi by (auto simp: exponent2_def q Let_def)
qed

lemma powi2_less_iff [simp]: "(2::rat) powi a < 2 powi b \<longleftrightarrow> a < b"
proof
  assume "(2::rat) powi a < 2 powi b"
  then show "a < b"
    by (metis leD not_le_imp_less one_le_numeral power_int_increasing)
next
  assume "a < b"
  then show "(2::rat) powi a < 2 powi b" by (simp add: power_int_strict_increasing)
qed

lemma powi2_le_iff [simp]: "(2::rat) powi a \<le> 2 powi b \<longleftrightarrow> a \<le> b"
  by (simp add: not_less [symmetric])

lemma exponent2_mono: "0 < x \<Longrightarrow> x \<le> y \<Longrightarrow> exponent2 x \<le> exponent2 y"
proof -
  assume x: "0 < x" and le: "x \<le> y"
  have "(2::rat) powi exponent2 x < 2 powi (exponent2 y + 1)"
    using exponent2_bounds(1) [OF x] exponent2_bounds(2) [of y] x le by linarith
  then show ?thesis by simp
qed

subsection \<open>Rounding is monotone and exact on representable values\<close>

lemma powi2_add: "a + b = c \<Longrightarrow> (2::rat) powi a * 2 powi b = 2 powi c"
  by (simp add: power_int_add [symmetric] add.commute)

lemma round_double_upper:
  assumes "0 < x" "ulp_exponent x \<le> k" "x \<le> 2 powi k"
  shows "round_double x \<le> 2 powi k"
proof -
  let ?u = "ulp_exponent x"
  let ?n = "(2::int) ^ nat (k - ?u)"
  have n: "(of_int ?n :: rat) = 2 powi (k - ?u)" using assms(2) by (simp add: power_int_def)
  have m: "of_int ?n * (2::rat) powi ?u = 2 powi k" by (simp only: n) (simp add: powi2_add)
  have "x / 2 powi ?u \<le> of_int ?n"
    by (subst pos_divide_le_eq) (simp, simp only: m assms(3))
  then have "round_half_even (x / 2 powi ?u) \<le> round_half_even (of_int ?n)"
    by (rule round_half_even_mono)
  then have "round_half_even (x / 2 powi ?u) \<le> ?n" by (simp only: round_half_even_of_int)
  then have "(of_int (round_half_even (x / 2 powi ?u)) :: rat) \<le> of_int ?n"
    by (simp only: of_int_le_iff)
  then have "of_int (round_half_even (x / 2 powi ?u)) * (2::rat) powi ?u \<le> of_int ?n * 2 powi ?u"
    by (rule mult_right_mono) simp
  also have "of_int ?n * (2::rat) powi ?u = 2 powi k" by (rule m)
  finally show ?thesis using assms(1) by (simp add: round_double_def)
qed

lemma round_double_lower:
  assumes "0 < x" "ulp_exponent x \<le> k" "2 powi k \<le> x"
  shows "2 powi k \<le> round_double x"
proof -
  let ?u = "ulp_exponent x"
  let ?n = "(2::int) ^ nat (k - ?u)"
  have n: "(of_int ?n :: rat) = 2 powi (k - ?u)" using assms(2) by (simp add: power_int_def)
  have m: "of_int ?n * (2::rat) powi ?u = 2 powi k" by (simp only: n) (simp add: powi2_add)
  have "of_int ?n \<le> x / 2 powi ?u"
    by (subst pos_le_divide_eq) (simp, simp only: m assms(3))
  then have "round_half_even (of_int ?n) \<le> round_half_even (x / 2 powi ?u)"
    by (rule round_half_even_mono)
  then have "?n \<le> round_half_even (x / 2 powi ?u)" by (simp only: round_half_even_of_int)
  then have "(of_int ?n :: rat) \<le> of_int (round_half_even (x / 2 powi ?u))"
    by (simp only: of_int_le_iff)
  then have "of_int ?n * (2::rat) powi ?u \<le> of_int (round_half_even (x / 2 powi ?u)) * 2 powi ?u"
    by (rule mult_right_mono) simp
  moreover note m
  ultimately show ?thesis using assms(1) by (simp only: round_double_def) simp
qed

lemma round_double_nonneg: "0 \<le> x \<Longrightarrow> 0 \<le> round_double x"
proof -
  assume "0 \<le> x"
  then have "0 \<le> x / 2 powi ulp_exponent x" by simp
  then have "round_half_even 0 \<le> round_half_even (x / 2 powi ulp_exponent x)"
    by (rule round_half_even_mono)
  moreover have "round_half_even 0 = 0" using round_half_even_of_int [of 0] by simp
  ultimately show ?thesis by (simp add: round_double_def)
qed

lemma round_double_mono:
  assumes "0 \<le> x" "x \<le> y"
  shows "round_double x \<le> round_double y"
proof (cases "x = 0")
  case True
  with assms round_double_nonneg [of y] show ?thesis by (simp add: round_double_def)
next
  case False
  with assms have x: "0 < x" and y: "0 < y" by auto
  have e: "exponent2 x \<le> exponent2 y" using exponent2_mono [OF x assms(2)] .
  then have u: "ulp_exponent x \<le> ulp_exponent y" using x y by (simp add: ulp_exponent_def)
  show ?thesis
  proof (cases "ulp_exponent x = ulp_exponent y")
    case True
    have "x / 2 powi ulp_exponent y \<le> y / 2 powi ulp_exponent y"
      using assms(2) by (simp add: divide_right_mono)
    then have "round_half_even (x / 2 powi ulp_exponent y) \<le> round_half_even (y / 2 powi ulp_exponent y)"
      by (rule round_half_even_mono)
    with True x y show ?thesis by (simp add: round_double_def mult_right_mono)
  next
    case False
    with u have lt: "ulp_exponent x < ulp_exponent y" by simp
    then have uy: "ulp_exponent y = exponent2 y - 52" and lt': "exponent2 x < exponent2 y"
      using x y by (auto simp: ulp_exponent_def)
    have "round_double x \<le> 2 powi exponent2 y"
    proof (rule round_double_upper [OF x])
      show "ulp_exponent x \<le> exponent2 y" using lt uy by simp
      have "x < 2 powi (exponent2 x + 1)" by (rule exponent2_bounds(2) [OF x])
      also have "(2::rat) powi (exponent2 x + 1) \<le> 2 powi exponent2 y" using lt' by simp
      finally show "x \<le> 2 powi exponent2 y" by simp
    qed
    also have "2 powi exponent2 y \<le> round_double y"
      using uy exponent2_bounds(1) [OF y] by (intro round_double_lower [OF y]) simp_all
    finally show ?thesis .
  qed
qed

lemma exponent2_less: "0 < x \<Longrightarrow> x < 2 powi k \<Longrightarrow> exponent2 x < k"
proof -
  assume x: "0 < x" and lt: "x < 2 powi k"
  have "(2::rat) powi exponent2 x < 2 powi k" using exponent2_bounds(1) [OF x] lt by linarith
  then show ?thesis by simp
qed

lemma round_double_nonpos: "x \<le> 0 \<Longrightarrow> round_double x \<le> 0"
proof -
  assume "x \<le> 0"
  then have "x / 2 powi ulp_exponent x \<le> 0" by (simp add: divide_le_0_iff)
  then have "round_half_even (x / 2 powi ulp_exponent x) \<le> round_half_even 0"
    by (rule round_half_even_mono)
  moreover have "round_half_even 0 = 0" using round_half_even_of_int [of 0] by simp
  ultimately show ?thesis by (simp add: round_double_def mult_le_0_iff)
qed

text \<open>Evaluation: the exponent is the one that fits.\<close>

lemma exponent2_eqI: "2 powi e \<le> x \<Longrightarrow> x < 2 powi (e + 1) \<Longrightarrow> exponent2 x = e"
proof -
  assume lo: "2 powi e \<le> x" and hi: "x < 2 powi (e + 1)"
  have "(0::rat) < 2 powi e" by simp
  with lo have x: "0 < x" by linarith
  have "(2::rat) powi e < 2 powi (exponent2 x + 1)" "(2::rat) powi exponent2 x < 2 powi (e + 1)"
    using exponent2_bounds [OF x] lo hi by linarith+
  then show ?thesis by simp
qed

lemma round_double_eval:
  assumes "2 powi e \<le> x" "x < 2 powi (e + 1)" "- 1022 \<le> e"
  shows "round_double x = of_int (round_half_even (x / 2 powi (e - 52))) * 2 powi (e - 52)"
proof -
  have "(0::rat) < 2 powi e" by simp
  with assms have "0 < x" by linarith
  moreover from this have "ulp_exponent x = e - 52"
    using assms exponent2_eqI [OF assms(1,2)] by (simp add: ulp_exponent_def)
  ultimately show ?thesis by (simp add: round_double_def)
qed

text \<open>An integer of at most 53 bits, scaled by a power of two that is not too small, is exact.\<close>

lemma round_double_exact:
  assumes "\<bar>m\<bar> < 2 ^ 53" "- 1074 \<le> k"
  shows "round_double (of_int m * 2 powi k) = of_int m * 2 powi k"
proof (cases "m = 0")
  case True
  then show ?thesis by (simp add: round_double_def)
next
  case False
  let ?x = "of_int m * (2::rat) powi k"
  have abs: "\<bar>?x\<bar> = of_int \<bar>m\<bar> * 2 powi k" by (simp add: abs_mult)
  have pos: "0 < \<bar>?x\<bar>" using False by (simp add: abs)
  have "(of_int \<bar>m\<bar> :: rat) < of_int (2 ^ 53)" using assms(1) by (simp only: of_int_less_iff)
  then have "(of_int \<bar>m\<bar> :: rat) < 2 powi 53" by simp
  then have "\<bar>?x\<bar> < 2 powi 53 * 2 powi k"
    unfolding abs by (rule mult_strict_right_mono) simp
  then have "\<bar>?x\<bar> < 2 powi (53 + k)" by (simp only: powi2_add)
  then have "exponent2 \<bar>?x\<bar> < 53 + k" by (rule exponent2_less [OF pos])
  then have u: "ulp_exponent ?x \<le> k" using assms(2) by (simp add: ulp_exponent_def)
  let ?u = "ulp_exponent ?x" and ?j = "m * 2 ^ nat (k - ulp_exponent (of_int m * (2::rat) powi k))"
  have kk: "(2::rat) powi k = 2 powi (k - ?u) * 2 powi ?u" by (simp add: powi2_add)
  have j: "(of_int ?j :: rat) = of_int m * 2 powi (k - ?u)" using u by (simp add: power_int_def)
  have jx: "?x = of_int ?j * 2 powi ?u" by (simp only: j mult.assoc) (simp only: kk [symmetric])
  then have "?x / 2 powi ?u = of_int ?j" by (simp add: nonzero_divide_eq_eq)
  then have "round_half_even (?x / 2 powi ?u) = ?j" by (simp only: round_half_even_of_int)
  with False show ?thesis unfolding round_double_def by (simp only: jx [symmetric]) simp
qed

lemma round_double_of_int: "\<bar>m\<bar> < 2 ^ 53 \<Longrightarrow> round_double (of_int m) = of_int m"
  using round_double_exact [of m 0] by simp

section \<open>The operations the code uses\<close>

definition js_int :: "int \<Rightarrow> js_number" where
  "js_int n = Num (of_int n)"

fun is_finite :: "js_number \<Rightarrow> bool" where
  "is_finite (Num q) = True"
| "is_finite _ = False"

text \<open>\<open>Number.isSafeInteger\<close>, and the integer of a safe integer.\<close>

fun is_safe_integer :: "js_number \<Rightarrow> bool" where
  "is_safe_integer (Num q) = (of_int \<lfloor>q\<rfloor> = q \<and> \<bar>\<lfloor>q\<rfloor>\<bar> \<le> max_safe_integer)"
| "is_safe_integer _ = False"

fun integer_of :: "js_number \<Rightarrow> int" where
  "integer_of (Num q) = \<lfloor>q\<rfloor>"
| "integer_of _ = 0"

text \<open>\<open><\<close>: false as soon as one side is NaN.\<close>

fun js_less :: "js_number \<Rightarrow> js_number \<Rightarrow> bool" where
  "js_less NaN _ = False"
| "js_less _ NaN = False"
| "js_less _ Neg_Infinity = False"
| "js_less Neg_Infinity _ = True"
| "js_less Infinity _ = False"
| "js_less (Num a) Infinity = True"
| "js_less (Num a) (Num b) = (a < b)"

fun js_neg :: "js_number \<Rightarrow> js_number" where
  "js_neg NaN = NaN"
| "js_neg Infinity = Neg_Infinity"
| "js_neg Neg_Infinity = Infinity"
| "js_neg (Num a) = Num (- a)"

fun js_add :: "js_number \<Rightarrow> js_number \<Rightarrow> js_number" where
  "js_add NaN _ = NaN"
| "js_add _ NaN = NaN"
| "js_add Infinity Neg_Infinity = NaN"
| "js_add Neg_Infinity Infinity = NaN"
| "js_add Infinity _ = Infinity"
| "js_add _ Infinity = Infinity"
| "js_add Neg_Infinity _ = Neg_Infinity"
| "js_add _ Neg_Infinity = Neg_Infinity"
| "js_add (Num a) (Num b) = to_double (a + b)"

definition js_sub :: "js_number \<Rightarrow> js_number \<Rightarrow> js_number" where
  "js_sub a b = js_add a (js_neg b)"

definition signed_infinity :: "rat \<Rightarrow> js_number" where
  "signed_infinity s = (if s = 0 then NaN else if 0 < s then Infinity else Neg_Infinity)"

fun js_mul :: "js_number \<Rightarrow> js_number \<Rightarrow> js_number" where
  "js_mul NaN _ = NaN"
| "js_mul _ NaN = NaN"
| "js_mul (Num a) (Num b) = to_double (a * b)"
| "js_mul (Num a) Infinity = signed_infinity a"
| "js_mul (Num a) Neg_Infinity = signed_infinity (- a)"
| "js_mul Infinity (Num b) = signed_infinity b"
| "js_mul Neg_Infinity (Num b) = signed_infinity (- b)"
| "js_mul Infinity Infinity = Infinity"
| "js_mul Neg_Infinity Neg_Infinity = Infinity"
| "js_mul Infinity Neg_Infinity = Neg_Infinity"
| "js_mul Neg_Infinity Infinity = Neg_Infinity"

text \<open>\<open>2 ** n\<close> for a non-negative integer exponent.\<close>

text \<open>Division; the sign of a zero divisor is not modelled, it is taken as positive.\<close>

fun js_div :: "js_number \<Rightarrow> js_number \<Rightarrow> js_number" where
  "js_div NaN _ = NaN"
| "js_div _ NaN = NaN"
| "js_div (Num a) (Num b) = (if b = 0 then signed_infinity a else to_double (a / b))"
| "js_div (Num a) _ = Num 0"
| "js_div Infinity (Num b) = (if b < 0 then Neg_Infinity else Infinity)"
| "js_div Neg_Infinity (Num b) = (if b < 0 then Infinity else Neg_Infinity)"
| "js_div _ _ = NaN"

definition js_pow2 :: "nat \<Rightarrow> js_number" where
  "js_pow2 n = (if n < 1024 then Num (2 ^ n) else Infinity)"

text \<open>\<open>Math.round\<close>: half-way cases go up.  \<open>Math.min\<close>, \<open>Math.max\<close>: NaN is contagious.\<close>

fun math_round :: "js_number \<Rightarrow> js_number" where
  "math_round (Num q) = js_int \<lfloor>q + 1 / 2\<rfloor>"
| "math_round x = x"

fun math_ceil :: "js_number \<Rightarrow> js_number" where
  "math_ceil (Num q) = js_int \<lceil>q\<rceil>"
| "math_ceil x = x"

fun math_floor :: "js_number \<Rightarrow> js_number" where
  "math_floor (Num q) = js_int \<lfloor>q\<rfloor>"
| "math_floor x = x"

definition math_min :: "js_number \<Rightarrow> js_number \<Rightarrow> js_number" where
  "math_min a b = (if a = NaN \<or> b = NaN then NaN else if js_less b a then b else a)"

definition math_max :: "js_number \<Rightarrow> js_number \<Rightarrow> js_number" where
  "math_max a b = (if a = NaN \<or> b = NaN then NaN else if js_less a b then b else a)"

subsection \<open>Integers\<close>

lemma floor_js_int [simp]: "integer_of (js_int n) = n"
  by (simp add: js_int_def)

lemma js_int_inject [simp]: "js_int a = js_int b \<longleftrightarrow> a = b"
  by (simp add: js_int_def)

lemma js_less_js_int [simp]: "js_less (js_int a) (js_int b) \<longleftrightarrow> a < b"
  by (simp add: js_int_def)

lemma js_int_not_NaN [simp]: "js_int a \<noteq> NaN" "NaN \<noteq> js_int a"
  by (simp_all add: js_int_def)

lemma is_safe_integer_js_int [simp]: "is_safe_integer (js_int n) \<longleftrightarrow> \<bar>n\<bar> \<le> max_safe_integer"
  by (simp add: js_int_def)

lemma is_safe_integerE:
  assumes "is_safe_integer x"
  obtains n where "x = js_int n" "\<bar>n\<bar> \<le> max_safe_integer" "integer_of x = n"
proof (cases x)
  case (Num q)
  have q: "of_int \<lfloor>q\<rfloor> = q" "\<bar>\<lfloor>q\<rfloor>\<bar> \<le> max_safe_integer"
    using assms unfolding Num is_safe_integer.simps by blast+
  show ?thesis by (rule that [of "\<lfloor>q\<rfloor>"]) (simp_all only: Num js_int_def q integer_of.simps)
qed (use assms in auto)

lemma safe_at_least:
  assumes "is_safe_integer x" "\<not> js_less x (js_int m)"
  shows "x = js_int (integer_of x) \<and> m \<le> integer_of x \<and> integer_of x \<le> max_safe_integer"
  using assms by (auto elim!: is_safe_integerE)

lemma math_min_js_int [simp]: "math_min (js_int a) (js_int b) = js_int (min a b)"
  by (auto simp: math_min_def)

lemma math_max_js_int [simp]: "math_max (js_int a) (js_int b) = js_int (max a b)"
  by (auto simp: math_max_def)

lemma max_safe_less: "\<bar>n\<bar> \<le> max_safe_integer \<longleftrightarrow> \<bar>n\<bar> < 2 ^ 53"
  by (auto simp: max_safe_integer_def)

lemma to_double_of_int:
  assumes "\<bar>n\<bar> \<le> max_safe_integer"
  shows "to_double (of_int n) = js_int n"
proof -
  have r: "round_double (of_int n) = of_int n"
    using assms round_double_of_int [of n] by (simp add: max_safe_less)
  have "(of_int \<bar>n\<bar> :: rat) \<le> of_int max_safe_integer" using assms by (simp only: of_int_le_iff)
  then have "\<bar>of_int n\<bar> \<le> (9007199254740991 :: rat)" by (simp add: max_safe_integer_def)
  moreover have "(9007199254740991 :: rat) < 2 ^ 1024" by simp
  ultimately have "(of_int n :: rat) < 2 ^ 1024" "- (2 ^ 1024) < (of_int n :: rat)" by linarith+
  then show ?thesis by (simp add: to_double_def r Let_def js_int_def)
qed

lemma js_add_int:
  "\<bar>a + b\<bar> \<le> max_safe_integer \<Longrightarrow> js_add (js_int a) (js_int b) = js_int (a + b)"
  using to_double_of_int [of "a + b"] by (simp add: js_int_def)

lemma js_sub_int:
  "\<bar>a - b\<bar> \<le> max_safe_integer \<Longrightarrow> js_sub (js_int a) (js_int b) = js_int (a - b)"
  using to_double_of_int [of "a - b"] by (simp add: js_sub_def js_int_def)

lemma js_mul_int:
  "\<bar>a * b\<bar> \<le> max_safe_integer \<Longrightarrow> js_mul (js_int a) (js_int b) = js_int (a * b)"
  using to_double_of_int [of "a * b"] by (simp add: js_int_def)

subsection \<open>Values that left the safe range stay out of it\<close>

fun js_huge :: "js_number \<Rightarrow> bool" where
  "js_huge Infinity = True"
| "js_huge (Num q) = (2 ^ 53 \<le> q)"
| "js_huge _ = False"

lemma round_double_2_53: "round_double (2 ^ 53) = 2 ^ 53"
  using round_double_exact [of 1 53] by simp

lemma to_double_huge: "2 ^ 53 \<le> x \<Longrightarrow> js_huge (to_double x)"
proof -
  assume "2 ^ 53 \<le> x"
  then have "round_double (2 ^ 53) \<le> round_double x" by (intro round_double_mono) auto
  then have "2 ^ 53 \<le> round_double x" by (simp only: round_double_2_53)
  moreover from this have "\<not> round_double x \<le> - (2 ^ 1024)" by simp
  ultimately show ?thesis by (simp add: to_double_def Let_def)
qed

lemma js_huge_unsafe: "js_huge x \<Longrightarrow> \<not> is_safe_integer x"
proof (cases x)
  case (Num q)
  assume "js_huge x"
  with Num have "2 ^ 53 \<le> q" by simp
  then have "(2 ^ 53 :: int) \<le> \<lfloor>q\<rfloor>" by (simp add: le_floor_iff)
  with Num show ?thesis by (auto simp: max_safe_integer_def)
qed auto

lemma js_add_huge:
  "js_huge x \<Longrightarrow> 0 \<le> n \<Longrightarrow> js_huge (js_add x (js_int n))"
proof (cases x)
  case (Num q)
  assume "js_huge x" "0 \<le> n"
  with Num have "2 ^ 53 \<le> q + of_int n" by (simp add: add_increasing2)
  with Num show ?thesis by (simp add: js_int_def to_double_huge)
qed (auto simp: js_int_def)

lemma js_add_exact_or_huge:
  assumes "0 \<le> a" "0 \<le> b"
  shows "if a + b \<le> max_safe_integer then js_add (js_int a) (js_int b) = js_int (a + b)
         else js_huge (js_add (js_int a) (js_int b))"
proof (cases "a + b \<le> max_safe_integer")
  case True
  with assms show ?thesis by (simp add: js_add_int)
next
  case False
  then have "2 ^ 53 \<le> a + b" by (simp add: max_safe_integer_def)
  then have "of_int (2 ^ 53) \<le> (of_int (a + b) :: rat)" by (simp only: of_int_le_iff)
  then have "(2 ^ 53 :: rat) \<le> of_int a + of_int b" by simp
  with False show ?thesis by (simp add: js_int_def to_double_huge)
qed

lemma js_mul_exact_or_huge:
  assumes "0 \<le> a" "0 \<le> b"
  shows "if a * b \<le> max_safe_integer then js_mul (js_int a) (js_int b) = js_int (a * b)
         else js_huge (js_mul (js_int a) (js_int b))"
proof (cases "a * b \<le> max_safe_integer")
  case True
  with assms show ?thesis by (simp add: js_mul_int)
next
  case False
  then have "2 ^ 53 \<le> a * b" by (simp add: max_safe_integer_def)
  then have "of_int (2 ^ 53) \<le> (of_int (a * b) :: rat)" by (simp only: of_int_le_iff)
  then have "(2 ^ 53 :: rat) \<le> of_int a * of_int b" by simp
  with False show ?thesis by (simp add: js_int_def to_double_huge)
qed

lemma js_sub_huge: "js_huge y \<Longrightarrow> a \<le> max_safe_integer \<Longrightarrow> 1 \<le> m \<Longrightarrow> js_less (js_sub (js_int a) y) (js_int m)"
proof (cases y)
  case (Num q)
  assume y: "js_huge y" and a: "a \<le> max_safe_integer" and m: "1 \<le> m"
  have "(of_int a :: rat) \<le> of_int (2 ^ 53)" using a by (simp only: of_int_le_iff) (simp add: max_safe_integer_def)
  then have "of_int a - q \<le> 0" using y Num by simp
  then have "round_double (of_int a - q) \<le> 0" by (rule round_double_nonpos)
  moreover have "(1::rat) \<le> of_int m" using m by simp
  ultimately have "round_double (of_int a - q) < of_int m" by linarith
  moreover have "\<not> 2 ^ 1024 \<le> round_double (of_int a - q)"
    using \<open>round_double (of_int a - q) \<le> 0\<close> by (simp add: not_le order.strict_trans1)
  ultimately show ?thesis using Num by (simp add: js_sub_def js_int_def to_double_def Let_def)
qed (auto simp: js_sub_def js_int_def)

subsection \<open>Rounding a quotient up\<close>

text \<open>
  \<open>Math.ceil(n / l)\<close> is exact while the quotient is far enough below \<open>2^53\<close> for a fraction of at
  least \<open>1/1024\<close> to survive the rounding of the division.
\<close>

lemma to_double_small:
  assumes "0 \<le> x" "x \<le> of_int k" "k < 2 ^ 53"
  shows "to_double x = Num (round_double x)"
proof -
  have "0 \<le> k" using assms(1,2) by linarith
  then have "round_double (of_int k) = of_int k" using assms(3) by (intro round_double_of_int) simp
  then have "round_double x \<le> of_int k" using round_double_mono [OF assms(1,2)] by simp
  also have "of_int k < (2 ^ 53 :: rat)" using assms(3) by (metis of_int_less_iff of_int_numeral of_int_power)
  also have "(2 ^ 53 :: rat) < 2 ^ 1024" by simp
  finally have "round_double x < 2 ^ 1024" .
  moreover have "- (2 ^ 1024) < (0 :: rat)" by simp
  then have "- (2 ^ 1024) < round_double x" using round_double_nonneg [OF assms(1)] by linarith
  ultimately show ?thesis by (simp add: to_double_def Let_def)
qed

lemma ceiling_div_exact:
  assumes n: "0 \<le> n" "n \<le> 2 ^ 42" and l: "1 \<le> l" "l \<le> 1024"
  shows "math_ceil (js_div (js_int n) (js_int l)) = js_int \<lceil>of_int n / (of_int l :: rat)\<rceil>"
proof -
  define q where "q = of_int n / (of_int l :: rat)"
  define k where "k = \<lceil>q\<rceil>"
  have q: "0 \<le> q" using n l by (simp add: q_def)
  have "q \<le> of_int n" using n l by (simp add: q_def divide_le_eq mult_le_cancel_left1)
  then have kn: "k \<le> n" by (simp add: k_def ceiling_le_iff)
  have k0: "0 \<le> k" using q by (simp add: k_def)
  have k53: "k < 2 ^ 53" using kn n(2) by simp
  have qk: "q \<le> of_int k" by (simp add: k_def)
  have rk: "round_double (of_int k) = of_int k" using k0 k53 by (intro round_double_of_int) simp
  have upper: "round_double q \<le> of_int k" using round_double_mono [OF q qk] rk by simp
  have "of_int (k - 1) < round_double q \<or> q = of_int k"
  proof (cases "q = of_int k")
    case False
    have "of_int (k - 1) < q" by (simp add: k_def) linarith
    then have "of_int ((k - 1) * l) < (of_int n :: rat)" using l by (simp add: q_def less_divide_eq)
    then have "(k - 1) * l + 1 \<le> n" by (simp only: of_int_less_iff)
    then have "(of_int ((k - 1) * l + 1) :: rat) \<le> of_int n" by (simp only: of_int_le_iff)
    then have "(of_int (k - 1) + 1 / of_int l) * of_int l \<le> (of_int n :: rat)"
      using l by (simp add: distrib_right)
    then have "of_int (k - 1) + 1 / of_int l \<le> q"
      using l by (simp add: q_def pos_le_divide_eq)
    moreover have "(1::rat) / 1024 \<le> 1 / of_int l" using l by (intro divide_left_mono) auto
    ultimately have low: "of_int (k - 1) + 1 / 1024 \<le> q" by linarith
    have "0 < k" using False qk q k0 by (cases "k = 0") auto
    then have nn: "(0::rat) \<le> of_int (k - 1) + 1 / 1024" by simp
    have e: "of_int (k - 1) + 1 / 1024 = of_int (1024 * (k - 1) + 1) * (2::rat) powi (- 10)"
      by (simp add: power_int_def field_simps)
    have "\<bar>1024 * (k - 1) + 1\<bar> < 2 ^ 53" using \<open>0 < k\<close> kn n(2) by simp
    then have "round_double (of_int (k - 1) + 1 / 1024) = of_int (k - 1) + 1 / 1024"
      unfolding e by (intro round_double_exact) auto
    with round_double_mono [OF nn low] show ?thesis by linarith
  qed simp
  then have "\<lceil>round_double q\<rceil> = k"
    using upper rk by (auto simp: ceiling_eq_iff)
  moreover have "js_div (js_int n) (js_int l) = Num (round_double q)"
    using l to_double_small [OF q qk k53] by (simp add: js_int_def q_def)
  ultimately show ?thesis by (simp add: q_def k_def)
qed

end
