(* ===== verification/Circuit_Breaker.thy ===== *)
theory Circuit_Breaker
  imports Domain Js_Number
begin

text \<open>
  \<^verbatim>\<open>src/src/infrastructure/providers/circuit-breaker.ts\<close>: the configuration check, the class
  \<open>CircuitBreaker\<close> (a record and one function per method; a method that reads the clock takes
  the reading \<open>now\<close>), and the breaker together with the permits that callers still hold.
\<close>

section \<open>Data\<close>

datatype circuit_state = Closed | Open | Half_Open

datatype permit_mode = Closed_Permit | Half_Open_Permit

record circuit_permit =
  permit_mode :: permit_mode
  permit_generation :: nat

text \<open>The configuration arrives as raw numbers.\<close>

record circuit_breaker_config =
  failure_threshold :: js_number
  open_duration_ms :: js_number

text \<open>The calls made to the optional observer.\<close>

datatype circuit_event = Opened | Closed_Event

text \<open>
  \<open>threshold\<close> and \<open>open_ms\<close> are the two validated configuration values;
  \<open>observed\<close> lists the observer calls made so far.
\<close>

record circuit_breaker =
  threshold :: int
  open_ms :: int
  current_state :: circuit_state
  consecutive_failures :: int
  opened_at_ms :: int
  half_open_probe_in_flight :: bool
  generation :: nat
  observed :: "circuit_event list"

section \<open>Operations\<close>

definition validate_circuit_breaker_config :: "circuit_breaker_config \<Rightarrow> unit result" where
  "validate_circuit_breaker_config config =
     (if \<not> is_safe_integer (failure_threshold config) \<or>
         js_less (failure_threshold config) (js_int 1)
      then Inl (Plain_Error ''failureThreshold must be a positive safe integer'')
      else if \<not> is_safe_integer (open_duration_ms config) \<or>
              js_less (open_duration_ms config) (js_int 1)
      then Inl (Plain_Error ''openDurationMs must be a positive safe integer'')
      else Inr ())"

definition new_circuit_breaker :: "circuit_breaker_config \<Rightarrow> circuit_breaker result" where
  "new_circuit_breaker config =
     (case validate_circuit_breaker_config config of
        Inl e \<Rightarrow> Inl e
      | Inr _ \<Rightarrow> Inr
          \<lparr>threshold = integer_of (failure_threshold config),
           open_ms = integer_of (open_duration_ms config),
           current_state = Closed, consecutive_failures = 0, opened_at_ms = 0,
           half_open_probe_in_flight = False, generation = 0, observed = []\<rparr>)"

definition advance_to_half_open_when_ready :: "int \<Rightarrow> circuit_breaker \<Rightarrow> circuit_breaker" where
  "advance_to_half_open_when_ready now b =
     (if current_state b = Open \<and> open_ms b \<le> now - opened_at_ms b
      then b\<lparr>current_state := Half_Open, half_open_probe_in_flight := False\<rparr>
      else b)"

definition breaker_state :: "int \<Rightarrow> circuit_breaker \<Rightarrow> circuit_state \<times> circuit_breaker" where
  "breaker_state now b =
     (let b' = advance_to_half_open_when_ready now b in (current_state b', b'))"

definition acquire :: "int \<Rightarrow> circuit_breaker \<Rightarrow> circuit_permit option \<times> circuit_breaker" where
  "acquire now b =
     (let b = advance_to_half_open_when_ready now b in
      if current_state b = Open then (None, b)
      else if current_state b = Half_Open then
        (if half_open_probe_in_flight b then (None, b)
         else (Some \<lparr>permit_mode = Half_Open_Permit, permit_generation = generation b\<rparr>,
               b\<lparr>half_open_probe_in_flight := True\<rparr>))
      else (Some \<lparr>permit_mode = Closed_Permit, permit_generation = generation b\<rparr>, b))"

definition is_current :: "circuit_permit \<Rightarrow> circuit_breaker \<Rightarrow> bool" where
  "is_current permit b \<longleftrightarrow> permit_generation permit = generation b"

definition open_circuit :: "int \<Rightarrow> circuit_breaker \<Rightarrow> circuit_breaker" where
  "open_circuit now b =
     b\<lparr>current_state := Open, opened_at_ms := now, consecutive_failures := 0,
       half_open_probe_in_flight := False, generation := generation b + 1,
       observed := observed b @ [Opened]\<rparr>"

definition close_circuit :: "circuit_breaker \<Rightarrow> circuit_breaker" where
  "close_circuit b =
     b\<lparr>current_state := Closed, consecutive_failures := 0,
       half_open_probe_in_flight := False, generation := generation b + 1,
       observed := observed b @ [Closed_Event]\<rparr>"

definition record_success :: "circuit_permit \<Rightarrow> circuit_breaker \<Rightarrow> circuit_breaker" where
  "record_success permit b =
     (if \<not> is_current permit b then b
      else if permit_mode permit = Half_Open_Permit then close_circuit b
      else if current_state b = Closed then b\<lparr>consecutive_failures := 0\<rparr>
      else b)"

definition record_failure :: "int \<Rightarrow> circuit_permit \<Rightarrow> circuit_breaker \<Rightarrow> circuit_breaker" where
  "record_failure now permit b =
     (if \<not> is_current permit b then b
      else if permit_mode permit = Half_Open_Permit then open_circuit now b
      else if current_state b \<noteq> Closed then b
      else
        (let b = b\<lparr>consecutive_failures := consecutive_failures b + 1\<rparr> in
         if threshold b \<le> consecutive_failures b then open_circuit now b else b))"

definition record_non_failure :: "circuit_permit \<Rightarrow> circuit_breaker \<Rightarrow> circuit_breaker" where
  "record_non_failure permit b =
     (if \<not> is_current permit b then b
      else if permit_mode permit = Half_Open_Permit then close_circuit b
      else b)"

lemmas breaker_defs [defs] =
  advance_to_half_open_when_ready_def breaker_state_def acquire_def is_current_def
  open_circuit_def close_circuit_def record_success_def record_failure_def record_non_failure_def

section \<open>The breaker and the permits in flight\<close>

text \<open>
  Callers hold permits across the awaits of a provider call, so any number of permits, of
  several generations, is outstanding while the breaker moves on.  A step is one method call;
  a recorded outcome gives its permit back.
\<close>

record breaker_system =
  breaker :: circuit_breaker
  permits :: "circuit_permit multiset"

inductive breaker_step :: "breaker_system \<Rightarrow> breaker_system \<Rightarrow> bool" where
  query: "breaker_state now (breaker s) = (st, b) \<Longrightarrow> breaker_step s (s\<lparr>breaker := b\<rparr>)"
| grant: "acquire now (breaker s) = (Some p, b) \<Longrightarrow>
    breaker_step s \<lparr>breaker = b, permits = add_mset p (permits s)\<rparr>"
| refuse: "acquire now (breaker s) = (None, b) \<Longrightarrow> breaker_step s (s\<lparr>breaker := b\<rparr>)"
| success: "p \<in># permits s \<Longrightarrow>
    breaker_step s \<lparr>breaker = record_success p (breaker s), permits = permits s - {#p#}\<rparr>"
| failure: "p \<in># permits s \<Longrightarrow>
    breaker_step s \<lparr>breaker = record_failure now p (breaker s), permits = permits s - {#p#}\<rparr>"
| non_failure: "p \<in># permits s \<Longrightarrow>
    breaker_step s \<lparr>breaker = record_non_failure p (breaker s), permits = permits s - {#p#}\<rparr>"

inductive breaker_reachable :: "circuit_breaker_config \<Rightarrow> breaker_system \<Rightarrow> bool"
  for config :: circuit_breaker_config where
  init: "new_circuit_breaker config = Inr b \<Longrightarrow>
    breaker_reachable config \<lparr>breaker = b, permits = {#}\<rparr>"
| step: "breaker_reachable config s \<Longrightarrow> breaker_step s t \<Longrightarrow> breaker_reachable config t"

subsection \<open>The invariant\<close>

definition breaker_ok :: "circuit_breaker \<Rightarrow> bool" where
  "breaker_ok b \<longleftrightarrow>
     1 \<le> threshold b \<and> 1 \<le> open_ms b \<and>
     0 \<le> consecutive_failures b \<and> consecutive_failures b < threshold b \<and>
     (current_state b \<noteq> Closed \<longrightarrow> consecutive_failures b = 0) \<and>
     (half_open_probe_in_flight b \<longrightarrow> current_state b = Half_Open)"

definition permit_ok :: "circuit_breaker \<Rightarrow> circuit_permit \<Rightarrow> bool" where
  "permit_ok b p \<longleftrightarrow>
     permit_generation p \<le> generation b \<and>
     (is_current p b \<longrightarrow>
       current_state b = (case permit_mode p of Closed_Permit \<Rightarrow> Closed | Half_Open_Permit \<Rightarrow> Half_Open))"

definition probe_permit :: "circuit_breaker \<Rightarrow> circuit_permit" where
  "probe_permit b = \<lparr>permit_mode = Half_Open_Permit, permit_generation = generation b\<rparr>"

definition breaker_inv :: "breaker_system \<Rightarrow> bool" where
  "breaker_inv s \<longleftrightarrow>
     breaker_ok (breaker s) \<and>
     (\<forall>p. p \<in># permits s \<longrightarrow> permit_ok (breaker s) p) \<and>
     count (permits s) (probe_permit (breaker s)) = of_bool (half_open_probe_in_flight (breaker s))"

lemma new_circuit_breaker_Inr:
  "new_circuit_breaker config = Inr b \<Longrightarrow>
    breaker_ok b \<and> current_state b = Closed \<and> generation b = 0 \<and> \<not> half_open_probe_in_flight b \<and>
    threshold b = integer_of (failure_threshold config) \<and> open_ms b = integer_of (open_duration_ms config)"
  by (auto simp: new_circuit_breaker_def validate_circuit_breaker_config_def breaker_ok_def
      split: if_splits sum.splits dest!: safe_at_least)

lemma breaker_inv_init: "new_circuit_breaker config = Inr b \<Longrightarrow> breaker_inv \<lparr>breaker = b, permits = {#}\<rparr>"
  by (auto simp: breaker_inv_def dest: new_circuit_breaker_Inr)

text \<open>Each operation keeps a breaker well formed.\<close>

lemma breaker_ok_ops [simp]:
  "breaker_ok b \<Longrightarrow> breaker_ok (advance_to_half_open_when_ready now b)"
  "breaker_ok b \<Longrightarrow> breaker_ok (open_circuit now b)"
  "breaker_ok b \<Longrightarrow> breaker_ok (close_circuit b)"
  "breaker_ok b \<Longrightarrow> breaker_ok (record_success p b)"
  "breaker_ok b \<Longrightarrow> breaker_ok (record_failure now p b)"
  "breaker_ok b \<Longrightarrow> breaker_ok (record_non_failure p b)"
  by (auto simp: breaker_ok_def breaker_defs Let_def)

text \<open>A recorded outcome keeps every other permit consistent, and no probe permit is left.\<close>

lemma permit_ok_advance:
  "breaker_ok b \<Longrightarrow> permit_ok b p \<Longrightarrow> permit_ok (advance_to_half_open_when_ready now b) p"
  by (auto simp: permit_ok_def breaker_defs split: permit_mode.splits)

lemma permit_ok_new_generation:
  "permit_generation p \<le> generation b \<Longrightarrow> generation b' = generation b + 1 \<Longrightarrow> permit_ok b' p"
  by (auto simp: permit_ok_def is_current_def)

lemma count_probe_none:
  assumes "\<forall>p. p \<in># ps \<longrightarrow> permit_generation p \<le> g" "g < permit_generation q"
  shows "count ps q = 0"
  using assms by (force simp: not_in_iff [symmetric])

lemma breaker_inv_new_generation:
  assumes inv: "breaker_inv s" and ok: "breaker_ok b'"
    and "generation b' = generation (breaker s) + 1" "\<not> half_open_probe_in_flight b'"
    and sub: "ps \<subseteq># permits s"
  shows "breaker_inv \<lparr>breaker = b', permits = ps\<rparr>"
proof -
  have le: "\<forall>p. p \<in># ps \<longrightarrow> permit_generation p \<le> generation (breaker s)"
    using inv sub by (auto simp: breaker_inv_def permit_ok_def dest: mset_subset_eqD)
  then have "count ps (probe_permit b') = 0"
    using assms(3) by (intro count_probe_none) (auto simp: probe_permit_def)
  with le assms show ?thesis
    by (auto simp: breaker_inv_def intro: permit_ok_new_generation)
qed

lemma breaker_inv_same:
  assumes inv: "breaker_inv s" and ok: "breaker_ok b'"
    and same: "generation b' = generation (breaker s)" "current_state b' = current_state (breaker s)"
      "half_open_probe_in_flight b' = half_open_probe_in_flight (breaker s)"
    and sub: "ps \<subseteq># permits s" and keep: "count ps (probe_permit b') = count (permits s) (probe_permit b')"
  shows "breaker_inv \<lparr>breaker = b', permits = ps\<rparr>"
  using assms
  by (auto simp: breaker_inv_def permit_ok_def is_current_def probe_permit_def dest: mset_subset_eqD)

lemma breaker_inv_record:
  assumes inv: "breaker_inv s" and p: "p \<in># permits s"
    and stale: "\<not> is_current p (breaker s) \<Longrightarrow> b' = breaker s"
    and probe: "is_current p (breaker s) \<Longrightarrow> permit_mode p = Half_Open_Permit \<Longrightarrow>
      generation b' = generation (breaker s) + 1"
    and closed: "is_current p (breaker s) \<Longrightarrow> permit_mode p = Closed_Permit \<Longrightarrow>
      generation b' = generation (breaker s) + 1 \<or>
      (generation b' = generation (breaker s) \<and> current_state b' = current_state (breaker s) \<and>
       half_open_probe_in_flight b' = half_open_probe_in_flight (breaker s))"
    and ok: "breaker_ok b'" and fresh: "generation b' = generation (breaker s) + 1 \<Longrightarrow> \<not> half_open_probe_in_flight b'"
  shows "breaker_inv \<lparr>breaker = b', permits = permits s - {#p#}\<rparr>"
proof (cases "generation b' = generation (breaker s) + 1")
  case True
  with assms show ?thesis by (intro breaker_inv_new_generation) auto
next
  case False
  have "p \<noteq> probe_permit b' \<and> generation b' = generation (breaker s) \<and>
      current_state b' = current_state (breaker s) \<and>
      half_open_probe_in_flight b' = half_open_probe_in_flight (breaker s)"
    using False stale probe closed
    by (cases "is_current p (breaker s)"; cases "permit_mode p") (auto simp: probe_permit_def is_current_def)
  with inv ok show ?thesis by (intro breaker_inv_same) auto
qed

lemma breaker_inv_advance:
  assumes "breaker_inv s"
  shows "breaker_inv (s\<lparr>breaker := advance_to_half_open_when_ready now (breaker s)\<rparr>)"
proof -
  let ?b = "advance_to_half_open_when_ready now (breaker s)"
  have g: "generation ?b = generation (breaker s)" by (simp add: breaker_defs)
  have "half_open_probe_in_flight ?b = half_open_probe_in_flight (breaker s)"
    using assms by (auto simp: breaker_inv_def breaker_ok_def advance_to_half_open_when_ready_def)
  with assms g show ?thesis by (auto simp: breaker_inv_def permit_ok_advance probe_permit_def)
qed

lemma breaker_inv_grant:
  assumes inv: "breaker_inv s" and acq: "acquire now (breaker s) = (Some p, b)"
  shows "breaker_inv \<lparr>breaker = b, permits = add_mset p (permits s)\<rparr>"
proof -
  let ?b = "advance_to_half_open_when_ready now (breaker s)"
  have inv': "breaker_inv \<lparr>breaker = ?b, permits = permits s\<rparr>"
    using breaker_inv_advance [OF inv, of now] by (cases s) simp
  show ?thesis
  proof (cases "current_state ?b = Half_Open")
    case True
    with acq have "p = probe_permit ?b" "b = ?b\<lparr>half_open_probe_in_flight := True\<rparr>" "\<not> half_open_probe_in_flight ?b"
      by (auto simp: acquire_def Let_def probe_permit_def split: if_splits)
    with inv' True show ?thesis
      by (auto simp: breaker_inv_def breaker_ok_def permit_ok_def is_current_def probe_permit_def)
  next
    case False
    with acq have "p = \<lparr>permit_mode = Closed_Permit, permit_generation = generation ?b\<rparr>" "b = ?b"
      "current_state ?b = Closed"
      by (auto simp: acquire_def Let_def split: if_splits intro: circuit_state.exhaust)
    with inv' show ?thesis
      by (auto simp: breaker_inv_def permit_ok_def is_current_def probe_permit_def)
  qed
qed

lemma acquire_refused: "acquire now b = (None, b') \<Longrightarrow> b' = advance_to_half_open_when_ready now b"
  by (auto simp: acquire_def Let_def split: if_splits)

lemma breaker_step_inv: "breaker_step s t \<Longrightarrow> breaker_inv s \<Longrightarrow> breaker_inv t"
proof (induction rule: breaker_step.induct)
  case (query now s st b)
  then show ?case using breaker_inv_advance by (auto simp: breaker_state_def Let_def)
next
  case (grant now s p b)
  then show ?case by (blast intro: breaker_inv_grant)
next
  case (refuse now s b)
  then show ?case using breaker_inv_advance by (auto dest: acquire_refused)
next
  case (success p s)
  then have ok: "breaker_ok (breaker s)" "permit_ok (breaker s) p" by (auto simp: breaker_inv_def)
  show ?case
  proof (rule breaker_inv_record [OF success(2,1)])
    show "breaker_ok (record_success p (breaker s))" using ok(1) by simp
  qed (use ok(2) in \<open>auto simp: breaker_defs Let_def permit_ok_def split: if_splits\<close>)
next
  case (failure p s now)
  then have ok: "breaker_ok (breaker s)" "permit_ok (breaker s) p" by (auto simp: breaker_inv_def)
  show ?case
  proof (rule breaker_inv_record [OF failure(2,1)])
    show "breaker_ok (record_failure now p (breaker s))" using ok(1) by simp
  qed (use ok(2) in \<open>auto simp: breaker_defs Let_def permit_ok_def split: if_splits\<close>)
next
  case (non_failure p s)
  then have ok: "breaker_ok (breaker s)" "permit_ok (breaker s) p" by (auto simp: breaker_inv_def)
  show ?case
  proof (rule breaker_inv_record [OF non_failure(2,1)])
    show "breaker_ok (record_non_failure p (breaker s))" using ok(1) by simp
  qed (use ok(2) in \<open>auto simp: breaker_defs Let_def permit_ok_def split: if_splits\<close>)
qed

lemma breaker_reachable_inv: "breaker_reachable config s \<Longrightarrow> breaker_inv s"
  by (induction rule: breaker_reachable.induct) (auto intro: breaker_inv_init breaker_step_inv)

section \<open>Behaviour of the breaker\<close>

text \<open>Consecutive failures of calls admitted while the circuit is closed, at the given times.\<close>

definition fail_all :: "circuit_permit \<Rightarrow> int list \<Rightarrow> circuit_breaker \<Rightarrow> circuit_breaker" where
  "fail_all p ts b = fold (\<lambda>now. record_failure now p) ts b"

lemma record_failure_stale: "\<not> is_current p b \<Longrightarrow> record_failure now p b = b"
  by (simp add: record_failure_def)

lemma fail_all_below:
  assumes "current_state b = Closed" "p = \<lparr>permit_mode = Closed_Permit, permit_generation = generation b\<rparr>"
    and "consecutive_failures b + int (length ts) < threshold b"
  shows "fail_all p ts b = b\<lparr>consecutive_failures := consecutive_failures b + int (length ts)\<rparr>"
  using assms
proof (induction ts arbitrary: b)
  case Nil
  then show ?case by (simp add: fail_all_def)
next
  case (Cons t us)
  let ?b = "b\<lparr>consecutive_failures := consecutive_failures b + 1\<rparr>"
  have "record_failure t p b = ?b"
    using Cons.prems by (simp add: record_failure_def is_current_def Let_def)
  moreover have "fail_all p us ?b = ?b\<lparr>consecutive_failures := consecutive_failures ?b + int (length us)\<rparr>"
    using Cons.prems by (intro Cons.IH) simp_all
  ultimately show ?case by (simp add: fail_all_def)
qed

lemma advance_within:
  "now - opened_at_ms b < open_ms b \<Longrightarrow> advance_to_half_open_when_ready now b = b"
  by (simp add: advance_to_half_open_when_ready_def)

lemma acquire_half_open_busy:
  "current_state b = Half_Open \<Longrightarrow> half_open_probe_in_flight b \<Longrightarrow> acquire now b = (None, b)"
  by (simp add: acquire_def advance_to_half_open_when_ready_def)

lemma fail_all_stale: "\<not> is_current p b \<Longrightarrow> fail_all p ts b = b"
  by (induction ts) (simp_all add: fail_all_def record_failure_stale)

lemma fail_all_append: "fail_all p (ts @ us) b = fail_all p us (fail_all p ts b)"
  by (simp add: fail_all_def)

subsection \<open>Properties\<close>

text \<open>
  C7: whatever the callers do with their permits, and in whatever order, at most one half-open
  probe is outstanding for the current generation, exactly when the breaker says so; a
  closed-mode permit that is still current means the circuit is closed, so the test
  \<open>currentState !== "closed"\<close> of \<open>recordFailure\<close> never fires; and the failure count stays
  under the threshold.
\<close>
theorem breaker_single_probe:
  assumes "breaker_reachable config s"
  shows "count (permits s) (probe_permit (breaker s)) = of_bool (half_open_probe_in_flight (breaker s)) \<and>
    (half_open_probe_in_flight (breaker s) \<longrightarrow> current_state (breaker s) = Half_Open) \<and>
    (\<forall>p. p \<in># permits s \<and> is_current p (breaker s) \<and> permit_mode p = Closed_Permit \<longrightarrow>
      current_state (breaker s) = Closed) \<and>
    consecutive_failures (breaker s) < threshold (breaker s)"
  using breaker_reachable_inv [OF assms] by (auto simp: breaker_inv_def breaker_ok_def permit_ok_def)

definition example_config :: circuit_breaker_config where
  "example_config = \<lparr>failure_threshold = js_int 3, open_duration_ms = js_int 10000\<rparr>"

definition example_breaker :: circuit_breaker where
  "example_breaker = \<lparr>threshold = 3, open_ms = 10000, current_state = Closed,
     consecutive_failures = 0, opened_at_ms = 0, half_open_probe_in_flight = False,
     generation = 0, observed = []\<rparr>"

definition closed_permit :: "nat \<Rightarrow> circuit_permit" where
  "closed_permit g = \<lparr>permit_mode = Closed_Permit, permit_generation = g\<rparr>"

lemma new_example_breaker: "new_circuit_breaker example_config = Inr example_breaker"
  by (simp add: new_circuit_breaker_def validate_circuit_breaker_config_def example_config_def
      example_breaker_def max_safe_integer_def)

lemma example_reachable:
  "breaker_reachable example_config \<lparr>breaker = example_breaker, permits = {#closed_permit 0#}\<rparr>"
proof -
  have "acquire 5 example_breaker = (Some (closed_permit 0), example_breaker)"
    by (simp add: acquire_def advance_to_half_open_when_ready_def example_breaker_def closed_permit_def)
  then have "breaker_step \<lparr>breaker = example_breaker, permits = {#}\<rparr>
      \<lparr>breaker = example_breaker, permits = {#closed_permit 0#}\<rparr>"
    using breaker_step.grant [of 5 "\<lparr>breaker = example_breaker, permits = {#}\<rparr>"] by simp
  with breaker_reachable.init [OF new_example_breaker] show ?thesis
    by (rule breaker_reachable.step)
qed

theorem breaker_single_probe_witness:
  "count {#closed_permit 0#} (probe_permit example_breaker) = 0 \<and> current_state example_breaker = Closed"
  using breaker_single_probe [OF example_reachable]
  by (simp add: example_breaker_def closed_permit_def is_current_def)

text \<open>
  C8: with the circuit closed, failures of calls admitted since the last transition open it at
  exactly the configured threshold: fewer are only counted, the failure that reaches the
  threshold opens the circuit at its own time and notifies the observer once, and the failures
  that arrive after it, now stale, change nothing.
\<close>
theorem breaker_opens_at_threshold:
  assumes "breaker_ok b" "current_state b = Closed" "is_current p b" "permit_mode p = Closed_Permit"
  shows "fail_all p ts b =
    (let k = nat (threshold b - consecutive_failures b) in
     if length ts < k then b\<lparr>consecutive_failures := consecutive_failures b + int (length ts)\<rparr>
     else open_circuit (ts ! (k - 1)) b)"
proof -
  have p: "p = \<lparr>permit_mode = Closed_Permit, permit_generation = generation b\<rparr>"
    using assms by (simp add: is_current_def)
  define k where "k = nat (threshold b - consecutive_failures b)"
  have k: "1 \<le> k" "consecutive_failures b + int k = threshold b"
    using assms(1) by (auto simp: k_def breaker_ok_def)
  show ?thesis
  proof (cases "length ts < k")
    case True
    then have "consecutive_failures b + int (length ts) < threshold b" using k by simp
    from fail_all_below [OF assms(2) p this] True show ?thesis by (simp add: k_def Let_def)
  next
    case False
    then have len: "k - 1 < length ts" using k by simp
    let ?us = "take (k - 1) ts" and ?t = "ts ! (k - 1)" and ?vs = "drop k ts"
    have split: "ts = (?us @ [?t]) @ ?vs"
      using k(1) id_take_nth_drop [OF len] by simp
    let ?b = "b\<lparr>consecutive_failures := consecutive_failures b + int (k - 1)\<rparr>"
    have "fail_all p ?us b = ?b"
      using fail_all_below [OF assms(2) p, of ?us] k len by simp
    moreover have "record_failure ?t p ?b = open_circuit ?t b"
      using assms k by (simp add: record_failure_def is_current_def Let_def open_circuit_def)
    ultimately have "fail_all p (?us @ [?t]) b = open_circuit ?t b"
      by (simp add: fail_all_append) (simp add: fail_all_def)
    moreover have "\<not> is_current p (open_circuit ?t b)"
      using assms(3) by (simp add: is_current_def open_circuit_def)
    ultimately have "fail_all p ((?us @ [?t]) @ ?vs) b = open_circuit ?t b"
      by (simp only: fail_all_append [of p "?us @ [?t]"] fail_all_stale simp_thms)
    with split False show ?thesis by (simp add: k_def Let_def)
  qed
qed

theorem breaker_opens_at_threshold_witness:
  "fail_all (closed_permit 0) [100, 200, 300, 400] example_breaker = open_circuit 300 example_breaker"
proof -
  have "breaker_ok example_breaker" "current_state example_breaker = Closed"
    "is_current (closed_permit 0) example_breaker" "permit_mode (closed_permit 0) = Closed_Permit"
    by (simp_all add: breaker_ok_def example_breaker_def is_current_def closed_permit_def)
  from breaker_opens_at_threshold [OF this, of "[100, 200, 300, 400]"] show ?thesis
    by (simp add: example_breaker_def Let_def)
qed

text \<open>
  An open circuit refuses every call until the configured interval has passed since it
  opened, and stays exactly as it is; from then on the first call gets the half-open probe, and
  every later call is refused at any time while that probe is unanswered.
\<close>
theorem breaker_open_window:
  assumes "current_state b = Open"
  shows "acquire now b =
    (if now - opened_at_ms b < open_ms b then (None, b)
     else (Some (probe_permit b), b\<lparr>current_state := Half_Open, half_open_probe_in_flight := True\<rparr>)) \<and>
    (open_ms b \<le> now - opened_at_ms b \<longrightarrow>
      acquire later (snd (acquire now b)) = (None, snd (acquire now b)))"
  using assms by (auto simp: acquire_def advance_to_half_open_when_ready_def Let_def probe_permit_def)

theorem breaker_open_window_witness:
  "acquire 10299 (open_circuit 300 example_breaker) = (None, open_circuit 300 example_breaker) \<and>
   fst (acquire 10300 (open_circuit 300 example_breaker)) = Some (probe_permit (open_circuit 300 example_breaker))"
proof -
  have "current_state (open_circuit 300 example_breaker) = Open" by (simp add: open_circuit_def)
  from breaker_open_window [OF this, of 10299] breaker_open_window [OF this, of 10300] show ?thesis
    by (simp add: open_circuit_def example_breaker_def)
qed



end
