(* ===== verification/Failure_Policy.thy ===== *)
theory Failure_Policy
  imports Domain
begin

text \<open>
  \<^verbatim>\<open>src/src/infrastructure/providers/provider-failure-policy.ts\<close>: how a provider error is
  classified for retry, for the circuit breaker, and for the fate of the idempotency claim.
\<close>

datatype failure_outcome = Ambiguous | Definitive_Rejection | Not_Started

record failure_decision =
  retryable :: bool
  counts_toward_circuit_breaker :: bool
  outcome :: failure_outcome

definition retryable_server_statuses :: "int list" where
  "retryable_server_statuses = [500, 502, 503, 504]"

text \<open>The chain of \<open>instanceof\<close> tests, in order; every test is on one constructor.\<close>

fun classify_provider_failure :: "error \<Rightarrow> failure_decision" where
  "classify_provider_failure Provider_Circuit_Open_Error =
     \<lparr>retryable = False, counts_toward_circuit_breaker = False, outcome = Not_Started\<rparr>"
| "classify_provider_failure (Provider_Rejected_Error _) =
     \<lparr>retryable = False, counts_toward_circuit_breaker = False, outcome = Definitive_Rejection\<rparr>"
| "classify_provider_failure Provider_Rate_Limited_Error =
     \<lparr>retryable = True, counts_toward_circuit_breaker = False, outcome = Ambiguous\<rparr>"
| "classify_provider_failure (Provider_Server_Error status) =
     \<lparr>retryable = status \<in> set retryable_server_statuses,
      counts_toward_circuit_breaker = True, outcome = Ambiguous\<rparr>"
| "classify_provider_failure Provider_Timeout_Error =
     \<lparr>retryable = True, counts_toward_circuit_breaker = True, outcome = Ambiguous\<rparr>"
| "classify_provider_failure Provider_Network_Error =
     \<lparr>retryable = True, counts_toward_circuit_breaker = True, outcome = Ambiguous\<rparr>"
| "classify_provider_failure Provider_Unavailable_Error =
     \<lparr>retryable = True, counts_toward_circuit_breaker = True, outcome = Ambiguous\<rparr>"
| "classify_provider_failure Provider_Invalid_Response_Error =
     \<lparr>retryable = False, counts_toward_circuit_breaker = True, outcome = Ambiguous\<rparr>"
| "classify_provider_failure _ =
     \<lparr>retryable = False, counts_toward_circuit_breaker = False, outcome = Ambiguous\<rparr>"

lemma retryable_ambiguous:
  "retryable (classify_provider_failure e) \<Longrightarrow> outcome (classify_provider_failure e) = Ambiguous"
  by (cases e) auto

lemma counts_ambiguous:
  "counts_toward_circuit_breaker (classify_provider_failure e) \<Longrightarrow>
    outcome (classify_provider_failure e) = Ambiguous"
  by (cases e) auto

lemma outcome_iff:
  "outcome (classify_provider_failure e) \<noteq> Ambiguous \<longleftrightarrow>
    e = Provider_Circuit_Open_Error \<or> (\<exists>s. e = Provider_Rejected_Error s)"
  by (cases e) auto

end
