(* ===== verification/Js_String.thy ===== *)
theory Js_String
  imports Domain
begin

text \<open>
  The string operations the code uses, on lists of code units below 256: decimal printing,
  \<open>trim\<close>, \<open>toUpperCase\<close>, \<open>toLowerCase\<close>, \<open>split\<close>, \<open>join\<close>, \<open>padStart\<close>, and the
  composition of results of functions that may throw.
\<close>

section \<open>Functions that may throw\<close>

definition r_bind :: "'a result \<Rightarrow> ('a \<Rightarrow> 'b result) \<Rightarrow> 'b result" where
  "r_bind r f = (case r of Inl e \<Rightarrow> Inl e | Inr x \<Rightarrow> f x)"

definition r_then :: "unit result \<Rightarrow> 'b result \<Rightarrow> 'b result" where
  "r_then r s = (case r of Inl e \<Rightarrow> Inl e | Inr _ \<Rightarrow> s)"

lemma r_bind_simps [simp]:
  "r_bind (Inl e) f = Inl e" "r_bind (Inr x) f = f x"
  "r_then (Inl e) s = Inl e" "r_then (Inr u) s = s"
  by (simp_all add: r_bind_def r_then_def)

lemma r_bind_Inr_iff: "r_bind r f = Inr y \<longleftrightarrow> (\<exists>x. r = Inr x \<and> f x = Inr y)"
  by (cases r) auto

lemma r_then_Inr_iff: "r_then r s = Inr y \<longleftrightarrow> r = Inr () \<and> s = Inr y"
  by (cases r) auto

lemma r_then_r_bind [simp]: "r_bind (r_then r s) f = r_then r (r_bind s f)"
  by (cases r) auto

section \<open>Decimal numerals\<close>

definition digit_char :: "nat \<Rightarrow> char" where
  "digit_char d = char_of (48 + d)"

fun nat_digits :: "nat \<Rightarrow> string" where
  "nat_digits n = (if n < 10 then [digit_char n] else nat_digits (n div 10) @ [digit_char (n mod 10)])"

declare nat_digits.simps [simp del]

text \<open>\<open>String(n)\<close> of an integer whose magnitude is below \<open>1e21\<close>.\<close>

definition js_decimal :: "int \<Rightarrow> string" where
  "js_decimal i = (if i < 0 then ''-'' @ nat_digits (nat (- i)) else nat_digits (nat i))"

definition is_digit :: "char \<Rightarrow> bool" where
  "is_digit c \<longleftrightarrow> 48 \<le> (of_char c :: nat) \<and> (of_char c :: nat) \<le> 57"

definition digits_value :: "string \<Rightarrow> nat" where
  "digits_value s = foldl (\<lambda>a c. 10 * a + (of_char c - 48)) 0 s"

lemma of_char_digit_char: "d < 10 \<Longrightarrow> (of_char (digit_char d) :: nat) = 48 + d"
  by (simp add: digit_char_def of_char_of)

lemma is_digit_digit_char: "d < 10 \<Longrightarrow> is_digit (digit_char d)"
  by (simp add: is_digit_def of_char_digit_char)

lemma nat_digits_all: "\<forall>c \<in> set (nat_digits n). is_digit c"
proof (induction n rule: nat_digits.induct)
  case (1 n)
  then show ?case by (subst nat_digits.simps) (auto simp: is_digit_digit_char)
qed

lemma nat_digits_nonempty: "nat_digits n \<noteq> []"
  by (subst nat_digits.simps) simp

lemma digits_value_snoc: "digits_value (s @ [c]) = 10 * digits_value s + (of_char c - 48)"
  by (simp add: digits_value_def)

lemma digits_value_nat_digits [simp]: "digits_value (nat_digits n) = n"
proof (induction n rule: nat_digits.induct)
  case (1 n)
  show ?case
  proof (cases "n < 10")
    case True
    then show ?thesis by (simp add: nat_digits.simps [of n] digits_value_def of_char_digit_char)
  next
    case False
    with 1 have "digits_value (nat_digits (n div 10)) = n div 10" by simp
    with False show ?thesis
      by (simp add: nat_digits.simps [of n] digits_value_snoc of_char_digit_char)
  qed
qed

lemma length_nat_digits_le: "n < 10 ^ Suc k \<Longrightarrow> length (nat_digits n) \<le> Suc k"
proof (induction k arbitrary: n)
  case (Suc k)
  have "n div 10 < 10 ^ Suc k" using Suc.prems by (simp add: less_mult_imp_div_less mult.commute)
  with Suc.IH [of "n div 10"] show ?case by (subst nat_digits.simps) simp
qed (simp add: nat_digits.simps)

lemma nat_digits_inject: "nat_digits m = nat_digits n \<longleftrightarrow> m = n"
  by (metis digits_value_nat_digits)

section \<open>Case and white space\<close>

definition code :: "char \<Rightarrow> nat" where
  "code c = of_char c"

text \<open>White space and line terminators of ECMAScript among the code units below 256.\<close>

definition is_js_space :: "char \<Rightarrow> bool" where
  "is_js_space c \<longleftrightarrow> (9 \<le> code c \<and> code c \<le> 13) \<or> code c = 32 \<or> code c = 160"

definition trim_start :: "string \<Rightarrow> string" where
  "trim_start s = dropWhile is_js_space s"

definition js_trim :: "string \<Rightarrow> string" where
  "js_trim s = rev (trim_start (rev (trim_start s)))"

text \<open>
  \<open>toUpperCase\<close> on one code unit below 256: ASCII and Latin-1 letters, and the sharp s, which
  becomes two letters.  (The units 181 and 255 have their upper case above 255 and stay.)
\<close>

definition upper_char :: "char \<Rightarrow> string" where
  "upper_char c =
     (if 97 \<le> code c \<and> code c \<le> 122 then [char_of (code c - 32)]
      else if 224 \<le> code c \<and> code c \<le> 254 \<and> code c \<noteq> 247 then [char_of (code c - 32)]
      else if code c = 223 then ''SS''
      else [c])"

definition to_upper :: "string \<Rightarrow> string" where
  "to_upper s = concat (map upper_char s)"

definition lower_char :: "char \<Rightarrow> char" where
  "lower_char c =
     (if 65 \<le> code c \<and> code c \<le> 90 then char_of (code c + 32)
      else if 192 \<le> code c \<and> code c \<le> 222 \<and> code c \<noteq> 215 then char_of (code c + 32)
      else c)"

definition to_lower :: "string \<Rightarrow> string" where
  "to_lower s = map lower_char s"

lemma code_char_of [simp]: "n < 256 \<Longrightarrow> code (char_of n) = n"
  by (simp add: code_def of_char_of)

lemma code_less [simp]: "code c < 256"
  by (simp add: code_def)

lemma code_inject [simp]: "code c = code d \<longleftrightarrow> c = d"
  by (simp add: code_def)

lemma js_trim_ends:
  "js_trim s = [] \<or> \<not> is_js_space (hd (js_trim s)) \<and> \<not> is_js_space (last (js_trim s))"
proof (cases "js_trim s = []")
  case False
  let ?t = "trim_start s"
  have l: "\<not> is_js_space (last (js_trim s))"
    using False hd_dropWhile [of is_js_space "rev ?t"] by (simp add: js_trim_def trim_start_def last_rev)
  have "?t = js_trim s @ rev (takeWhile is_js_space (rev ?t))"
    by (metis js_trim_def rev_append rev_rev_ident takeWhile_dropWhile_id trim_start_def)
  then have "hd ?t = hd (js_trim s)" "?t \<noteq> []" using False by (metis hd_append2, auto)
  then have "\<not> is_js_space (hd (js_trim s))" unfolding trim_start_def by (metis hd_dropWhile)
  with l show ?thesis by simp
qed simp

lemma js_trim_id:
  assumes "s = [] \<or> \<not> is_js_space (hd s) \<and> \<not> is_js_space (last s)"
  shows "js_trim s = s"
proof (cases "s = []")
  case False
  then have "trim_start s = s" using assms by (cases s) (auto simp: trim_start_def)
  moreover have "trim_start (rev s) = rev s"
    using False assms by (cases s rule: rev_cases) (auto simp: trim_start_def)
  ultimately show ?thesis by (simp add: js_trim_def)
qed (simp add: js_trim_def trim_start_def)

lemma js_trim_idem [simp]: "js_trim (js_trim s) = js_trim s"
  using js_trim_ends by (rule js_trim_id)

lemma upper_char_idem: "concat (map upper_char (upper_char c)) = upper_char c"
proof -
  have id: "upper_char d = [d]" if "code d < 97 \<or> (127 \<le> code d \<and> code d \<le> 222)" for d
    using that by (auto simp: upper_char_def)
  have S: "upper_char CHR ''S'' = ''S''" by (rule id) (simp add: code_def)
  consider "97 \<le> code c \<and> code c \<le> 122" | "224 \<le> code c \<and> code c \<le> 254 \<and> code c \<noteq> 247"
    | "code c = 223" | "upper_char c = [c]"
    unfolding upper_char_def by presburger
  then show ?thesis
  proof cases
    case 1
    then have "upper_char c = [char_of (code c - 32)]" by (simp add: upper_char_def)
    moreover have "code (char_of (code c - 32)) = code c - 32" using 1 by (intro code_char_of) linarith
    ultimately show ?thesis using 1 id [of "char_of (code c - 32)"] by (simp, linarith)
  next
    case 2
    then have "upper_char c = [char_of (code c - 32)]" by (simp add: upper_char_def)
    moreover have "code (char_of (code c - 32)) = code c - 32" using 2 by (intro code_char_of) linarith
    ultimately show ?thesis using 2 id [of "char_of (code c - 32)"] by (simp, linarith)
  next
    case 3
    then have "upper_char c = ''SS''" by (simp add: upper_char_def)
    then show ?thesis by (simp add: S)
  next
    case 4
    then show ?thesis by simp
  qed
qed

lemma to_upper_idem [simp]: "to_upper (to_upper s) = to_upper s"
  by (induction s) (simp_all add: to_upper_def upper_char_idem)

lemma upper_char_space:
  assumes "\<not> is_js_space c" "d \<in> set (upper_char c)"
  shows "\<not> is_js_space d"
proof -
  have S: "code CHR ''S'' = 83" by (simp add: code_def)
  consider "d = c" | "97 \<le> code c" "code c \<le> 122" "d = char_of (code c - 32)"
    | "224 \<le> code c" "code c \<le> 254" "d = char_of (code c - 32)" | "d = CHR ''S''"
    using assms(2) by (auto simp: upper_char_def split: if_splits)
  then show ?thesis
  proof cases
    case 2
    moreover from this have "code d = code c - 32" by (simp only:) (intro code_char_of, linarith)
    ultimately show ?thesis unfolding is_js_space_def by linarith
  next
    case 3
    moreover from this have "code d = code c - 32" by (simp only:) (intro code_char_of, linarith)
    ultimately show ?thesis unfolding is_js_space_def by linarith
  qed (use assms(1) S in \<open>auto simp: is_js_space_def\<close>)
qed

lemma upper_char_nonempty: "upper_char c \<noteq> []"
  by (simp add: upper_char_def)

lemma js_trim_upper_trim [simp]: "js_trim (to_upper (js_trim s)) = to_upper (js_trim s)"
proof (rule js_trim_id, cases "js_trim s = []")
  case False
  let ?t = "js_trim s"
  have ends: "\<not> is_js_space (hd ?t)" "\<not> is_js_space (last ?t)" using js_trim_ends [of s] False by auto
  have "hd (to_upper ?t) \<in> set (upper_char (hd ?t))"
    using False upper_char_nonempty by (cases ?t) (auto simp: to_upper_def)
  moreover have "last (to_upper ?t) \<in> set (upper_char (last ?t))"
    using False upper_char_nonempty by (cases ?t rule: rev_cases) (auto simp: to_upper_def)
  ultimately show "to_upper ?t = [] \<or> \<not> is_js_space (hd (to_upper ?t)) \<and> \<not> is_js_space (last (to_upper ?t))"
    using ends upper_char_space by blast
qed (simp add: to_upper_def)

section \<open>Lists of strings\<close>

fun js_join :: "string \<Rightarrow> string list \<Rightarrow> string" where
  "js_join sep [] = []"
| "js_join sep [s] = s"
| "js_join sep (s # t # ss) = s @ sep @ js_join sep (t # ss)"

text \<open>\<open>split\<close> by a separator of one code unit.\<close>

fun js_split :: "char \<Rightarrow> string \<Rightarrow> string list" where
  "js_split sep [] = [[]]"
| "js_split sep (c # s) =
     (if c = sep then [] # js_split sep s
      else (case js_split sep s of [] \<Rightarrow> [[c]] | w # ws \<Rightarrow> (c # w) # ws))"

definition pad_start :: "nat \<Rightarrow> char \<Rightarrow> string \<Rightarrow> string" where
  "pad_start n c s = replicate (n - length s) c @ s"

lemma js_split_nonempty [simp]: "js_split sep s \<noteq> []"
  by (cases s) (auto split: list.splits)

lemma js_split_join: "js_join [sep] (js_split sep s) = s"
proof (induction s)
  case Nil
  then show ?case by simp
next
  case (Cons c s)
  obtain w ws where w: "js_split sep s = w # ws" by (cases "js_split sep s") auto
  with Cons show ?case by (cases ws) auto
qed

text \<open>A prefix without the separator is determined by the whole.\<close>

lemma before_separator_inject:
  assumes "x \<notin> set a" "x \<notin> set b" "a @ x # s = b @ x # t"
  shows "a = b \<and> s = t"
proof -
  have p: "takeWhile ((\<noteq>) x) (a @ x # s) = a" "takeWhile ((\<noteq>) x) (b @ x # t) = b"
    using assms(1,2) by (auto simp: takeWhile_tail takeWhile_append)
  with assms(3) have "a = b" by simp
  with assms(3) show ?thesis by simp
qed

lemma js_decimal_chars: "c \<in> set (js_decimal i) \<Longrightarrow> is_digit c \<or> c = CHR ''-''"
  using nat_digits_all by (auto simp: js_decimal_def split: if_splits)

lemma js_decimal_inject [simp]: "js_decimal i = js_decimal j \<longleftrightarrow> i = j"
proof -
  have "\<not> is_digit CHR ''-''" by (simp add: is_digit_def)
  then have "nat_digits n \<noteq> CHR ''-'' # s" for n s using nat_digits_all [of n] by (metis list.set_intros(1))
  then show ?thesis
    by (auto simp: js_decimal_def nat_digits_inject eq_commute [of "_ # _" "nat_digits _"])
qed

end
