(* ===== verification/Retry_Policy.thy ===== *)
theory Retry_Policy
  imports Failure_Policy Js_Number Js_String
begin

text \<open>
  \<^verbatim>\<open>src/src/infrastructure/providers/retry-policy.ts\<close>: the configuration check, the delay of
  a retry with its binary64 arithmetic, the worst-case window, and the timing check that ties the
  window to the lease of an idempotency claim.
\<close>

section \<open>Configuration\<close>

record retry_policy_config =
  max_attempts :: js_number
  attempt_timeout_ms :: js_number
  base_delay_ms :: js_number
  max_delay_ms :: js_number
  jitter_ratio :: js_number

definition require_safe_integer :: "string \<Rightarrow> js_number \<Rightarrow> int \<Rightarrow> unit result" where
  "require_safe_integer name x minimum =
     (if \<not> is_safe_integer x \<or> js_less x (js_int minimum)
      then Inl (Plain_Error (name @ '' must be a safe integer greater than or equal to '' @ js_decimal minimum))
      else Inr ())"

definition validate_retry_policy_config :: "retry_policy_config \<Rightarrow> unit result" where
  "validate_retry_policy_config config =
     r_then (require_safe_integer ''maxAttempts'' (max_attempts config) 1)
     (if js_less (js_int 10) (max_attempts config)
      then Inl (Plain_Error ''maxAttempts must be less than or equal to 10'')
      else
     r_then (require_safe_integer ''attemptTimeoutMs'' (attempt_timeout_ms config) 1)
     (r_then (require_safe_integer ''baseDelayMs'' (base_delay_ms config) 0)
     (r_then (require_safe_integer ''maxDelayMs'' (max_delay_ms config) 0)
     (if js_less (max_delay_ms config) (base_delay_ms config)
      then Inl (Plain_Error ''maxDelayMs must be greater than or equal to baseDelayMs'')
      else if \<not> is_finite (jitter_ratio config) \<or> js_less (jitter_ratio config) (js_int 0) \<or>
              js_less (js_int 1) (jitter_ratio config)
      then Inl (Plain_Error ''jitterRatio must be between 0 and 1'')
      else Inr ()))))"

definition require_random_value :: "js_number \<Rightarrow> unit result" where
  "require_random_value x =
     (if \<not> is_finite x \<or> js_less x (js_int 0) \<or> js_less (js_int 1) x
      then Inl (Plain_Error ''RandomSource.next() must return a number between 0 and 1'')
      else Inr ())"

section \<open>The policy\<close>

definition should_retry :: "retry_policy_config \<Rightarrow> error \<Rightarrow> nat \<Rightarrow> bool" where
  "should_retry config e failed_attempt \<longleftrightarrow>
     js_less (js_int (int failed_attempt)) (max_attempts config) \<and>
     retryable (classify_provider_failure e)"

definition delay_after :: "retry_policy_config \<Rightarrow> js_number \<Rightarrow> js_number \<Rightarrow> js_number result" where
  "delay_after config failed_attempt random_value =
     r_then (require_safe_integer ''failedAttempt'' failed_attempt 1)
     (r_then (require_random_value random_value)
     (let exponential = js_mul (base_delay_ms config) (js_pow2 (nat (integer_of failed_attempt - 1)));
          jittered = js_mul exponential (js_add (js_int 1) (js_mul (jitter_ratio config) random_value))
      in Inr (math_min (max_delay_ms config) (math_round jittered))))"

definition maximum_retry_delay_after :: "retry_policy_config \<Rightarrow> js_number \<Rightarrow> js_number result" where
  "maximum_retry_delay_after config failed_attempt = delay_after config failed_attempt (js_int 1)"

text \<open>The loop of \<open>calculateMaximumRetryWindowMs\<close>, over the attempts still to add.\<close>

fun add_delays :: "retry_policy_config \<Rightarrow> int list \<Rightarrow> js_number \<Rightarrow> js_number result" where
  "add_delays config [] acc = Inr acc"
| "add_delays config (attempt # rest) acc =
     r_bind (maximum_retry_delay_after config (js_int attempt))
       (\<lambda>delay. add_delays config rest (js_add acc delay))"

definition calculate_maximum_retry_window_ms :: "retry_policy_config \<Rightarrow> js_number result" where
  "calculate_maximum_retry_window_ms config =
     r_then (validate_retry_policy_config config)
     (r_bind (add_delays config [1..integer_of (max_attempts config) - 1]
                (js_mul (max_attempts config) (attempt_timeout_ms config)))
       (\<lambda>acc. if is_safe_integer acc then Inr acc
                else Inl (Plain_Error ''Maximum retry window exceeds the safe integer range'')))"

record provider_timing_config =
  retry :: retry_policy_config
  execution_overhead_ms :: js_number
  processing_stale_timeout_ms :: js_number
  minimum_stale_margin_ms :: js_number

record provider_timing =
  maximum_retry_window_ms :: js_number
  maximum_provider_execution_window_ms :: js_number
  stale_margin_ms :: js_number

definition validate_provider_timing :: "provider_timing_config \<Rightarrow> provider_timing result" where
  "validate_provider_timing config =
     r_then (require_safe_integer ''executionOverheadMs'' (execution_overhead_ms config) 0)
     (r_then (require_safe_integer ''processingStaleTimeoutMs'' (processing_stale_timeout_ms config) 1)
     (r_then (require_safe_integer ''minimumStaleMarginMs'' (minimum_stale_margin_ms config) 1)
     (r_bind (calculate_maximum_retry_window_ms (retry config))
       (\<lambda>window.
         let execution = js_add window (execution_overhead_ms config);
             margin = js_sub (processing_stale_timeout_ms config) execution
         in if js_less margin (minimum_stale_margin_ms config)
            then Inl (Plain_Error ''Idempotency processing stale timeout must exceed the maximum provider execution window by the configured safety margin'')
            else Inr \<lparr>maximum_retry_window_ms = window,
                      maximum_provider_execution_window_ms = execution,
                      stale_margin_ms = margin\<rparr>))))"

section \<open>A valid configuration\<close>

lemma require_safe_integer_Inr:
  "require_safe_integer name x m = Inr () \<longleftrightarrow>
    x = js_int (integer_of x) \<and> m \<le> integer_of x \<and> \<bar>integer_of x\<bar> \<le> max_safe_integer"
  by (auto simp: require_safe_integer_def elim!: is_safe_integerE)
    (metis is_safe_integer_js_int js_less_js_int not_le)+

lemma finite_unit_interval:
  "is_finite x \<and> \<not> js_less x (js_int 0) \<and> \<not> js_less (js_int 1) x \<longleftrightarrow> (\<exists>q. x = Num q \<and> 0 \<le> q \<and> q \<le> 1)"
  by (cases x) (auto simp: js_int_def)

definition retry_config_ok :: "retry_policy_config \<Rightarrow> int \<Rightarrow> int \<Rightarrow> int \<Rightarrow> int \<Rightarrow> rat \<Rightarrow> bool" where
  "retry_config_ok config n t b m j \<longleftrightarrow>
     max_attempts config = js_int n \<and> attempt_timeout_ms config = js_int t \<and>
     base_delay_ms config = js_int b \<and> max_delay_ms config = js_int m \<and> jitter_ratio config = Num j \<and>
     1 \<le> n \<and> n \<le> 10 \<and> 1 \<le> t \<and> t \<le> max_safe_integer \<and> 0 \<le> b \<and> b \<le> m \<and> m \<le> max_safe_integer \<and>
     0 \<le> j \<and> j \<le> 1"

lemma validate_retry_policy_config_Inr:
  assumes "validate_retry_policy_config config = Inr ()"
  obtains n t b m j where "retry_config_ok config n t b m j"
proof -
  have n: "require_safe_integer ''maxAttempts'' (max_attempts config) 1 = Inr ()"
    "\<not> js_less (js_int 10) (max_attempts config)"
    and t: "require_safe_integer ''attemptTimeoutMs'' (attempt_timeout_ms config) 1 = Inr ()"
    and b: "require_safe_integer ''baseDelayMs'' (base_delay_ms config) 0 = Inr ()"
    and m: "require_safe_integer ''maxDelayMs'' (max_delay_ms config) 0 = Inr ()"
    "\<not> js_less (max_delay_ms config) (base_delay_ms config)"
    and j: "\<exists>q. jitter_ratio config = Num q \<and> 0 \<le> q \<and> q \<le> 1"
    using assms unfolding finite_unit_interval [symmetric]
    by (auto simp: validate_retry_policy_config_def r_then_Inr_iff split: if_splits)
  from j obtain q where "jitter_ratio config = Num q" "0 \<le> q" "q \<le> 1" by blast
  with n t b m that [of "integer_of (max_attempts config)" "integer_of (attempt_timeout_ms config)"
      "integer_of (base_delay_ms config)" "integer_of (max_delay_ms config)" q]
  show thesis
    unfolding require_safe_integer_Inr retry_config_ok_def by (metis js_less_js_int not_le abs_le_iff)
qed

section \<open>The delay\<close>

text \<open>The jittered back-off before it is rounded to an integer, with its two binary64 roundings.\<close>

definition jitter_factor :: "rat \<Rightarrow> rat \<Rightarrow> rat" where
  "jitter_factor j r = round_double (1 + round_double (j * r))"

definition jittered_delay :: "int \<Rightarrow> rat \<Rightarrow> nat \<Rightarrow> rat \<Rightarrow> rat" where
  "jittered_delay b j k r = round_double (of_int b * 2 ^ k * jitter_factor j r)"

definition delay_int :: "int \<Rightarrow> int \<Rightarrow> rat \<Rightarrow> nat \<Rightarrow> rat \<Rightarrow> int" where
  "delay_int b m j k r = min m \<lfloor>jittered_delay b j k r + 1 / 2\<rfloor>"

lemma round_double_pow2: "round_double (2 ^ k) = 2 ^ k" if "k < 1000" for k
  using round_double_exact [of 1 "int k"] that by (simp add: power_int_def)

lemma to_double_bounded:
  assumes "0 \<le> x" "x \<le> 2 ^ 64"
  shows "to_double x = Num (round_double x)" "0 \<le> round_double x" "round_double x \<le> 2 ^ 64"
proof -
  show nn: "0 \<le> round_double x" using assms(1) by (rule round_double_nonneg)
  have "round_double x \<le> round_double (2 ^ 64)" using assms by (rule round_double_mono)
  then show le: "round_double x \<le> 2 ^ 64" by (simp only: round_double_pow2)
  have "(2 ^ 64 :: rat) < 2 ^ 1024" by simp
  with nn le have "\<not> 2 ^ 1024 \<le> round_double x" "\<not> round_double x \<le> - (2 ^ 1024)" by linarith+
  then show "to_double x = Num (round_double x)" by (simp add: to_double_def Let_def)
qed

lemma jitter_factor_bounds:
  assumes "0 \<le> j" "j \<le> 1" "0 \<le> r" "r \<le> 1"
  shows "1 \<le> jitter_factor j r" "jitter_factor j r \<le> 2"
    "js_add (js_int 1) (js_mul (Num j) (Num r)) = Num (jitter_factor j r)"
proof -
  have one: "round_double 1 = 1" and two: "round_double 2 = 2"
    using round_double_pow2 [of 0] round_double_pow2 [of 1] by simp_all
  have jr: "0 \<le> j * r" "j * r \<le> 1" using assms by (auto intro: mult_le_one)
  have p: "0 \<le> round_double (j * r)" "round_double (j * r) \<le> 1"
    using round_double_nonneg [OF jr(1)] round_double_mono [OF jr] by (simp_all add: one)
  show "1 \<le> jitter_factor j r"
    using round_double_mono [of 1 "1 + round_double (j * r)"] p by (simp add: jitter_factor_def one)
  show "jitter_factor j r \<le> 2"
    using round_double_mono [of "1 + round_double (j * r)" 2] p by (simp add: jitter_factor_def two)
  have "to_double (j * r) = Num (round_double (j * r))" using jr by (intro to_double_bounded(1)) auto
  moreover have "to_double (1 + round_double (j * r)) = Num (jitter_factor j r)"
    using p unfolding jitter_factor_def by (intro to_double_bounded(1)) auto
  ultimately show "js_add (js_int 1) (js_mul (Num j) (Num r)) = Num (jitter_factor j r)"
    by (simp add: js_int_def)
qed

lemma exponential_bounds:
  assumes "0 \<le> b" "b \<le> max_safe_integer" "k \<le> 9"
  shows "0 \<le> of_int b * (2::rat) ^ k" "of_int b * (2::rat) ^ k \<le> 2 ^ 62"
    "round_double (of_int b * 2 ^ k) = of_int b * 2 ^ k"
proof -
  have b: "(of_int b :: rat) \<le> 2 ^ 53"
    using assms(2) of_int_le_iff [of b "2 ^ 53", where 'a = rat] by (simp add: max_safe_integer_def)
  show "0 \<le> of_int b * (2::rat) ^ k" using assms(1) by simp
  have "of_int b * (2::rat) ^ k \<le> 2 ^ 53 * 2 ^ 9"
    using b assms by (intro mult_mono power_increasing) auto
  then show "of_int b * (2::rat) ^ k \<le> 2 ^ 62" by simp
  show "round_double (of_int b * 2 ^ k) = of_int b * 2 ^ k"
    using round_double_exact [of b "int k"] assms by (simp add: power_int_def max_safe_integer_def)
qed

lemma jittered_delay_bounds:
  assumes b: "0 \<le> b" "b \<le> max_safe_integer" "k \<le> 9" and j: "0 \<le> j" "j \<le> 1" "0 \<le> r" "r \<le> 1"
  shows "of_int b * 2 ^ k \<le> jittered_delay b j k r"
    "js_mul (Num (of_int b * 2 ^ k)) (Num (jitter_factor j r)) = Num (jittered_delay b j k r)"
proof -
  note e = exponential_bounds [OF b] and f = jitter_factor_bounds [OF j]
  have lo: "of_int b * 2 ^ k \<le> of_int b * 2 ^ k * jitter_factor j r"
    using e(1) f(1) by (simp add: mult_le_cancel_left1)
  from round_double_mono [OF e(1) lo] show "of_int b * 2 ^ k \<le> jittered_delay b j k r"
    by (simp add: jittered_delay_def e(3))
  have "of_int b * 2 ^ k * jitter_factor j r \<le> 2 ^ 62 * 2"
    using e f by (intro mult_mono) auto
  then have "of_int b * 2 ^ k * jitter_factor j r \<le> 2 ^ 64" by simp
  moreover have "0 \<le> of_int b * 2 ^ k * jitter_factor j r" using e(1) lo by linarith
  ultimately show "js_mul (Num (of_int b * 2 ^ k)) (Num (jitter_factor j r)) = Num (jittered_delay b j k r)"
    by (simp add: jittered_delay_def to_double_bounded(1))
qed

lemma require_random_value_unit: "0 \<le> r \<Longrightarrow> r \<le> 1 \<Longrightarrow> require_random_value (Num r) = Inr ()"
  by (simp add: require_random_value_def js_int_def)

lemma delay_after_eq:
  assumes ok: "retry_config_ok config n t b m j" and a: "1 \<le> a" "a \<le> 10" and r: "0 \<le> r" "r \<le> 1"
  shows "delay_after config (js_int a) (Num r) = Inr (js_int (delay_int b m j (nat (a - 1)) r))"
proof -
  let ?k = "nat (a - 1)"
  have b: "0 \<le> b" "b \<le> max_safe_integer" and j: "0 \<le> j" "j \<le> 1"
    and fields: "base_delay_ms config = js_int b" "max_delay_ms config = js_int m" "jitter_ratio config = Num j"
    using ok by (auto simp: retry_config_ok_def)
  have k: "?k \<le> 9" using a by simp
  have "js_mul (js_int b) (js_pow2 ?k) = to_double (of_int b * 2 ^ ?k)"
    using k by (simp add: js_int_def js_pow2_def)
  also have "\<dots> = Num (of_int b * 2 ^ ?k)"
    using exponential_bounds [OF b k] to_double_bounded(1) [of "of_int b * 2 ^ ?k"] by simp
  finally have e: "js_mul (js_int b) (js_pow2 ?k) = Num (of_int b * 2 ^ ?k)" .
  have "require_safe_integer ''failedAttempt'' (js_int a) 1 = Inr ()"
    using a by (simp add: require_safe_integer_Inr max_safe_integer_def)
  then show ?thesis
    using r by (simp add: delay_after_def fields require_random_value_unit e Let_def delay_int_def
        jitter_factor_bounds(3) [OF j r, unfolded js_mul.simps]
        jittered_delay_bounds(2) [OF b k j r, unfolded js_mul.simps])
qed

lemma delay_int_mono:
  assumes "0 \<le> b" "0 \<le> j" "0 \<le> r" "r \<le> s"
  shows "delay_int b m j k r \<le> delay_int b m j k s"
proof -
  have jr: "0 \<le> j * r" "j * r \<le> j * s" using assms by (auto intro: mult_left_mono)
  have "round_double (j * r) \<le> round_double (j * s)" by (rule round_double_mono [OF jr])
  moreover have "0 \<le> round_double (j * r)" using jr(1) by (rule round_double_nonneg)
  ultimately have f: "0 \<le> jitter_factor j r" "jitter_factor j r \<le> jitter_factor j s"
    unfolding jitter_factor_def by (auto intro!: round_double_mono round_double_nonneg)
  then have "jittered_delay b j k r \<le> jittered_delay b j k s"
    unfolding jittered_delay_def using assms(1) by (intro round_double_mono mult_left_mono) auto
  then have "\<lfloor>jittered_delay b j k r + 1 / 2\<rfloor> \<le> \<lfloor>jittered_delay b j k s + 1 / 2\<rfloor>"
    by (intro floor_mono) simp
  then show ?thesis by (simp add: delay_int_def)
qed

lemma delay_int_bounds:
  assumes "0 \<le> b" "b \<le> m" "m \<le> max_safe_integer" "k \<le> 9" "0 \<le> j" "j \<le> 1" "0 \<le> r" "r \<le> 1"
  shows "min m (b * 2 ^ k) \<le> delay_int b m j k r" "0 \<le> delay_int b m j k r" "delay_int b m j k r \<le> m"
proof -
  have "of_int b * 2 ^ k \<le> jittered_delay b j k r" using assms by (intro jittered_delay_bounds(1)) auto
  then have "of_int (b * 2 ^ k) \<le> jittered_delay b j k r + 1 / 2" by simp
  then have "b * 2 ^ k \<le> \<lfloor>jittered_delay b j k r + 1 / 2\<rfloor>" by (simp only: le_floor_iff)
  then show lo: "min m (b * 2 ^ k) \<le> delay_int b m j k r" by (auto simp: delay_int_def)
  have "0 \<le> b * 2 ^ k" using assms(1) by simp
  with lo assms(1,2) show "0 \<le> delay_int b m j k r" by linarith
  show "delay_int b m j k r \<le> m" by (simp add: delay_int_def)
qed

section \<open>The window\<close>

text \<open>The window in exact integers: every attempt runs to its timeout, every delay is the longest.\<close>

definition worst_delay :: "int \<Rightarrow> int \<Rightarrow> rat \<Rightarrow> int \<Rightarrow> int" where
  "worst_delay b m j a = delay_int b m j (nat (a - 1)) 1"

definition exact_window :: "int \<Rightarrow> int \<Rightarrow> int \<Rightarrow> int \<Rightarrow> rat \<Rightarrow> int" where
  "exact_window n t b m j = n * t + (\<Sum>a\<leftarrow>[1..n - 1]. worst_delay b m j a)"

lemma worst_delay_nonneg:
  "retry_config_ok config n t b m j \<Longrightarrow> 1 \<le> a \<Longrightarrow> a \<le> 10 \<Longrightarrow> 0 \<le> worst_delay b m j a"
  unfolding worst_delay_def retry_config_ok_def by (intro delay_int_bounds(2)) auto

lemma add_delays_int:
  assumes ok: "retry_config_ok config n t b m j" and as: "\<forall>a \<in> set as. 1 \<le> a \<and> a \<le> 10"
  shows "js_huge x \<Longrightarrow> \<exists>y. add_delays config as x = Inr y \<and> js_huge y"
    and "0 \<le> i \<Longrightarrow> \<exists>y. add_delays config as (js_int i) = Inr y \<and>
      (let s = i + (\<Sum>a\<leftarrow>as. worst_delay b m j a) in
       if s \<le> max_safe_integer then y = js_int s else js_huge y)"
  using as
proof (induction as arbitrary: x i)
  case Nil
  {
    case 1
    then show ?case by simp
  next
    case 2
    show ?case
    proof (cases "i \<le> max_safe_integer")
      case False
      then have "of_int (2 ^ 53) \<le> (of_int i :: rat)" by (simp only: of_int_le_iff) (simp add: max_safe_integer_def)
      with False show ?thesis by (simp add: Let_def js_int_def)
    qed (simp add: Let_def)
  }
next
  case (Cons a as)
  {
    case 1
    have d: "maximum_retry_delay_after config (js_int a) = Inr (js_int (worst_delay b m j a))"
      using delay_after_eq [OF ok, of a 1] 1 by (simp add: maximum_retry_delay_after_def worst_delay_def js_int_def)
    have "js_huge (js_add x (js_int (worst_delay b m j a)))"
      using 1 worst_delay_nonneg [OF ok, of a] by (intro js_add_huge) auto
    from Cons.IH(1) [OF this] 1 d show ?case by simp
  next
    case 2
    have d: "maximum_retry_delay_after config (js_int a) = Inr (js_int (worst_delay b m j a))"
      using delay_after_eq [OF ok, of a 1] 2 by (simp add: maximum_retry_delay_after_def worst_delay_def js_int_def)
    have w: "0 \<le> worst_delay b m j a" using 2 worst_delay_nonneg [OF ok, of a] by simp
    have rest: "0 \<le> (\<Sum>a\<leftarrow>as. worst_delay b m j a)"
      using 2 by (intro sum_list_nonneg) (auto intro: worst_delay_nonneg [OF ok])
    note s = js_add_exact_or_huge [OF 2(1) w]
    show ?case
    proof (cases "i + worst_delay b m j a \<le> max_safe_integer")
      case True
      with s Cons.IH(2) [of "i + worst_delay b m j a"] 2 w d show ?thesis by (simp add: add.assoc)
    next
      case False
      with s have "js_huge (js_add (js_int i) (js_int (worst_delay b m j a)))" by simp
      from Cons.IH(1) [OF this] 2 d False rest show ?thesis by (auto simp: Let_def)
    qed
  }
qed

lemma calculate_window_int:
  assumes ok: "retry_config_ok config n t b m j" and v: "validate_retry_policy_config config = Inr ()"
  shows "calculate_maximum_retry_window_ms config =
    (if exact_window n t b m j \<le> max_safe_integer then Inr (js_int (exact_window n t b m j))
     else Inl (Plain_Error ''Maximum retry window exceeds the safe integer range''))"
proof -
  have f: "max_attempts config = js_int n" "attempt_timeout_ms config = js_int t" "1 \<le> n" "n \<le> 10" "1 \<le> t"
    using ok by (auto simp: retry_config_ok_def)
  let ?as = "[1..n - 1]" and ?s = "\<Sum>a\<leftarrow>[1..n - 1]. worst_delay b m j a"
  have as: "\<forall>a \<in> set ?as. 1 \<le> a \<and> a \<le> 10" using f by auto
  have s: "0 \<le> ?s" using as by (intro sum_list_nonneg) (auto intro: worst_delay_nonneg [OF ok])
  have nt: "0 \<le> n * t" using f by simp
  obtain y where y: "add_delays config ?as (js_mul (js_int n) (js_int t)) = Inr y"
    "if exact_window n t b m j \<le> max_safe_integer then y = js_int (exact_window n t b m j) else js_huge y"
  proof (cases "n * t \<le> max_safe_integer")
    case True
    then have "js_mul (js_int n) (js_int t) = js_int (n * t)"
      using js_mul_exact_or_huge [of n t] f by simp
    with add_delays_int(2) [OF ok as nt] that show ?thesis by (auto simp: Let_def exact_window_def)
  next
    case False
    then have "js_huge (js_mul (js_int n) (js_int t))" using js_mul_exact_or_huge [of n t] f by simp
    with add_delays_int(1) [OF ok as] that False s show ?thesis by (force simp: exact_window_def)
  qed
  have nn: "0 \<le> exact_window n t b m j" using s nt by (simp add: exact_window_def)
  show ?thesis
  proof (cases "exact_window n t b m j \<le> max_safe_integer")
    case True
    with y nn show ?thesis by (simp add: calculate_maximum_retry_window_ms_def v f)
  next
    case False
    with y have "\<not> is_safe_integer y" by (simp add: js_huge_unsafe)
    with y False show ?thesis by (simp add: calculate_maximum_retry_window_ms_def v f)
  qed
qed

fun rational_of :: "js_number \<Rightarrow> rat" where
  "rational_of (Num q) = q"
| "rational_of _ = 0"

definition config_window :: "retry_policy_config \<Rightarrow> int" where
  "config_window config = exact_window (integer_of (max_attempts config)) (integer_of (attempt_timeout_ms config))
     (integer_of (base_delay_ms config)) (integer_of (max_delay_ms config)) (rational_of (jitter_ratio config))"

lemma config_window_eq: "retry_config_ok config n t b m j \<Longrightarrow> config_window config = exact_window n t b m j"
  by (simp add: retry_config_ok_def config_window_def)

lemma calculate_window_Inr:
  assumes "calculate_maximum_retry_window_ms config = Inr w"
  shows "validate_retry_policy_config config = Inr ()" "w = js_int (config_window config)"
    "0 \<le> config_window config" "config_window config \<le> max_safe_integer"
proof -
  show v: "validate_retry_policy_config config = Inr ()"
    using assms by (simp add: calculate_maximum_retry_window_ms_def r_then_Inr_iff)
  obtain n t b m j where ok: "retry_config_ok config n t b m j"
    using validate_retry_policy_config_Inr [OF v] .
  from assms show "w = js_int (config_window config)" "config_window config \<le> max_safe_integer"
    by (auto simp: calculate_window_int [OF ok v] config_window_eq [OF ok] split: if_splits)
  have "0 \<le> (\<Sum>a\<leftarrow>[1..n - 1]. worst_delay b m j a)"
    using ok by (intro sum_list_nonneg) (auto simp: retry_config_ok_def intro: worst_delay_nonneg [OF ok])
  moreover have "0 \<le> n * t" using ok by (simp add: retry_config_ok_def)
  ultimately show "0 \<le> config_window config" by (simp add: config_window_eq [OF ok] exact_window_def)
qed

section \<open>Properties\<close>

text \<open>The default configuration of \<^verbatim>\<open>src/src/config.ts\<close>; \<open>0.2\<close> is the double nearest to it.\<close>

definition default_retry :: retry_policy_config where
  "default_retry = \<lparr>max_attempts = js_int 3, attempt_timeout_ms = js_int 3000, base_delay_ms = js_int 500,
     max_delay_ms = js_int 2000, jitter_ratio = Num (3602879701896397 / 18014398509481984)\<rparr>"

definition default_timing :: provider_timing_config where
  "default_timing = \<lparr>retry = default_retry, execution_overhead_ms = js_int 2000,
     processing_stale_timeout_ms = js_int 30000, minimum_stale_margin_ms = js_int 3000\<rparr>"

lemma default_retry_valid: "validate_retry_policy_config default_retry = Inr ()"
  by (simp add: validate_retry_policy_config_def default_retry_def require_safe_integer_def max_safe_integer_def)
    (simp add: js_int_def)

lemma default_jitter_factor:
  "jitter_factor (3602879701896397 / 18014398509481984) 1 = 5404319552844595 / 2 ^ 52"
proof -
  have j: "round_double (3602879701896397 / 18014398509481984) = 3602879701896397 / 18014398509481984"
    using round_double_exact [of 3602879701896397 "- 54"] by (simp add: power_int_def power_one_over)
  have "\<lfloor>21617278211378381 / 4 :: rat\<rfloor> = 5404319552844595" by (simp add: floor_eq_iff)
  then have "round_double (21617278211378381 / 18014398509481984) = 5404319552844595 / 2 ^ 52"
    by (subst round_double_eval [of 0]) (simp_all add: power_int_def power_one_over round_half_even_def Let_def)
  then show ?thesis by (simp add: jitter_factor_def j)
qed

lemma default_worst_delays:
  "worst_delay 500 2000 (3602879701896397 / 18014398509481984) 1 = 600"
  "worst_delay 500 2000 (3602879701896397 / 18014398509481984) 2 = 1200"
proof -
  have "\<lfloor>675539944105574375 / 128 :: rat\<rfloor> = 5277655813324799" by (simp add: floor_eq_iff)
  then have "round_double (2702159776422297500 / 2 ^ 52) = 600"
    by (subst round_double_eval [of 9]) (simp_all add: power_int_def power_one_over round_half_even_def Let_def)
  moreover have "\<lfloor>1201 / 2 :: rat\<rfloor> = 600" by (simp add: floor_eq_iff)
  ultimately show "worst_delay 500 2000 (3602879701896397 / 18014398509481984) 1 = 600"
    by (simp add: worst_delay_def delay_int_def jittered_delay_def default_jitter_factor)
  have "\<lfloor>675539944105574375 / 128 :: rat\<rfloor> = 5277655813324799" by (simp add: floor_eq_iff)
  then have "round_double (5404319552844595000 / 2 ^ 52) = 1200"
    by (subst round_double_eval [of 10]) (simp_all add: power_int_def power_one_over round_half_even_def Let_def)
  moreover have "\<lfloor>2401 / 2 :: rat\<rfloor> = 1200" by (simp add: floor_eq_iff)
  ultimately show "worst_delay 500 2000 (3602879701896397 / 18014398509481984) 2 = 1200"
    by (simp add: worst_delay_def delay_int_def jittered_delay_def default_jitter_factor)
qed

lemma default_retry_ok:
  "retry_config_ok default_retry 3 3000 500 2000 (3602879701896397 / 18014398509481984)"
  by (simp add: retry_config_ok_def default_retry_def max_safe_integer_def)

lemma default_window: "config_window default_retry = 10800"
proof -
  have "[1..2] = [1, 2 :: int]" by (simp add: upto.simps)
  then show ?thesis by (simp add: config_window_eq [OF default_retry_ok] exact_window_def default_worst_delays)
qed

lemma default_calculated: "calculate_maximum_retry_window_ms default_retry = Inr (js_int 10800)"
  using calculate_window_int [OF default_retry_ok default_retry_valid]
  by (simp add: config_window_eq [OF default_retry_ok, symmetric] default_window max_safe_integer_def)

lemma default_timing_valid:
  "validate_provider_timing default_timing = Inr \<lparr>maximum_retry_window_ms = js_int 10800,
     maximum_provider_execution_window_ms = js_int 12800, stale_margin_ms = js_int 17200\<rparr>"
  by (simp add: validate_provider_timing_def default_timing_def require_safe_integer_def default_calculated
      js_add_int js_sub_int max_safe_integer_def)

text \<open>
  Under a configuration the constructor accepts, for every attempt the policy allows and any
  random value in the unit interval, \<open>delayAfter\<close> returns a whole number of milliseconds between
  the plain exponential back-off (cut at \<open>maxDelayMs\<close>) and \<open>maxDelayMs\<close>, and never more than
  \<open>maximumRetryDelayAfter\<close> of that attempt, in binary64 arithmetic with all its roundings.
\<close>
theorem delay_after_bounded:
  assumes "validate_retry_policy_config config = Inr ()"
    and "1 \<le> a" "a \<le> integer_of (max_attempts config)" "0 \<le> r" "r \<le> 1"
  shows "\<exists>d w. delay_after config (js_int a) (Num r) = Inr (js_int d) \<and>
    maximum_retry_delay_after config (js_int a) = Inr (js_int w) \<and>
    min (integer_of (max_delay_ms config)) (integer_of (base_delay_ms config) * 2 ^ nat (a - 1)) \<le> d \<and>
    d \<le> w \<and> w \<le> integer_of (max_delay_ms config)"
proof -
  obtain n t b m j where ok: "retry_config_ok config n t b m j"
    using validate_retry_policy_config_Inr [OF assms(1)] .
  then have f: "base_delay_ms config = js_int b" "max_delay_ms config = js_int m" "max_attempts config = js_int n"
    "0 \<le> b" "b \<le> m" "m \<le> max_safe_integer" "n \<le> 10" "0 \<le> j" "j \<le> 1" by (auto simp: retry_config_ok_def)
  have a: "1 \<le> a" "a \<le> 10" "nat (a - 1) \<le> 9" using assms(2,3) f by auto
  note d = delay_after_eq [OF ok a(1,2)]
  have "maximum_retry_delay_after config (js_int a) = Inr (js_int (delay_int b m j (nat (a - 1)) 1))"
    using d [of 1] by (simp add: maximum_retry_delay_after_def js_int_def)
  with d [OF assms(4,5)] show ?thesis
    using delay_int_bounds [OF f(4-6) a(3) f(8,9) assms(4,5)] delay_int_bounds [OF f(4-6) a(3) f(8,9), of 1]
      delay_int_mono [OF f(4,8) assms(4,5)] by (simp add: f)
qed

theorem delay_after_bounded_witness:
  "\<exists>d w. delay_after default_retry (js_int 2) (Num (1 / 2)) = Inr (js_int d) \<and>
    maximum_retry_delay_after default_retry (js_int 2) = Inr (js_int w) \<and> 1000 \<le> d \<and> d \<le> w \<and> w \<le> 2000"
  using delay_after_bounded [OF default_retry_valid, of 2 "1 / 2"] by (simp add: default_retry_def)

text \<open>
  C11: \<open>calculateMaximumRetryWindowMs\<close> adds in floating point and checks the sum only at the end.
  It is exact all the same: for every accepted configuration it returns the true worst case
  \<open>maxAttempts * attemptTimeoutMs\<close> plus the longest delay after every attempt but the last
  when that is a safe integer, and throws otherwise.
\<close>
theorem retry_window_exact:
  assumes "validate_retry_policy_config config = Inr ()"
  shows "calculate_maximum_retry_window_ms config =
    (if config_window config \<le> max_safe_integer then Inr (js_int (config_window config))
     else Inl (Plain_Error ''Maximum retry window exceeds the safe integer range''))"
proof -
  obtain n t b m j where ok: "retry_config_ok config n t b m j"
    using validate_retry_policy_config_Inr [OF assms] .
  show ?thesis using calculate_window_int [OF ok assms] by (simp add: config_window_eq [OF ok])
qed

theorem retry_window_exact_witness:
  "calculate_maximum_retry_window_ms default_retry = Inr (js_int 10800)"
  using retry_window_exact [OF default_retry_valid] by (simp add: default_window max_safe_integer_def)

lemma provider_timing_exact:
  assumes "validate_provider_timing config = Inr timing"
  shows "let w = config_window (retry config); overhead = integer_of (execution_overhead_ms config);
      stale = integer_of (processing_stale_timeout_ms config) in
    timing = \<lparr>maximum_retry_window_ms = js_int w, maximum_provider_execution_window_ms = js_int (w + overhead),
      stale_margin_ms = js_int (stale - (w + overhead))\<rparr> \<and>
    0 \<le> overhead \<and> w + overhead + integer_of (minimum_stale_margin_ms config) \<le> stale \<and>
    1 \<le> integer_of (minimum_stale_margin_ms config)"
proof -
  let ?c = "retry config"
  let ?w = "config_window ?c" and ?o = "integer_of (execution_overhead_ms config)"
  let ?s = "integer_of (processing_stale_timeout_ms config)" and ?m = "integer_of (minimum_stale_margin_ms config)"
  let ?ex = "js_add (js_int ?w) (js_int ?o)"
  from assms obtain w where o: "execution_overhead_ms config = js_int ?o" "0 \<le> ?o" "\<bar>?o\<bar> \<le> max_safe_integer"
    and s: "processing_stale_timeout_ms config = js_int ?s" "1 \<le> ?s" "\<bar>?s\<bar> \<le> max_safe_integer"
    and m: "minimum_stale_margin_ms config = js_int ?m" "1 \<le> ?m" "\<bar>?m\<bar> \<le> max_safe_integer"
    and w: "calculate_maximum_retry_window_ms ?c = Inr w"
    and margin: "\<not> js_less (js_sub (processing_stale_timeout_ms config) (js_add w (execution_overhead_ms config)))
        (minimum_stale_margin_ms config)"
    and timing: "timing = \<lparr>maximum_retry_window_ms = w,
      maximum_provider_execution_window_ms = js_add w (execution_overhead_ms config),
      stale_margin_ms = js_sub (processing_stale_timeout_ms config) (js_add w (execution_overhead_ms config))\<rparr>"
    unfolding validate_provider_timing_def Let_def
    by (auto simp: r_then_Inr_iff r_bind_Inr_iff require_safe_integer_Inr split: if_splits)
  note cw = calculate_window_Inr [OF w]
  have margin': "\<not> js_less (js_sub (js_int ?s) ?ex) (js_int ?m)" using margin o(1) s(1) m(1) cw(2) by simp
  have "?w + ?o \<le> max_safe_integer"
  proof (rule ccontr)
    assume "\<not> ?thesis"
    with js_add_exact_or_huge [OF cw(3) o(2)] have "js_huge ?ex" by simp
    from js_sub_huge [OF this, of ?s ?m] margin' s m show False by simp
  qed
  then have ex: "?ex = js_int (?w + ?o)" using js_add_int cw(3) o(2) by simp
  have sub: "js_sub (js_int ?s) (js_int (?w + ?o)) = js_int (?s - (?w + ?o))"
    using cw(3) o(2) s \<open>?w + ?o \<le> max_safe_integer\<close> by (intro js_sub_int) auto
  have "?m \<le> ?s - (?w + ?o)" using margin' unfolding ex sub by simp
  moreover have "timing = \<lparr>maximum_retry_window_ms = js_int ?w,
      maximum_provider_execution_window_ms = js_int (?w + ?o), stale_margin_ms = js_int (?s - (?w + ?o))\<rparr>"
    unfolding timing cw(2) by (subst (1 2) o(1), subst s(1)) (simp only: ex sub)
  ultimately show ?thesis using o(2) m(2) unfolding Let_def by simp
qed

text \<open>
  C10: a timing configuration that \<open>validateProviderTiming\<close> accepts really leaves the margin: the
  three numbers it reports are the exact integers, although the sum with the overhead is not
  checked for safety, and the lease of an idempotency claim exceeds the longest provider
  execution by at least \<open>minimumStaleMarginMs\<close>.
\<close>
theorem provider_timing_sound:
  assumes "validate_provider_timing config = Inr timing"
  shows "let w = config_window (retry config); overhead = integer_of (execution_overhead_ms config);
      stale = integer_of (processing_stale_timeout_ms config) in
    timing = \<lparr>maximum_retry_window_ms = js_int w, maximum_provider_execution_window_ms = js_int (w + overhead),
      stale_margin_ms = js_int (stale - (w + overhead))\<rparr> \<and>
    0 \<le> overhead \<and> w + overhead + integer_of (minimum_stale_margin_ms config) \<le> stale \<and>
    1 \<le> integer_of (minimum_stale_margin_ms config)"
  using provider_timing_exact [OF assms] .

text \<open>The lease outlasts an execution.\<close>

lemma provider_timing_lease:
  assumes "validate_provider_timing config = Inr timing"
  shows "0 \<le> integer_of (maximum_provider_execution_window_ms timing)"
    "integer_of (maximum_provider_execution_window_ms timing) < integer_of (processing_stale_timeout_ms config)"
proof -
  have w: "0 \<le> config_window (retry config)"
    using assms calculate_window_Inr(3)
    by (auto simp: validate_provider_timing_def r_then_Inr_iff r_bind_Inr_iff)
  show "0 \<le> integer_of (maximum_provider_execution_window_ms timing)"
    "integer_of (maximum_provider_execution_window_ms timing) < integer_of (processing_stale_timeout_ms config)"
    using provider_timing_exact [OF assms] w by (simp_all add: Let_def)
qed

theorem provider_timing_sound_witness:
  "config_window (retry default_timing) + 2000 + 3000 \<le> 30000"
  using provider_timing_sound [OF default_timing_valid] by (simp add: Let_def default_timing_def)

end
