(* ===== verification/Json.thy ===== *)
theory Json
  imports Js_String Js_Number
begin

text \<open>
  JSON values and their text, as \<open>JSON.stringify\<close> writes it: members in order, no white
  space, the escapes of ECMAScript's QuoteJSONString.  A number that is a safe integer prints in
  decimal; how the runtime prints any other number is the parameter \<open>show_number\<close>.
\<close>

datatype json =
    JNull
  | JBool bool
  | JNumber js_number
  | JString string
  | JArray "json list"
  | JObject "(string \<times> json) list"

abbreviation JInt :: "int \<Rightarrow> json" where
  "JInt n \<equiv> JNumber (js_int n)"

section \<open>Strings\<close>

definition hex_digit :: "nat \<Rightarrow> char" where
  "hex_digit d = (if d < 10 then char_of (48 + d) else char_of (87 + d))"

definition hex_value :: "char \<Rightarrow> nat option" where
  "hex_value c =
     (if 48 \<le> code c \<and> code c \<le> 57 then Some (code c - 48)
      else if 97 \<le> code c \<and> code c \<le> 102 then Some (code c - 87)
      else if 65 \<le> code c \<and> code c \<le> 70 then Some (code c - 55)
      else None)"

definition quote :: char where "quote = CHR 0x22"
definition backslash :: char where "backslash = CHR 0x5C"

definition json_escape_char :: "char \<Rightarrow> string" where
  "json_escape_char c =
     (if c = quote \<or> c = backslash then [backslash, c]
      else if code c = 8 then [backslash, CHR ''b'']
      else if code c = 9 then [backslash, CHR ''t'']
      else if code c = 10 then [backslash, CHR ''n'']
      else if code c = 12 then [backslash, CHR ''f'']
      else if code c = 13 then [backslash, CHR ''r'']
      else if code c < 32 then
        [backslash, CHR ''u'', CHR ''0'', CHR ''0'', hex_digit (code c div 16), hex_digit (code c mod 16)]
      else [c])"

definition json_escape :: "string \<Rightarrow> string" where
  "json_escape s = concat (map json_escape_char s)"

definition json_quote :: "string \<Rightarrow> string" where
  "json_quote s = quote # json_escape s @ [quote]"

section \<open>Values\<close>

definition number_text :: "(js_number \<Rightarrow> string) \<Rightarrow> js_number \<Rightarrow> string" where
  "number_text show_number x =
     (if is_safe_integer x then js_decimal (integer_of x)
      else if is_finite x then show_number x else ''null'')"

fun json_stringify :: "(js_number \<Rightarrow> string) \<Rightarrow> json \<Rightarrow> string"
  and json_members :: "(js_number \<Rightarrow> string) \<Rightarrow> (string \<times> json) list \<Rightarrow> string list"
  and json_items :: "(js_number \<Rightarrow> string) \<Rightarrow> json list \<Rightarrow> string list" where
  "json_stringify sn JNull = ''null''"
| "json_stringify sn (JBool b) = (if b then ''true'' else ''false'')"
| "json_stringify sn (JNumber x) = number_text sn x"
| "json_stringify sn (JString s) = json_quote s"
| "json_stringify sn (JArray vs) = ''['' @ js_join '','' (json_items sn vs) @ '']''"
| "json_stringify sn (JObject ms) = ''{'' @ js_join '','' (json_members sn ms) @ ''}''"
| "json_members sn [] = []"
| "json_members sn ((k, v) # ms) = (json_quote k @ '':'' @ json_stringify sn v) # json_members sn ms"
| "json_items sn [] = []"
| "json_items sn (v # vs) = json_stringify sn v # json_items sn vs"

section \<open>Reading a string back\<close>

text \<open>One character of a JSON string body, and the body up to the closing quote.\<close>

fun json_read_char :: "string \<Rightarrow> (char \<times> string) option" where
  "json_read_char [] = None"
| "json_read_char (c # s) =
     (if c = quote \<or> code c < 32 then None
      else if c = backslash then
        (case s of
           [] \<Rightarrow> None
         | e # r \<Rightarrow>
             if e = quote \<or> e = backslash \<or> e = CHR ''/'' then Some (e, r)
             else if e = CHR ''b'' then Some (char_of (8 :: nat), r)
             else if e = CHR ''t'' then Some (char_of (9 :: nat), r)
             else if e = CHR ''n'' then Some (char_of (10 :: nat), r)
             else if e = CHR ''f'' then Some (char_of (12 :: nat), r)
             else if e = CHR ''r'' then Some (char_of (13 :: nat), r)
             else if e = CHR ''u'' then
               (case r of
                  h1 # h2 # h3 # h4 # r' \<Rightarrow>
                    (case (hex_value h1, hex_value h2, hex_value h3, hex_value h4) of
                       (Some 0, Some 0, Some d3, Some d4) \<Rightarrow> Some (char_of (16 * d3 + d4), r')
                     | _ \<Rightarrow> None)
                | _ \<Rightarrow> None)
             else None)
      else Some (c, s))"

lemma json_read_char_shorter: "json_read_char s = Some (c, r) \<Longrightarrow> length r < length s"
  by (cases s) (auto split: if_splits list.splits option.splits nat.splits)

declare json_read_char.simps [simp del]

function json_read_body :: "string \<Rightarrow> (string \<times> string) option" where
  "json_read_body s =
     (case s of
        [] \<Rightarrow> None
      | c # r \<Rightarrow>
          if c = quote then Some ([], r)
          else (case json_read_char s of
                  None \<Rightarrow> None
                | Some (d, r') \<Rightarrow>
                    (case json_read_body r' of None \<Rightarrow> None | Some (t, r'') \<Rightarrow> Some (d # t, r''))))"
  by pat_completeness auto
termination
  by (relation "measure length") (auto dest: json_read_char_shorter)

declare json_read_body.simps [simp del]

lemma hex_value_hex_digit: "d < 16 \<Longrightarrow> hex_value (hex_digit d) = Some d"
  by (simp add: hex_value_def hex_digit_def)

lemma code_quote [simp]: "code quote = 34" and code_backslash [simp]: "code backslash = 92"
  by (simp_all add: code_def quote_def backslash_def)

lemma quote_neq [simp]: "quote \<noteq> backslash" "backslash \<noteq> quote"
  by (simp_all add: quote_def backslash_def)

lemma char_of_code [simp]: "char_of (code c) = c"
  by (simp add: code_def)

lemma letter_codes:
  "code CHR ''b'' = 98" "code CHR ''t'' = 116" "code CHR ''n'' = 110" "code CHR ''f'' = 102"
  "code CHR ''r'' = 114" "code CHR ''u'' = 117" "code CHR ''/'' = 47" "code CHR ''0'' = 48"
  by (simp_all add: code_def)

lemma hex_value_0: "hex_value CHR ''0'' = Some 0"
  by (simp add: hex_value_def letter_codes)

lemma json_read_escaped_char: "json_read_char (json_escape_char c @ r) = Some (c, r)"
proof -
  consider "c = quote \<or> c = backslash"
    | "c \<noteq> quote" "c \<noteq> backslash" "code c \<in> {8, 9, 10, 12, 13}"
    | "c \<noteq> quote" "c \<noteq> backslash" "code c \<notin> {8, 9, 10, 12, 13}" "code c < 32"
    | "c \<noteq> quote" "c \<noteq> backslash" "32 \<le> code c"
    by (cases "code c < 32") auto
  then show ?thesis
  proof cases
    case 1
    then show ?thesis by (auto simp: json_escape_char_def json_read_char.simps)
  next
    case 2
    then have "c = char_of (8::nat) \<or> c = char_of (9::nat) \<or> c = char_of (10::nat) \<or>
        c = char_of (12::nat) \<or> c = char_of (13::nat)"
      by (metis char_of_code emptyE insertE)
    then show ?thesis
      by (elim disjE) (simp_all add: json_escape_char_def json_read_char.simps code_def quote_def backslash_def)
  next
    case 3
    then have e: "json_escape_char c = [backslash, CHR ''u'', CHR ''0'', CHR ''0'',
        hex_digit (code c div 16), hex_digit (code c mod 16)]"
      by (simp add: json_escape_char_def)
    have "code c div 16 < 16" "code c mod 16 < 16" using 3 by auto
    then have "hex_value (hex_digit (code c div 16)) = Some (code c div 16)"
      "hex_value (hex_digit (code c mod 16)) = Some (code c mod 16)" by (simp_all add: hex_value_hex_digit)
    then show ?thesis unfolding e
      by (simp add: json_read_char.simps hex_value_0) (simp add: quote_def backslash_def)
  next
    case 4
    then have "json_escape_char c = [c]" by (auto simp: json_escape_char_def)
    with 4 show ?thesis by (simp add: json_read_char.simps)
  qed
qed

lemma json_escape_char_start: "json_escape_char c = d # s \<Longrightarrow> d \<noteq> quote"
  by (auto simp: json_escape_char_def split: if_splits)

lemma json_escape_char_nonempty: "json_escape_char c \<noteq> []"
  by (simp add: json_escape_char_def)

lemma json_read_body_escape: "json_read_body (json_escape s @ quote # r) = Some (s, r)"
proof (induction s)
  case Nil
  then show ?case by (simp add: json_escape_def json_read_body.simps [of "quote # r"])
next
  case (Cons c s)
  let ?x = "json_escape (c # s) @ quote # r"
  have x: "?x = json_escape_char c @ (json_escape s @ quote # r)" by (simp add: json_escape_def)
  obtain d t where d: "json_escape_char c = d # t" using json_escape_char_nonempty by (cases "json_escape_char c") auto
  then have "d \<noteq> quote" by (rule json_escape_char_start)
  moreover have "?x = d # t @ json_escape s @ quote # r" by (simp add: x d)
  moreover have "json_read_char ?x = Some (c, json_escape s @ quote # r)"
    unfolding x by (rule json_read_escaped_char)
  ultimately show ?case using Cons by (simp add: json_read_body.simps [of "d # t @ json_escape s @ quote # r"])
qed

lemma json_escape_inject:
  "json_escape s @ quote # r = json_escape t @ quote # q \<longleftrightarrow> s = t \<and> r = q"
  by (metis json_read_body_escape option.inject prod.inject)

lemma json_escape_eq [simp]: "json_escape s = json_escape t \<longleftrightarrow> s = t"
  using json_escape_inject [of s "[]" t "[]"] by auto

end
