(* ===== verification/Fingerprint.thy ===== *)
theory Fingerprint
  imports Json "HOL-Library.Word"
begin

text \<open>
  \<^verbatim>\<open>src/src/application/idempotency/request-fingerprint.ts\<close>: the normal form of a payment
  request and its fingerprint.  SHA-256 (\<open>crypto.subtle.digest\<close>) is the parameter \<open>sha256\<close>.
\<close>

type_synonym byte = "8 word"

section \<open>Definitions\<close>

definition normalize_transaction_input :: "transaction_input \<Rightarrow> transaction_input" where
  "normalize_transaction_input t =
     \<lparr>amount = amount t, currency = to_upper (js_trim (currency t)),
      description = js_trim (description t)\<rparr>"

text \<open>\<open>TextEncoder\<close>: UTF-8 of a code unit below 256.\<close>

definition utf8_char :: "char \<Rightarrow> byte list" where
  "utf8_char c =
     (if code c < 128 then [of_nat (code c)]
      else [of_nat (192 + code c div 64), of_nat (128 + code c mod 64)])"

definition utf8_encode :: "string \<Rightarrow> byte list" where
  "utf8_encode s = concat (map utf8_char s)"

text \<open>\<open>byte.toString(16)\<close>\<close>

definition byte_to_hex :: "byte \<Rightarrow> string" where
  "byte_to_hex b =
     (if unat b < 16 then [hex_digit (unat b)]
      else [hex_digit (unat b div 16), hex_digit (unat b mod 16)])"

definition hex_encode :: "byte list \<Rightarrow> string" where
  "hex_encode bs = concat (map (\<lambda>b. pad_start 2 (CHR ''0'') (byte_to_hex b)) bs)"

text \<open>The canonical text; every amount printed here is an integer, so no other number is.\<close>

definition canonical_json :: "transaction_input \<Rightarrow> json" where
  "canonical_json t = JObject
     [(''amount'', JInt (amount t)), (''currency'', JString (currency t)),
      (''description'', JString (description t))]"

definition create_request_fingerprint ::
    "(js_number \<Rightarrow> string) \<Rightarrow> (byte list \<Rightarrow> byte list) \<Rightarrow> transaction_input \<Rightarrow> string" where
  "create_request_fingerprint show_number sha256 t =
     (let normalized = normalize_transaction_input t;
          canonical = json_stringify show_number (canonical_json normalized);
          digest = sha256 (utf8_encode canonical)
      in hex_encode digest)"

section \<open>Encodings are injective\<close>

lemma normalize_idem [simp]:
  "normalize_transaction_input (normalize_transaction_input t) = normalize_transaction_input t"
  by (simp add: normalize_transaction_input_def)

lemma canonical_json_inject:
  assumes "\<bar>amount s\<bar> \<le> max_safe_integer" "\<bar>amount t\<bar> \<le> max_safe_integer"
    and eq: "json_stringify sn (canonical_json s) = json_stringify sn (canonical_json t)"
  shows "s = t"
proof -
  have comma: "CHR '','' \<notin> set (js_decimal i)" for i
    using js_decimal_chars [of "CHR '',''" i] by (auto simp: is_digit_def)
  let ?rest = "\<lambda>t. json_quote ''currency'' @ '':'' @ json_quote (currency t) @ '','' @
      json_quote ''description'' @ '':'' @ json_quote (description t) @ ''}''"
  have text_eq: "json_stringify sn (canonical_json t) = (''{'' @ json_quote ''amount'' @ '':'') @
      (js_decimal (amount t) @ CHR '','' # ?rest t)" if "\<bar>amount t\<bar> \<le> max_safe_integer" for t
    using that by (simp add: canonical_json_def number_text_def)
  have "js_decimal (amount s) @ CHR '','' # ?rest s = js_decimal (amount t) @ CHR '','' # ?rest t"
    using eq unfolding text_eq [OF assms(1)] text_eq [OF assms(2)] by (simp only: same_append_eq)
  from before_separator_inject [OF comma comma this]
  have a: "amount s = amount t" and r: "?rest s = ?rest t" by simp_all
  have "json_escape (currency s) @ quote # '','' @ json_quote ''description'' @ '':'' @ json_quote (description s) @ ''}'' =
      json_escape (currency t) @ quote # '','' @ json_quote ''description'' @ '':'' @ json_quote (description t) @ ''}''"
    using r by (simp add: json_quote_def)
  then have c: "currency s = currency t" and r': "json_quote (description s) @ ''}'' = json_quote (description t) @ ''}''"
    by (simp_all add: json_escape_inject)
  from r' have "description s = description t" by (simp add: json_quote_def json_escape_inject)
  with a c show ?thesis by simp
qed

text \<open>UTF-8 of these code units is prefix free: the first byte tells the length.\<close>

lemma unat_byte_of_nat [simp]: "n < 256 \<Longrightarrow> unat (of_nat n :: byte) = n"
  by (simp add: unat_of_nat)

lemma byte_of_nat_inject: "m < 256 \<Longrightarrow> n < 256 \<Longrightarrow> (of_nat m :: byte) = of_nat n \<Longrightarrow> m = n"
  by (metis unat_byte_of_nat)

lemma utf8_char_bytes: "map unat (utf8_char c) =
    (if code c < 128 then [code c] else [192 + code c div 64, 128 + code c mod 64])"
proof -
  have "code c div 64 < 4" using code_less [of c] less_mult_imp_div_less [of "code c" 4 64] by simp
  moreover have "code c mod 64 < 64" by simp
  ultimately have "192 + code c div 64 < 256" "128 + code c mod 64 < 256" by linarith+
  moreover have "code c < 128 \<Longrightarrow> code c < 256" by simp
  ultimately show ?thesis unfolding utf8_char_def by (simp only: unat_byte_of_nat list.map split: if_split) simp
qed

lemma utf8_char_inject:
  assumes "utf8_char c @ x = utf8_char d @ y"
  shows "c = d \<and> x = y"
proof -
  have eq: "map unat (utf8_char c) @ map unat x = map unat (utf8_char d) @ map unat y"
    using assms by (metis map_append)
  have cd: "code c = code d"
  proof (cases "code c < 128"; cases "code d < 128")
    assume "\<not> code c < 128" "\<not> code d < 128"
    with eq have "code c div 64 = code d div 64" "code c mod 64 = code d mod 64"
      by (simp_all add: utf8_char_bytes)
    then show ?thesis by (metis div_mult_mod_eq)
  qed (use eq in \<open>auto simp: utf8_char_bytes\<close>)
  then have "c = d" by simp
  with assms show ?thesis by simp
qed

lemma utf8_encode_inject: "utf8_encode s = utf8_encode t \<longleftrightarrow> s = t"
  unfolding utf8_encode_def
  by (rule prefix_code_inject, erule utf8_char_inject, simp add: utf8_char_def)

definition hex_byte :: "byte \<Rightarrow> string" where
  "hex_byte b = pad_start 2 (CHR ''0'') (byte_to_hex b)"

lemma hex_encode_hex_byte: "hex_encode bs = concat (map hex_byte bs)"
  by (simp add: hex_encode_def hex_byte_def [abs_def])

lemma char_of_48: "char_of (48 :: nat) = CHR ''0''"
  by code_simp

lemma hex_byte_digits: "hex_byte b = [hex_digit (unat b div 16), hex_digit (unat b mod 16)]"
  by (simp add: hex_byte_def byte_to_hex_def pad_start_def hex_digit_def char_of_48)

lemma unat_byte_less: "unat (b :: byte) < 256"
  using unsigned_less [where ?'a = nat, of b] by simp

lemma hex_encode_replicate: "hex_encode (replicate n b) = concat (replicate n (hex_byte b))"
  by (simp add: hex_encode_hex_byte)

lemma hex_encode_170: "hex_encode (replicate 32 170) = replicate 64 (CHR ''a'')"
proof -
  have "hex_byte 170 = ''aa''" by code_simp
  then show ?thesis unfolding hex_encode_replicate by (simp add: numeral_eq_Suc)
qed

lemma hex_byte_inject: "hex_byte b @ x = hex_byte c @ y \<Longrightarrow> b = c \<and> x = y"
proof -
  assume eq: "hex_byte b @ x = hex_byte c @ y"
  have lt: "unat b div 16 < 16" "unat c div 16 < 16" "unat b mod 16 < 16" "unat c mod 16 < 16"
    using unat_byte_less [of b] unat_byte_less [of c] by (auto simp: less_mult_imp_div_less)
  have "unat b div 16 = unat c div 16" "unat b mod 16 = unat c mod 16"
    using eq lt hex_value_hex_digit unfolding hex_byte_digits by (metis append_Cons list.inject option.inject)+
  then have "unat b = unat c" by (metis div_mult_mod_eq)
  then have "b = c" by (simp add: word_unat_eq_iff)
  with eq show ?thesis by simp
qed

lemma hex_encode_inject: "hex_encode bs = hex_encode cs \<longleftrightarrow> bs = cs"
  unfolding hex_encode_hex_byte
  by (rule prefix_code_inject, erule hex_byte_inject, simp add: hex_byte_digits)

lemma length_hex_encode: "length (hex_encode bs) = 2 * length bs"
  unfolding hex_encode_hex_byte by (induction bs) (simp_all add: hex_byte_digits)

definition is_lower_hex :: "char \<Rightarrow> bool" where
  "is_lower_hex c \<longleftrightarrow> (48 \<le> code c \<and> code c \<le> 57) \<or> (97 \<le> code c \<and> code c \<le> 102)"

lemma is_lower_hex_digit: "d < 16 \<Longrightarrow> is_lower_hex (hex_digit d)"
  by (simp add: is_lower_hex_def hex_digit_def)

lemma hex_encode_lower: "\<forall>c \<in> set (hex_encode bs). is_lower_hex c"
proof -
  have "\<forall>c \<in> set (hex_byte b). is_lower_hex c" for b
    using unat_byte_less [of b] by (simp add: hex_byte_digits is_lower_hex_digit less_mult_imp_div_less)
  then show ?thesis by (simp add: hex_encode_hex_byte)
qed

definition canonical_bytes :: "(js_number \<Rightarrow> string) \<Rightarrow> transaction_input \<Rightarrow> byte list" where
  "canonical_bytes sn t = utf8_encode (json_stringify sn (canonical_json (normalize_transaction_input t)))"

lemma create_request_fingerprint_bytes:
  "create_request_fingerprint sn sha256 t = hex_encode (sha256 (canonical_bytes sn t))"
  by (simp add: create_request_fingerprint_def canonical_bytes_def Let_def)

section \<open>Properties\<close>

text \<open>
  C12: two requests have the same fingerprint exactly when they have the same normal form
  (amount, trimmed upper-case currency, trimmed description), as long as SHA-256 does not collide
  on their two canonical texts; the fingerprint of a normalised request is that of the request,
  which \<open>CreateTransaction\<close> relies on, as it normalises before it hashes.
\<close>
theorem fingerprint_identifies_request:
  assumes "\<bar>amount s\<bar> \<le> max_safe_integer" "\<bar>amount t\<bar> \<le> max_safe_integer"
    and no_collision: "sha256 (canonical_bytes sn s) = sha256 (canonical_bytes sn t) \<Longrightarrow>
      canonical_bytes sn s = canonical_bytes sn t"
  shows "(create_request_fingerprint sn sha256 s = create_request_fingerprint sn sha256 t \<longleftrightarrow>
      normalize_transaction_input s = normalize_transaction_input t) \<and>
    create_request_fingerprint sn sha256 (normalize_transaction_input s) = create_request_fingerprint sn sha256 s"
proof -
  have amt: "amount (normalize_transaction_input r) = amount r" for r
    by (simp add: normalize_transaction_input_def)
  have "create_request_fingerprint sn sha256 s = create_request_fingerprint sn sha256 t \<longleftrightarrow>
      canonical_bytes sn s = canonical_bytes sn t"
    using no_collision by (auto simp: create_request_fingerprint_bytes hex_encode_inject)
  also have "\<dots> \<longleftrightarrow> normalize_transaction_input s = normalize_transaction_input t"
    using canonical_json_inject [of "normalize_transaction_input s" "normalize_transaction_input t" sn] assms(1,2)
    by (auto simp: canonical_bytes_def utf8_encode_inject amt)
  finally show ?thesis by (simp add: create_request_fingerprint_def Let_def)
qed

definition sample_request :: "string \<Rightarrow> transaction_input" where
  "sample_request c = \<lparr>amount = 1099, currency = c, description = ''order''\<rparr>"

theorem fingerprint_identifies_request_witness:
  "create_request_fingerprint (\<lambda>_. []) (\<lambda>bs. bs) (sample_request '' brl'') =
     create_request_fingerprint (\<lambda>_. []) (\<lambda>bs. bs) (sample_request ''BRL'') \<and>
   create_request_fingerprint (\<lambda>_. []) (\<lambda>bs. bs) (sample_request ''USD'') \<noteq>
     create_request_fingerprint (\<lambda>_. []) (\<lambda>bs. bs) (sample_request ''BRL'')"
proof -
  have n: "normalize_transaction_input (sample_request '' brl'') = normalize_transaction_input (sample_request ''BRL'')"
    "normalize_transaction_input (sample_request ''USD'') \<noteq> normalize_transaction_input (sample_request ''BRL'')"
    by (code_simp, code_simp)
  have a: "\<bar>amount (sample_request c)\<bar> \<le> max_safe_integer" for c
    by (simp add: sample_request_def max_safe_integer_def)
  from fingerprint_identifies_request [OF a a, of "\<lambda>bs. bs" "\<lambda>_. []" "'' brl''" "''BRL''"]
    fingerprint_identifies_request [OF a a, of "\<lambda>bs. bs" "\<lambda>_. []" "''USD''" "''BRL''"] n
  show ?thesis by simp
qed

text \<open>
  With a 32-byte digest a fingerprint is exactly what the database accepts as one: 64
  characters, each a lower-case hexadecimal digit (the \<open>CHECK\<close> on
  \<open>idempotency_operations.request_fingerprint\<close>).
\<close>
theorem fingerprint_shape:
  assumes "\<And>bs. length (sha256 bs) = 32"
  shows "length (create_request_fingerprint sn sha256 t) = 64 \<and>
    list_all is_lower_hex (create_request_fingerprint sn sha256 t)"
  using assms hex_encode_lower
  by (simp add: create_request_fingerprint_bytes length_hex_encode list_all_iff)

theorem fingerprint_shape_witness:
  "length (create_request_fingerprint (\<lambda>_. []) (\<lambda>bs. replicate 32 7) (sample_request ''BRL'')) = 64"
  using fingerprint_shape [of "\<lambda>bs. replicate 32 7"] by simp

end
