(* ===== verification/Repository.thy ===== *)
theory Repository
  imports Domain Js_String
begin

text \<open>
  The port \<^verbatim>\<open>src/src/application/ports/transaction-repository.ts\<close> as a record of
  operations over a state, and what it promises: an abstract ledger that maps an idempotency key
  to an open claim or to the finished transaction, and the locales \<open>idempotent_store\<close> and
  \<open>prompt_store\<close>, in which the consequences every client relies on are proved once.
\<close>

section \<open>The port\<close>

record 's transaction_repository =
  claim_idempotency_operation :: "claim_request \<Rightarrow> 's \<Rightarrow> claim_result result \<times> 's"
  complete_idempotency_operation :: "complete_request \<Rightarrow> 's \<Rightarrow> unit result \<times> 's"
  release_idempotency_operation :: "release_request \<Rightarrow> 's \<Rightarrow> unit result \<times> 's"
  find_by_id :: "string \<Rightarrow> 's \<Rightarrow> transaction option result"
  list_transactions :: "int \<Rightarrow> int \<Rightarrow> 's \<Rightarrow> transaction list result"
  count_transactions :: "'s \<Rightarrow> int result"

section \<open>The ledger\<close>

datatype entry =
    Claimed (entry_fingerprint: string) (claimed_since: int)
  | Done (entry_fingerprint: string) (entry_transaction: transaction)

type_synonym ledger = "string \<Rightarrow> entry option"

text \<open>
  What a claim may answer.  A claim of one's own key and fingerprint that is open may always be
  answered \<open>Claim_Processing\<close>; it may be taken over only when it is stale.
\<close>

inductive ledger_claim :: "claim_request \<Rightarrow> ledger \<Rightarrow> claim_result \<Rightarrow> ledger \<Rightarrow> bool"
  for r :: claim_request and L :: ledger where
  new: "L (claim_key r) = None \<Longrightarrow>
    ledger_claim r L New_Claim (L(claim_key r \<mapsto> Claimed (claim_fingerprint r) (claimed_at r)))"
| reclaim: "L (claim_key r) = Some (Claimed (claim_fingerprint r) u) \<Longrightarrow> u \<le> stale_before r \<Longrightarrow>
    ledger_claim r L New_Claim (L(claim_key r \<mapsto> Claimed (claim_fingerprint r) (claimed_at r)))"
| processing: "L (claim_key r) = Some (Claimed (claim_fingerprint r) u) \<Longrightarrow>
    ledger_claim r L Claim_Processing L"
| conflict: "L (claim_key r) = Some x \<Longrightarrow> entry_fingerprint x \<noteq> claim_fingerprint r \<Longrightarrow>
    ledger_claim r L Fingerprint_Conflict L"
| replay: "L (claim_key r) = Some (Done (claim_fingerprint r) t) \<Longrightarrow>
    ledger_claim r L (Completed_Replay t) L"

inductive_cases ledger_claim_newE: "ledger_claim r L New_Claim L'"
inductive_cases ledger_claim_processingE: "ledger_claim r L Claim_Processing L'"
inductive_cases ledger_claim_conflictE: "ledger_claim r L Fingerprint_Conflict L'"
inductive_cases ledger_claim_replayE: "ledger_claim r L (Completed_Replay t) L'"

definition open_for :: "string \<Rightarrow> string \<Rightarrow> ledger \<Rightarrow> bool" where
  "open_for key fp L \<longleftrightarrow> (\<exists>u. L key = Some (Claimed fp u))"

definition ledger_complete :: "complete_request \<Rightarrow> ledger \<Rightarrow> ledger option" where
  "ledger_complete r L =
     (case L (complete_key r) of
        Some (Claimed fp u) \<Rightarrow>
          (if fp = complete_fingerprint r
           then Some (L(complete_key r \<mapsto> Done fp (complete_transaction r))) else None)
      | _ \<Rightarrow> None)"

definition ledger_release :: "release_request \<Rightarrow> ledger \<Rightarrow> ledger" where
  "ledger_release r L =
     (case L (release_key r) of
        Some (Claimed fp u) \<Rightarrow> (if fp = release_fingerprint r then L(release_key r := None) else L)
      | _ \<Rightarrow> L)"

lemma ledger_complete_Some:
  "ledger_complete r L = Some L' \<longleftrightarrow>
    open_for (complete_key r) (complete_fingerprint r) L \<and>
    L' = L(complete_key r \<mapsto> Done (complete_fingerprint r) (complete_transaction r))"
  by (auto simp: ledger_complete_def open_for_def split: option.splits entry.splits if_splits)

text \<open>A finished entry never changes again.\<close>

lemma ledger_claim_keeps_done:
  "ledger_claim r L c L' \<Longrightarrow> L k = Some (Done fp t) \<Longrightarrow> L' k = Some (Done fp t)"
  by (induction rule: ledger_claim.induct) auto

lemma ledger_complete_keeps_done:
  "ledger_complete r L = Some L' \<Longrightarrow> L k = Some (Done fp t) \<Longrightarrow> L' k = Some (Done fp t)"
  by (auto simp: ledger_complete_Some open_for_def)

lemma ledger_release_keeps_done:
  "L k = Some (Done fp t) \<Longrightarrow> ledger_release r L k = Some (Done fp t)"
  by (auto simp: ledger_release_def split: option.splits entry.splits)

text \<open>The fingerprint of a key changes only by a release in between.\<close>

lemma ledger_claim_fingerprint:
  "ledger_claim r L c L' \<Longrightarrow> L k = Some x \<Longrightarrow> \<exists>y. L' k = Some y \<and> entry_fingerprint y = entry_fingerprint x"
  by (induction rule: ledger_claim.induct) auto

section \<open>The contract\<close>

text \<open>
  The calls any number of executions make, in the order they take effect.  A call returns its
  answer; the history of a run pairs the calls with the answers.
\<close>

datatype store_call = Claim claim_request | Complete complete_request | Release release_request

datatype store_answer = Claim_Answer "claim_result result" | Unit_Answer "unit result"

fun perform :: "'s transaction_repository \<Rightarrow> store_call \<Rightarrow> 's \<Rightarrow> store_answer \<times> 's" where
  "perform R (Claim r) s = (case claim_idempotency_operation R r s of (a, s') \<Rightarrow> (Claim_Answer a, s'))"
| "perform R (Complete r) s = (case complete_idempotency_operation R r s of (a, s') \<Rightarrow> (Unit_Answer a, s'))"
| "perform R (Release r) s = (case release_idempotency_operation R r s of (a, s') \<Rightarrow> (Unit_Answer a, s'))"

fun run_store :: "'s transaction_repository \<Rightarrow> store_call list \<Rightarrow> 's \<Rightarrow> (store_call \<times> store_answer) list \<times> 's" where
  "run_store R [] s = ([], s)"
| "run_store R (c # cs) s =
     (case perform R c s of (a, s') \<Rightarrow>
      case run_store R cs s' of (h, t) \<Rightarrow> ((c, a) # h, t))"

text \<open>The calls of a run are admissible at the states they are made in.\<close>

fun admissible :: "'s transaction_repository \<Rightarrow> (claim_request \<Rightarrow> bool) \<Rightarrow> (complete_request \<Rightarrow> 's \<Rightarrow> bool) \<Rightarrow>
    store_call list \<Rightarrow> 's \<Rightarrow> bool" where
  "admissible R claim_ok complete_ok [] s = True"
| "admissible R claim_ok complete_ok (c # cs) s =
     ((case c of Claim r \<Rightarrow> claim_ok r | Complete r \<Rightarrow> complete_ok r s | Release r \<Rightarrow> True) \<and>
      admissible R claim_ok complete_ok cs (snd (perform R c s)))"

text \<open>A successful completion of a key in a history.\<close>

definition completes :: "string \<Rightarrow> store_call \<times> store_answer \<Rightarrow> bool" where
  "completes k x \<longleftrightarrow> (case x of (Complete r, Unit_Answer (Inr _)) \<Rightarrow> complete_key r = k | _ \<Rightarrow> False)"

locale idempotent_store =
  fixes R :: "'s transaction_repository"
    and invar :: "'s \<Rightarrow> bool"
    and ledger_of :: "'s \<Rightarrow> ledger"
    and claim_ok :: "claim_request \<Rightarrow> bool"
    and complete_ok :: "complete_request \<Rightarrow> 's \<Rightarrow> bool"
  assumes claim_law: "invar s \<Longrightarrow> claim_ok cr \<Longrightarrow> claim_idempotency_operation R cr s = (ca, s') \<Longrightarrow>
      invar s' \<and> (\<exists>c. ca = Inr c \<and> ledger_claim cr (ledger_of s) c (ledger_of s'))"
    and complete_law: "invar s \<Longrightarrow> complete_ok fr s \<Longrightarrow> complete_idempotency_operation R fr s = (ua, s') \<Longrightarrow>
      invar s' \<and> (case ledger_complete fr (ledger_of s) of
        None \<Rightarrow> (\<exists>e. ua = Inl e) \<and> ledger_of s' = ledger_of s
      | Some L \<Rightarrow> ua = Inr () \<and> ledger_of s' = L)"
    and release_law: "invar s \<Longrightarrow> release_idempotency_operation R rr s = (ua, s') \<Longrightarrow>
      invar s' \<and> ua = Inr () \<and> ledger_of s' = ledger_release rr (ledger_of s)"
begin

lemma perform_invar:
  assumes "invar s" "admissible R claim_ok complete_ok [c] s" "perform R c s = (a, s')"
  shows "invar s'"
proof (cases c)
  case (Claim r)
  with assms claim_law [of s r] show ?thesis by (auto split: prod.splits)
next
  case (Complete r)
  with assms complete_law [of s r] show ?thesis by (auto split: prod.splits)
next
  case (Release r)
  with assms release_law [of s r] show ?thesis by (auto split: prod.splits)
qed

lemma perform_keeps_done:
  assumes "invar s" "admissible R claim_ok complete_ok [c] s" "perform R c s = (a, s')" "ledger_of s k = Some (Done fp t)"
  shows "ledger_of s' k = Some (Done fp t)"
proof (cases c)
  case (Claim r)
  with assms claim_law [of s r] obtain b where "ledger_claim r (ledger_of s) b (ledger_of s')"
    by (auto split: prod.splits)
  with assms(4) show ?thesis by (rule ledger_claim_keeps_done [rotated])
next
  case (Complete r)
  with assms complete_law [of s r] show ?thesis
    by (auto split: prod.splits option.splits dest: ledger_complete_keeps_done)
next
  case (Release r)
  with assms release_law [of s r] show ?thesis
    by (auto split: prod.splits dest: ledger_release_keeps_done)
qed

lemma run_invar:
  "invar s \<Longrightarrow> admissible R claim_ok complete_ok cs s \<Longrightarrow> run_store R cs s = (h, t) \<Longrightarrow> invar t"
proof (induction cs arbitrary: s h)
  case (Cons c cs)
  obtain a s' where p: "perform R c s = (a, s')" by fastforce
  with Cons.prems have "invar s'" using perform_invar [of s c] by auto
  with Cons.IH Cons.prems p show ?case by (auto split: prod.splits)
qed simp

lemma run_keeps_done:
  "invar s \<Longrightarrow> admissible R claim_ok complete_ok cs s \<Longrightarrow> run_store R cs s = (h, t) \<Longrightarrow>
    ledger_of s k = Some (Done fp x) \<Longrightarrow> ledger_of t k = Some (Done fp x)"
proof (induction cs arbitrary: s h)
  case (Cons c cs)
  obtain a s' where p: "perform R c s = (a, s')" by fastforce
  with Cons.prems have "invar s'" "ledger_of s' k = Some (Done fp x)"
    using perform_invar [of s c] perform_keeps_done [of s c] by auto
  with Cons.IH Cons.prems p show ?case by (auto split: prod.splits)
qed simp

lemma done_never_completes:
  "invar s \<Longrightarrow> admissible R claim_ok complete_ok cs s \<Longrightarrow> run_store R cs s = (h, t) \<Longrightarrow>
    ledger_of s k = Some (Done fp x) \<Longrightarrow> filter (completes k) h = []"
proof (induction cs arbitrary: s h)
  case (Cons c cs)
  obtain a s' where p: "perform R c s = (a, s')" by fastforce
  have next_state: "invar s'" "ledger_of s' k = Some (Done fp x)"
    using p Cons.prems perform_invar [of s c] perform_keeps_done [of s c] by auto
  have "\<not> completes k (c, a)"
  proof
    assume "completes k (c, a)"
    then obtain r u where "c = Complete r" "a = Unit_Answer (Inr u)" "complete_key r = k"
      by (auto simp: completes_def split: store_call.splits store_answer.splits sum.splits)
    with p Cons.prems complete_law [of s r "Inr u" s'] show False
      by (auto split: prod.splits option.splits simp: ledger_complete_Some open_for_def)
  qed
  with next_state Cons p show ?case by (auto split: prod.splits)
qed simp

text \<open>At most one completion of a key succeeds in any run, however the executions interleave.\<close>

lemma completes_at_most_once:
  "invar s \<Longrightarrow> admissible R claim_ok complete_ok cs s \<Longrightarrow> run_store R cs s = (h, t) \<Longrightarrow> length (filter (completes k) h) \<le> 1"
proof (induction cs arbitrary: s h)
  case (Cons c cs)
  obtain a s' where p: "perform R c s = (a, s')" by fastforce
  obtain h' where h': "run_store R cs s' = (h', t)" "h = (c, a) # h'"
    using p Cons.prems(3) by (auto split: prod.splits)
  have s': "invar s'" "admissible R claim_ok complete_ok cs s'" using p Cons.prems perform_invar [of s c] by auto
  show ?case
  proof (cases "completes k (c, a)")
    case True
    then obtain r u where r: "c = Complete r" "a = Unit_Answer (Inr u)" "complete_key r = k"
      by (auto simp: completes_def split: store_call.splits store_answer.splits sum.splits)
    with p Cons.prems complete_law [of s r "Inr u" s']
    have "ledger_of s' k = Some (Done (complete_fingerprint r) (complete_transaction r))"
      by (auto split: prod.splits option.splits simp: ledger_complete_Some)
    from done_never_completes [OF s' h'(1) this] h' show ?thesis by simp
  next
    case False
    with Cons.IH [OF s' h'(1)] h' show ?thesis by simp
  qed
qed simp

text \<open>After a completion every claim of the key replays that transaction or reports the conflict.\<close>

lemma claim_after_done:
  assumes "invar s" "claim_ok r" "ledger_of s (claim_key r) = Some (Done fp x)"
    and "claim_idempotency_operation R r s = (a, s')"
  shows "a = Inr (if claim_fingerprint r = fp then Completed_Replay x else Fingerprint_Conflict) \<and>
    ledger_of s' = ledger_of s"
  using claim_law [OF assms(1,2,4)] assms(3) by (auto elim: ledger_claim.cases)

end

text \<open>A store that answers \<open>Claim_Processing\<close> only while the claim is not stale.\<close>

locale prompt_store = idempotent_store +
  assumes prompt: "invar s \<Longrightarrow> claim_ok cr \<Longrightarrow>
      claim_idempotency_operation R cr s = (Inr Claim_Processing, s') \<Longrightarrow>
      ledger_of s (claim_key cr) = Some (Claimed fp u) \<Longrightarrow> stale_before cr < u"
begin

lemma claim_open:
  assumes "invar s" "claim_ok r" "ledger_of s (claim_key r) = Some (Claimed (claim_fingerprint r) u)"
    and "claim_idempotency_operation R r s = (a, s')"
  shows "a = Inr (if u \<le> stale_before r then New_Claim else Claim_Processing)"
proof -
  obtain c where c: "a = Inr c" "ledger_claim r (ledger_of s) c (ledger_of s')"
    using claim_law [OF assms(1,2,4)] by blast
  then have "c = New_Claim \<and> u \<le> stale_before r \<or> c = Claim_Processing"
    using assms(3) by (auto elim: ledger_claim.cases)
  then show ?thesis using prompt [OF assms(1,2) _ assms(3)] assms(4) c(1) by fastforce
qed

end

section \<open>A repository within a larger state\<close>

text \<open>
  The application holds its repository beside a cache, a breaker and metrics: the operations act
  on one part of the state, and the contract holds of that part.
\<close>

definition at_part :: "('t \<Rightarrow> 's) \<Rightarrow> ('s \<Rightarrow> 't \<Rightarrow> 't) \<Rightarrow> ('r \<Rightarrow> 's \<Rightarrow> 'a \<times> 's) \<Rightarrow> 'r \<Rightarrow> 't \<Rightarrow> 'a \<times> 't" where
  "at_part part put f r t = (case f r (part t) of (a, s) \<Rightarrow> (a, put s t))"

definition repository_at :: "('t \<Rightarrow> 's) \<Rightarrow> ('s \<Rightarrow> 't \<Rightarrow> 't) \<Rightarrow> 's transaction_repository \<Rightarrow> 't transaction_repository" where
  "repository_at part put R =
     \<lparr>claim_idempotency_operation = at_part part put (claim_idempotency_operation R),
      complete_idempotency_operation = at_part part put (complete_idempotency_operation R),
      release_idempotency_operation = at_part part put (release_idempotency_operation R),
      find_by_id = (\<lambda>i t. find_by_id R i (part t)),
      list_transactions = (\<lambda>offset limit t. list_transactions R offset limit (part t)),
      count_transactions = (\<lambda>t. count_transactions R (part t))\<rparr>"

lemma repository_at_simps [simp]:
  "claim_idempotency_operation (repository_at part put R) = at_part part put (claim_idempotency_operation R)"
  "complete_idempotency_operation (repository_at part put R) = at_part part put (complete_idempotency_operation R)"
  "release_idempotency_operation (repository_at part put R) = at_part part put (release_idempotency_operation R)"
  by (simp_all add: repository_at_def)

locale store_part = inner: idempotent_store R invar ledger_of claim_ok complete_ok
  for R :: "'s transaction_repository" and invar :: "'s \<Rightarrow> bool" and ledger_of :: "'s \<Rightarrow> ledger"
    and claim_ok :: "claim_request \<Rightarrow> bool" and complete_ok :: "complete_request \<Rightarrow> 's \<Rightarrow> bool" +
  fixes part :: "'t \<Rightarrow> 's" and put :: "'s \<Rightarrow> 't \<Rightarrow> 't"
  assumes part_put [simp]: "part (put s t) = s"
begin

lemma at_part_result:
  "at_part part put f r t = (a, t') \<longleftrightarrow> (\<exists>s. f r (part t) = (a, s) \<and> t' = put s t)"
  by (auto simp: at_part_def split: prod.splits)

end

sublocale store_part \<subseteq> whole: idempotent_store "repository_at part put R" "\<lambda>t. invar (part t)" "\<lambda>t. ledger_of (part t)"
  claim_ok "\<lambda>r t. complete_ok r (part t)"
  by unfold_locales
    (auto simp: at_part_result dest: inner.claim_law inner.complete_law inner.release_law split: option.splits)

end
