(* ===== verification/Memory_Repository.thy ===== *)
theory Memory_Repository
  imports Repository
begin

text \<open>
  \<^verbatim>\<open>src/src/infrastructure/repositories/in-memory-transaction-repository.ts\<close>: the two maps of
  \<open>InMemoryTransactionRepository\<close> and its methods.  No method awaits anything, so each is one
  atomic step.  \<open>localeCompare\<close> is the collation of the runtime, the parameter
  \<open>locale_compare\<close>.
\<close>

section \<open>State and operations\<close>

record memory_repository =
  transactions_by_id :: "(string, transaction) js_map"
  operations :: "(string, idempotency_operation) js_map"

definition empty_memory :: memory_repository where
  "empty_memory = \<lparr>transactions_by_id = [], operations = []\<rparr>"

definition memory_claim :: "claim_request \<Rightarrow> memory_repository \<Rightarrow> claim_result result \<times> memory_repository" where
  "memory_claim r s =
     (case js_get (operations s) (claim_key r) of
        None \<Rightarrow>
          (Inr New_Claim,
           s\<lparr>operations := js_set (claim_key r)
               \<lparr>idempotency_key = claim_key r, request_fingerprint = claim_fingerprint r,
                operation_status = Processing, operation_transaction_id = None,
                operation_created_at = claimed_at r, updated_at = claimed_at r\<rparr> (operations s)\<rparr>)
      | Some existing \<Rightarrow>
          if request_fingerprint existing \<noteq> claim_fingerprint r then (Inr Fingerprint_Conflict, s)
          else if operation_status existing = Completed \<and> operation_transaction_id existing \<noteq> None then
            (case js_get (transactions_by_id s) (the (operation_transaction_id existing)) of
               None \<Rightarrow> (Inl (Plain_Error ''Completed idempotency operation has no transaction''), s)
             | Some t \<Rightarrow> (Inr (Completed_Replay t), s))
          else if updated_at existing \<le> stale_before r then
            (Inr New_Claim,
             s\<lparr>operations := js_set (claim_key r) (existing\<lparr>updated_at := claimed_at r\<rparr>) (operations s)\<rparr>)
          else (Inr Claim_Processing, s))"

definition memory_complete :: "complete_request \<Rightarrow> memory_repository \<Rightarrow> unit result \<times> memory_repository" where
  "memory_complete r s =
     (case js_get (operations s) (complete_key r) of
        None \<Rightarrow> (Inl (Plain_Error ''Idempotency operation cannot be completed''), s)
      | Some existing \<Rightarrow>
          if operation_status existing \<noteq> Processing \<or> request_fingerprint existing \<noteq> complete_fingerprint r
          then (Inl (Plain_Error ''Idempotency operation cannot be completed''), s)
          else
            (Inr (),
             s\<lparr>transactions_by_id := js_set (transaction_id (complete_transaction r)) (complete_transaction r)
                 (transactions_by_id s),
               operations := js_set (complete_key r)
                 (existing\<lparr>operation_status := Completed,
                           operation_transaction_id := Some (transaction_id (complete_transaction r)),
                           updated_at := completed_at r\<rparr>) (operations s)\<rparr>))"

definition memory_release :: "release_request \<Rightarrow> memory_repository \<Rightarrow> unit result \<times> memory_repository" where
  "memory_release r s =
     (case js_get (operations s) (release_key r) of
        None \<Rightarrow> (Inr (), s)
      | Some existing \<Rightarrow>
          if operation_status existing = Processing \<and> request_fingerprint existing = release_fingerprint r
          then (Inr (), s\<lparr>operations := js_delete (release_key r) (operations s)\<rparr>)
          else (Inr (), s))"

definition memory_find_by_id :: "string \<Rightarrow> memory_repository \<Rightarrow> transaction option result" where
  "memory_find_by_id i s = Inr (js_get (transactions_by_id s) i)"

text \<open>The comparator of \<open>list\<close>: newest first, then by id, the greater first.\<close>

definition newest_first :: "(string \<Rightarrow> string \<Rightarrow> int) \<Rightarrow> transaction \<Rightarrow> transaction \<Rightarrow> int" where
  "newest_first locale_compare left right =
     (let d = created_at right - created_at left
      in if d \<noteq> 0 then d else locale_compare (transaction_id right) (transaction_id left))"

definition memory_list ::
    "(string \<Rightarrow> string \<Rightarrow> int) \<Rightarrow> int \<Rightarrow> int \<Rightarrow> memory_repository \<Rightarrow> transaction list result" where
  "memory_list locale_compare offset limit s =
     Inr (js_slice offset (offset + limit)
       (js_sort (newest_first locale_compare) (js_values (transactions_by_id s))))"

definition memory_count :: "memory_repository \<Rightarrow> int result" where
  "memory_count s = Inr (int (length (transactions_by_id s)))"

definition in_memory_transaction_repository ::
    "(string \<Rightarrow> string \<Rightarrow> int) \<Rightarrow> memory_repository transaction_repository" where
  "in_memory_transaction_repository locale_compare =
     \<lparr>claim_idempotency_operation = memory_claim, complete_idempotency_operation = memory_complete,
      release_idempotency_operation = memory_release, find_by_id = memory_find_by_id,
      list_transactions = memory_list locale_compare, count_transactions = memory_count\<rparr>"

section \<open>Well-formed states and their ledger\<close>

definition operation_ok :: "memory_repository \<Rightarrow> string \<Rightarrow> idempotency_operation \<Rightarrow> bool" where
  "operation_ok s k opn \<longleftrightarrow>
     idempotency_key opn = k \<and>
     (case operation_status opn of
        Processing \<Rightarrow> operation_transaction_id opn = None
      | Completed \<Rightarrow> \<exists>i t. operation_transaction_id opn = Some i \<and> js_get (transactions_by_id s) i = Some t)"

definition memory_ok :: "memory_repository \<Rightarrow> bool" where
  "memory_ok s \<longleftrightarrow>
     js_map_ok (transactions_by_id s) \<and> js_map_ok (operations s) \<and>
     (\<forall>i t. js_get (transactions_by_id s) i = Some t \<longrightarrow> transaction_id t = i) \<and>
     (\<forall>k opn. js_get (operations s) k = Some opn \<longrightarrow> operation_ok s k opn)"

definition memory_entry :: "memory_repository \<Rightarrow> idempotency_operation \<Rightarrow> entry" where
  "memory_entry s opn =
     (case operation_status opn of
        Processing \<Rightarrow> Claimed (request_fingerprint opn) (updated_at opn)
      | Completed \<Rightarrow> Done (request_fingerprint opn)
          (the (js_get (transactions_by_id s) (the (operation_transaction_id opn)))))"

definition memory_ledger :: "memory_repository \<Rightarrow> ledger" where
  "memory_ledger s k = map_option (memory_entry s) (js_get (operations s) k)"

definition memory_complete_ok :: "complete_request \<Rightarrow> memory_repository \<Rightarrow> bool" where
  "memory_complete_ok r s \<longleftrightarrow> js_get (transactions_by_id s) (transaction_id (complete_transaction r)) = None"

lemma memory_ok_empty: "memory_ok empty_memory"
  by (simp add: memory_ok_def empty_memory_def)

lemma memory_okD:
  "memory_ok s \<Longrightarrow> js_get (operations s) k = Some opn \<Longrightarrow> operation_ok s k opn"
  by (simp add: memory_ok_def)

lemma memory_entry_operations [simp]: "memory_entry (s\<lparr>operations := m\<rparr>) = memory_entry s"
  by (rule ext) (simp add: memory_entry_def cong: operation_status.case_cong)

lemma operation_ok_operations [simp]: "operation_ok (s\<lparr>operations := m\<rparr>) = operation_ok s"
  by (intro ext) (simp add: operation_ok_def cong: operation_status.case_cong)

text \<open>Changing one operation record changes one entry of the ledger.\<close>

lemma memory_ledger_set:
  "memory_ledger (s\<lparr>operations := js_set k opn (operations s)\<rparr>) = (memory_ledger s)(k \<mapsto> memory_entry s opn)"
  by (rule ext) (simp add: memory_ledger_def)

lemma memory_ledger_delete:
  "memory_ledger (s\<lparr>operations := js_delete k (operations s)\<rparr>) = (memory_ledger s)(k := None)"
  by (rule ext) (simp add: memory_ledger_def)

lemma memory_ok_set_operation:
  "memory_ok s \<Longrightarrow> operation_ok s k opn \<Longrightarrow> memory_ok (s\<lparr>operations := js_set k opn (operations s)\<rparr>)"
  by (simp add: memory_ok_def)

lemma memory_claim_refines:
  assumes ok: "memory_ok s"
  shows "memory_ok (snd (memory_claim r s)) \<and>
    (\<exists>c. fst (memory_claim r s) = Inr c \<and> ledger_claim r (memory_ledger s) c (memory_ledger (snd (memory_claim r s))))"
proof (cases "js_get (operations s) (claim_key r)")
  case None
  then have "memory_ledger s (claim_key r) = None" by (simp add: memory_ledger_def)
  from ledger_claim.new [of "memory_ledger s" r, OF this] None ok show ?thesis
    by (auto simp: memory_claim_def memory_ledger_set memory_entry_def operation_ok_def
        intro!: memory_ok_set_operation)
next
  case (Some x)
  note wf = memory_okD [OF ok Some]
  from Some have L: "memory_ledger s (claim_key r) = Some (memory_entry s x)" by (simp add: memory_ledger_def)
  show ?thesis
  proof (cases "request_fingerprint x = claim_fingerprint r")
    case False
    then have "entry_fingerprint (memory_entry s x) \<noteq> claim_fingerprint r"
      by (simp add: memory_entry_def split: operation_status.splits)
    from ledger_claim.conflict [of "memory_ledger s" r, OF L this] Some False ok show ?thesis
      by (simp add: memory_claim_def)
  next
    case True
    show ?thesis
    proof (cases "operation_status x")
      case Processing
      with True L have L': "memory_ledger s (claim_key r) = Some (Claimed (claim_fingerprint r) (updated_at x))"
        by (simp add: memory_entry_def)
      have ok': "operation_ok s (claim_key r) (x\<lparr>updated_at := claimed_at r\<rparr>)"
        using wf Processing by (simp add: operation_ok_def)
      show ?thesis
        using ledger_claim.reclaim [of "memory_ledger s" r, OF L']
          ledger_claim.processing [of "memory_ledger s" r, OF L'] Some True Processing ok ok'
        by (auto simp: memory_claim_def memory_ledger_set memory_entry_def memory_ok_set_operation)
    next
      case Completed
      with wf obtain i t where t: "operation_transaction_id x = Some i" "js_get (transactions_by_id s) i = Some t"
        by (auto simp: operation_ok_def)
      with True Completed L have "memory_ledger s (claim_key r) = Some (Done (claim_fingerprint r) t)"
        by (simp add: memory_entry_def)
      from ledger_claim.replay [of "memory_ledger s" r, OF this] Some True Completed t ok show ?thesis
        by (simp add: memory_claim_def)
    qed
  qed
qed

text \<open>A transaction with a fresh id leaves every other entry alone.\<close>

lemma memory_insert_fresh:
  assumes "memory_ok s" "js_get (transactions_by_id s) (transaction_id t) = None" "js_get (operations s) k = Some x"
  shows "operation_ok (s\<lparr>transactions_by_id := js_set (transaction_id t) t (transactions_by_id s)\<rparr>) k x"
    "memory_entry (s\<lparr>transactions_by_id := js_set (transaction_id t) t (transactions_by_id s)\<rparr>) x = memory_entry s x"
  using memory_okD [OF assms(1,3)] assms(2)
  by (auto simp: operation_ok_def memory_entry_def split: operation_status.splits)

lemma memory_complete_refines:
  assumes ok: "memory_ok s" and fresh: "memory_complete_ok r s"
  shows "memory_ok (snd (memory_complete r s)) \<and>
    (case ledger_complete r (memory_ledger s) of
       None \<Rightarrow> (\<exists>e. fst (memory_complete r s) = Inl e) \<and> memory_ledger (snd (memory_complete r s)) = memory_ledger s
     | Some L \<Rightarrow> fst (memory_complete r s) = Inr () \<and> memory_ledger (snd (memory_complete r s)) = L)"
proof (cases "open_for (complete_key r) (complete_fingerprint r) (memory_ledger s)")
  case True
  then obtain x where x: "js_get (operations s) (complete_key r) = Some x" "operation_status x = Processing"
    "request_fingerprint x = complete_fingerprint r"
    by (auto simp: open_for_def memory_ledger_def memory_entry_def split: operation_status.splits)
  let ?t = "complete_transaction r"
  let ?s = "s\<lparr>transactions_by_id := js_set (transaction_id ?t) ?t (transactions_by_id s)\<rparr>"
  let ?x = "x\<lparr>operation_status := Completed, operation_transaction_id := Some (transaction_id ?t),
    updated_at := completed_at r\<rparr>"
  have res: "memory_complete r s = (Inr (), ?s\<lparr>operations := js_set (complete_key r) ?x (operations ?s)\<rparr>)"
    using x by (simp add: memory_complete_def)
  have new: "js_get (transactions_by_id s) (transaction_id ?t) = None" using fresh by (simp add: memory_complete_ok_def)
  note keep = memory_insert_fresh [OF ok new]
  have ok1: "memory_ok ?s" using ok keep(1) by (auto simp: memory_ok_def)
  have "idempotency_key x = complete_key r" using memory_okD [OF ok x(1)] by (simp add: operation_ok_def)
  then have "operation_ok ?s (complete_key r) ?x" by (simp add: operation_ok_def)
  with ok1 have ok2: "memory_ok (snd (memory_complete r s))"
    unfolding res snd_conv by (rule memory_ok_set_operation)
  have "memory_ledger ?s = memory_ledger s"
    using keep(2) by (auto simp: memory_ledger_def fun_eq_iff split: option.splits intro!: map_option_cong)
  moreover have "memory_entry ?s ?x = Done (complete_fingerprint r) ?t" using x by (simp add: memory_entry_def)
  ultimately have "memory_ledger (snd (memory_complete r s)) =
      (memory_ledger s)(complete_key r \<mapsto> Done (complete_fingerprint r) ?t)"
    unfolding res snd_conv by (simp only: memory_ledger_set)
  moreover have "ledger_complete r (memory_ledger s) =
      Some ((memory_ledger s)(complete_key r \<mapsto> Done (complete_fingerprint r) ?t))"
    using True by (simp add: ledger_complete_Some)
  moreover have "fst (memory_complete r s) = Inr ()" by (simp add: res)
  ultimately show ?thesis using ok2 by simp
next
  case False
  then have "ledger_complete r (memory_ledger s) = None"
    by (metis ledger_complete_Some not_None_eq)
  moreover have "memory_complete r s = (Inl (Plain_Error ''Idempotency operation cannot be completed''), s)"
    using False by (auto simp: memory_complete_def open_for_def memory_ledger_def memory_entry_def
        split: option.splits operation_status.splits)
  ultimately show ?thesis using ok by simp
qed

lemma memory_ok_delete_operation: "memory_ok s \<Longrightarrow> memory_ok (s\<lparr>operations := js_delete k (operations s)\<rparr>)"
  by (simp add: memory_ok_def)

lemma memory_release_refines:
  assumes "memory_ok s"
  shows "memory_ok (snd (memory_release r s)) \<and> fst (memory_release r s) = Inr () \<and>
    memory_ledger (snd (memory_release r s)) = ledger_release r (memory_ledger s)"
proof (cases "js_get (operations s) (release_key r)")
  case None
  then have "memory_ledger s (release_key r) = None" by (simp add: memory_ledger_def)
  then show ?thesis using assms None by (simp add: memory_release_def ledger_release_def)
next
  case (Some x)
  then have L: "memory_ledger s (release_key r) = Some (memory_entry s x)" by (simp add: memory_ledger_def)
  show ?thesis
    using assms Some L
    by (cases "operation_status x")
      (simp_all add: memory_release_def ledger_release_def memory_entry_def memory_ledger_delete memory_ok_delete_operation)
qed

lemma memory_claim_prompt:
  assumes "memory_claim r s = (Inr Claim_Processing, s')" "memory_ledger s (claim_key r) = Some (Claimed fp u)"
  shows "stale_before r < u"
  using assms by (auto simp: memory_claim_def memory_ledger_def memory_entry_def
      split: option.splits if_splits operation_status.splits)

interpretation memory: prompt_store
  "in_memory_transaction_repository locale_compare" memory_ok memory_ledger "\<lambda>_. True" memory_complete_ok
proof unfold_locales
  fix s s' :: memory_repository and r :: claim_request and a
  assume "memory_ok s" "claim_idempotency_operation (in_memory_transaction_repository locale_compare) r s = (a, s')"
  then show "memory_ok s' \<and> (\<exists>c. a = Inr c \<and> ledger_claim r (memory_ledger s) c (memory_ledger s'))"
    using memory_claim_refines [of s r] by (simp add: in_memory_transaction_repository_def)
next
  fix s s' :: memory_repository and r :: complete_request and a
  assume "memory_ok s" "memory_complete_ok r s"
    "complete_idempotency_operation (in_memory_transaction_repository locale_compare) r s = (a, s')"
  then show "memory_ok s' \<and> (case ledger_complete r (memory_ledger s) of
        None \<Rightarrow> (\<exists>e. a = Inl e) \<and> memory_ledger s' = memory_ledger s
      | Some L \<Rightarrow> a = Inr () \<and> memory_ledger s' = L)"
    using memory_complete_refines [of s r]
    by (auto simp: in_memory_transaction_repository_def split: option.splits)
next
  fix s s' :: memory_repository and r :: release_request and a
  assume "memory_ok s" "release_idempotency_operation (in_memory_transaction_repository locale_compare) r s = (a, s')"
  then show "memory_ok s' \<and> a = Inr () \<and> memory_ledger s' = ledger_release r (memory_ledger s)"
    using memory_release_refines [of s r] by (simp add: in_memory_transaction_repository_def)
next
  fix s s' :: memory_repository and r :: claim_request and fp u
  assume "claim_idempotency_operation (in_memory_transaction_repository locale_compare) r s = (Inr Claim_Processing, s')"
    "memory_ledger s (claim_key r) = Some (Claimed fp u)"
  then show "stale_before r < u"
    by (simp add: in_memory_transaction_repository_def memory_claim_prompt)
qed

section \<open>Properties\<close>

text \<open>
  C6: \<open>InMemoryTransactionRepository\<close> implements the ledger.  From a well-formed state every
  method keeps the state well formed; a claim answers and changes the ledger as the contract
  allows; a completion with a fresh transaction id succeeds exactly on an open claim of its key and
  fingerprint and then finishes it, and otherwise throws and changes nothing; a release removes
  exactly an open claim of its key and fingerprint.
\<close>
theorem memory_refines_ledger:
  assumes "memory_ok s"
  shows "(\<exists>c. fst (memory_claim cr s) = Inr c \<and>
       ledger_claim cr (memory_ledger s) c (memory_ledger (snd (memory_claim cr s)))) \<and>
    memory_ok (snd (memory_claim cr s)) \<and>
    (memory_complete_ok fr s \<longrightarrow> memory_ok (snd (memory_complete fr s)) \<and>
      (case ledger_complete fr (memory_ledger s) of
         None \<Rightarrow> (\<exists>e. fst (memory_complete fr s) = Inl e) \<and> memory_ledger (snd (memory_complete fr s)) = memory_ledger s
       | Some L \<Rightarrow> fst (memory_complete fr s) = Inr () \<and> memory_ledger (snd (memory_complete fr s)) = L)) \<and>
    memory_ok (snd (memory_release rr s)) \<and>
    memory_ledger (snd (memory_release rr s)) = ledger_release rr (memory_ledger s)"
  using memory_claim_refines [OF assms] memory_complete_refines [OF assms] memory_release_refines [OF assms]
  by blast

definition sample_claim :: claim_request where
  "sample_claim = \<lparr>claim_key = ''k1'', claim_fingerprint = ''f1'', claimed_at = 1000, stale_before = - 29000\<rparr>"

definition sample_transaction :: transaction where
  "sample_transaction = \<lparr>amount = 1099, currency = ''BRL'', description = ''order'', transaction_id = ''t1'',
     provider_transaction_id = ''p1'', transaction_status = Approved, created_at = 1500\<rparr>"

definition sample_complete :: complete_request where
  "sample_complete = \<lparr>complete_key = ''k1'', complete_fingerprint = ''f1'',
     complete_transaction = sample_transaction, completed_at = 1600\<rparr>"

lemmas sample_defs = sample_claim_def sample_transaction_def sample_complete_def

theorem memory_refines_ledger_witness:
  "memory_ok (snd (memory_claim sample_claim empty_memory)) \<and>
   ledger_claim sample_claim (memory_ledger empty_memory) New_Claim
     (memory_ledger (snd (memory_claim sample_claim empty_memory)))"
  using memory_refines_ledger [OF memory_ok_empty, of sample_claim]
  by (simp add: memory_claim_def empty_memory_def)



end
