(* ===== verification/Js_Parse.thy ===== *)
theory Js_Parse
  imports Js_String Js_Number
begin

text \<open>
  \<open>Number(string)\<close>: the numeric value of a string, by ECMAScript's StringNumericLiteral (trimmed;
  empty is zero; \<open>Infinity\<close>; decimal literals with fraction and exponent; \<open>0x\<close>, \<open>0o\<close>, \<open>0b\<close>;
  anything else NaN), rounded to binary64.
\<close>

definition exponent_part :: "string \<Rightarrow> int option" where
  "exponent_part s =
     (case s of
        [] \<Rightarrow> Some 0
      | c # r \<Rightarrow>
          if c = CHR ''e'' \<or> c = CHR ''E'' then
            (case r of
               [] \<Rightarrow> None
             | d # q \<Rightarrow>
                 let (neg, ds) = (if d = CHR ''-'' then (True, q) else if d = CHR ''+'' then (False, q) else (False, r))
                 in if ds = [] \<or> \<not> list_all is_digit ds then None
                    else Some (if neg then - int (digits_value ds) else int (digits_value ds)))
          else None)"

definition decimal_literal :: "string \<Rightarrow> rat option" where
  "decimal_literal s =
     (let ip = takeWhile is_digit s;
          r = dropWhile is_digit s;
          (fp, q) = (case r of
             c # t \<Rightarrow> if c = CHR ''.'' then (takeWhile is_digit t, dropWhile is_digit t) else ([], r)
           | [] \<Rightarrow> ([], r))
      in if ip @ fp = [] then None
         else map_option (\<lambda>e. of_nat (digits_value (ip @ fp)) * 10 powi (e - int (length fp))) (exponent_part q))"

definition radix_digit :: "nat \<Rightarrow> char \<Rightarrow> nat option" where
  "radix_digit base c =
     (let c' = lower_char c;
          d = (if is_digit c' then Some (code c' - 48)
               else if 97 \<le> code c' \<and> code c' \<le> 102 then Some (code c' - 87) else None)
      in case d of None \<Rightarrow> None | Some v \<Rightarrow> if v < base then Some v else None)"

definition radix_literal :: "nat \<Rightarrow> string \<Rightarrow> rat option" where
  "radix_literal base s =
     (if s = [] \<or> \<not> list_all (\<lambda>c. radix_digit base c \<noteq> None) s then None
      else Some (of_nat (foldl (\<lambda>a c. base * a + the (radix_digit base c)) 0 s)))"

definition unsigned_literal :: "string \<Rightarrow> js_number option" where
  "unsigned_literal s =
     (if s = ''Infinity'' then Some Infinity else map_option to_double (decimal_literal s))"

definition radix_value :: "nat \<Rightarrow> string \<Rightarrow> js_number" where
  "radix_value base s = (case radix_literal base s of None \<Rightarrow> NaN | Some v \<Rightarrow> to_double v)"

definition unsigned_value :: "string \<Rightarrow> js_number" where
  "unsigned_value s = (case unsigned_literal s of None \<Rightarrow> NaN | Some v \<Rightarrow> v)"

definition string_to_number :: "string \<Rightarrow> js_number" where
  "string_to_number str =
     (let s = js_trim str; prefix = take 2 s; rest = drop 2 s in
      if s = [] then js_int 0
      else if prefix = ''0x'' \<or> prefix = ''0X'' then radix_value 16 rest
      else if prefix = ''0o'' \<or> prefix = ''0O'' then radix_value 8 rest
      else if prefix = ''0b'' \<or> prefix = ''0B'' then radix_value 2 rest
      else if hd s = CHR ''-'' then js_neg (unsigned_value (tl s))
      else if hd s = CHR ''+'' then unsigned_value (tl s)
      else unsigned_value s)"

section \<open>Decimal numerals read back\<close>

lemma is_digit_code: "is_digit c \<longleftrightarrow> 48 \<le> code c \<and> code c \<le> 57"
  by (simp add: is_digit_def code_def)

lemma digit_not_space: "is_digit c \<Longrightarrow> \<not> is_js_space c"
  by (auto simp: is_digit_code is_js_space_def)

lemma digits_trim: "list_all is_digit s \<Longrightarrow> js_trim s = s"
  by (rule js_trim_id) (auto simp: list_all_iff dest: digit_not_space)

lemma decimal_literal_digits:
  assumes "list_all is_digit s" "s \<noteq> []"
  shows "decimal_literal s = Some (of_nat (digits_value s))"
proof -
  have tw: "takeWhile is_digit s = s" "dropWhile is_digit s = []"
    using assms(1) by (simp_all add: list_all_iff)
  show ?thesis using assms(2) by (simp add: decimal_literal_def exponent_part_def Let_def tw)
qed

lemma not_digits:
  "\<not> is_digit CHR ''I''" "\<not> is_digit CHR ''-''" "\<not> is_digit CHR ''+''" "\<not> is_digit CHR ''x''" "\<not> is_digit CHR ''X''"
  "\<not> is_digit CHR ''o''" "\<not> is_digit CHR ''O''" "\<not> is_digit CHR ''b''" "\<not> is_digit CHR ''B''"
  by (simp_all add: is_digit_def)

lemma unsigned_literal_digits:
  assumes "list_all is_digit s" "s \<noteq> []"
  shows "unsigned_literal s = Some (to_double (of_nat (digits_value s)))"
proof -
  have "s \<noteq> ''Infinity''" using assms(1) not_digits by auto
  then show ?thesis using assms by (simp add: unsigned_literal_def decimal_literal_digits)
qed

lemma string_to_number_digits:
  assumes "list_all is_digit s" "s \<noteq> []"
  shows "string_to_number s = to_double (of_nat (digits_value s))"
proof -
  have "\<forall>c \<in> set (take 2 s). is_digit c" using assms(1) by (auto simp: list_all_iff dest: in_set_takeD)
  then have "take 2 s \<noteq> [a, b]" if "\<not> is_digit b" for a b using that by (metis list.set_intros(1,2))
  moreover have "is_digit (hd s)" using assms by (cases s) auto
  then have "hd s \<noteq> CHR ''-''" "hd s \<noteq> CHR ''+''" using not_digits by auto
  ultimately show ?thesis
    using assms not_digits
    by (simp add: string_to_number_def digits_trim Let_def unsigned_value_def unsigned_literal_digits)
qed

text \<open>\<open>Number(String(n))\<close> is \<open>n\<close> for a safe integer.\<close>

lemma decimal_literal_nat_digits: "string_to_number (nat_digits n) = to_double (of_nat n)"
  using string_to_number_digits [of "nat_digits n"] nat_digits_all [of n]
  by (simp add: list_all_iff nat_digits_nonempty)

lemma js_neg_js_int [simp]: "js_neg (js_int n) = js_int (- n)"
  by (simp add: js_int_def)

lemma string_to_number_decimal:
  assumes "\<bar>n\<bar> \<le> max_safe_integer"
  shows "string_to_number (js_decimal n) = js_int n"
proof (cases "n < 0")
  case False
  then have "(of_nat (nat n) :: rat) = of_int n" by simp
  with False assms show ?thesis
    by (simp add: js_decimal_def decimal_literal_nat_digits to_double_of_int)
next
  case True
  let ?d = "nat_digits (nat (- n))"
  have d: "list_all is_digit ?d" "?d \<noteq> []" using nat_digits_all by (auto simp: list_all_iff nat_digits_nonempty)
  have "\<not> is_js_space CHR ''-''" by (simp add: is_js_space_def code_def)
  moreover have "\<not> is_js_space (last (CHR ''-'' # ?d))"
    using d nat_digits_all [of "nat (- n)"] by (auto dest: digit_not_space)
  ultimately have t: "js_trim (CHR ''-'' # ?d) = CHR ''-'' # ?d" by (intro js_trim_id) auto
  have "(of_nat (nat (- n)) :: rat) = of_int (- n)" using True by simp
  then have "unsigned_value ?d = js_int (- n)"
    using unsigned_literal_digits [OF d] to_double_of_int [of "- n"] assms by (simp add: unsigned_value_def)
  then show ?thesis using True by (simp add: js_decimal_def string_to_number_def t Let_def)
qed

end
