(* ===== verification/Postgres_Repository.thy ===== *)
theory Postgres_Repository
  imports Repository Memory_Repository Js_Parse Json
begin

text \<open>
  \<^verbatim>\<open>src/src/infrastructure/repositories/postgres-transaction-repository.ts\<close> over the tables of
  \<^verbatim>\<open>src/migrations/001_create_transactions_and_idempotency_operations.sql\<close>.  The database is
  the contents of the two tables; each SQL text of the source is one atomic statement on it, with
  the constraints of the migration; \<open>sql.begin\<close> commits all its statements or none.  A claim is a
  sequence of statements between which other sessions run, so it is a machine that performs one
  statement per step.

  How the driver hands over a \<open>BIGINT\<close> (a number or a numeral) and a \<open>TIMESTAMPTZ\<close> (a Date or a
  text), and how a text is read as a Date, are the parameter \<open>driver\<close>.
\<close>

section \<open>Rows as the driver returns them\<close>

datatype sql_number = Sql_Number js_number | Sql_Text string
datatype sql_date = Sql_Date int | Sql_Date_Text string

record driver =
  number_of_bigint :: "int \<Rightarrow> sql_number"
  date_of_timestamptz :: "int \<Rightarrow> sql_date"
  parse_date :: "string \<Rightarrow> int"

record transaction_row =
  row_id :: string
  row_amount :: sql_number
  row_currency :: string
  row_description :: string
  row_provider_transaction_id :: string
  row_status :: transaction_status
  row_created_at :: sql_date

record operation_row =
  op_request_fingerprint :: string
  op_operation_status :: operation_status
  op_transaction_id :: "string option"
  op_id :: "string option"
  op_amount :: "sql_number option"
  op_currency :: "string option"
  op_description :: "string option"
  op_provider_transaction_id :: "string option"
  op_transaction_status :: "transaction_status option"
  op_transaction_created_at :: "sql_date option"

definition to_date :: "driver \<Rightarrow> sql_date \<Rightarrow> int" where
  "to_date drv v = (case v of Sql_Date d \<Rightarrow> d | Sql_Date_Text s \<Rightarrow> parse_date drv s)"

definition to_safe_number :: "sql_number \<Rightarrow> int result" where
  "to_safe_number v =
     (let parsed = (case v of Sql_Number x \<Rightarrow> x | Sql_Text s \<Rightarrow> string_to_number s)
      in if \<not> is_safe_integer parsed then Inl (Plain_Error ''Database returned an unsafe transaction amount'')
         else Inr (integer_of parsed))"

definition map_transaction :: "driver \<Rightarrow> transaction_row \<Rightarrow> transaction result" where
  "map_transaction drv row =
     r_bind (to_safe_number (row_amount row)) (\<lambda>a. Inr
       \<lparr>amount = a, currency = row_currency row, description = row_description row,
        transaction_id = row_id row, provider_transaction_id = row_provider_transaction_id row,
        transaction_status = row_status row, created_at = to_date drv (row_created_at row)\<rparr>)"

definition map_completed_operation :: "driver \<Rightarrow> operation_row \<Rightarrow> transaction result" where
  "map_completed_operation drv row =
     (case (op_id row, op_amount row, op_currency row, op_description row,
            op_provider_transaction_id row, op_transaction_status row, op_transaction_created_at row) of
        (Some i, Some a, Some c, Some d, Some p, Some st, Some cr) \<Rightarrow>
          map_transaction drv
            \<lparr>row_id = i, row_amount = a, row_currency = c, row_description = d,
             row_provider_transaction_id = p, row_status = st, row_created_at = cr\<rparr>
      | _ \<Rightarrow> Inl (Plain_Error ''Completed idempotency operation has no transaction''))"

fun map_rows :: "driver \<Rightarrow> transaction_row list \<Rightarrow> transaction list result" where
  "map_rows drv [] = Inr []"
| "map_rows drv (r # rs) = r_bind (map_transaction drv r) (\<lambda>t. r_bind (map_rows drv rs) (\<lambda>ts. Inr (t # ts)))"

section \<open>The tables\<close>

record database =
  transactions_table :: "(string, transaction) js_map"
  operations_table :: "(string, idempotency_operation) js_map"

definition empty_database :: database where
  "empty_database = \<lparr>transactions_table = [], operations_table = []\<rparr>"

definition is_hex :: "char \<Rightarrow> bool" where
  "is_hex c \<longleftrightarrow> hex_value c \<noteq> None"

text \<open>The text of a UUID: groups of 8, 4, 4, 4 and 12 hexadecimal digits.\<close>

definition is_uuid :: "string \<Rightarrow> bool" where
  "is_uuid s \<longleftrightarrow>
     (case js_split (CHR ''-'') s of
        [a, b, c, d, e] \<Rightarrow> map length [a, b, c, d, e] = [8, 4, 4, 4, 12] \<and> list_all is_hex (a @ b @ c @ d @ e)
      | _ \<Rightarrow> False)"

definition is_lower_hex_char :: "char \<Rightarrow> bool" where
  "is_lower_hex_char c \<longleftrightarrow> (48 \<le> code c \<and> code c \<le> 57) \<or> (97 \<le> code c \<and> code c \<le> 102)"

definition is_upper_letter :: "char \<Rightarrow> bool" where
  "is_upper_letter c \<longleftrightarrow> 65 \<le> code c \<and> code c \<le> 90"

text \<open>The \<open>CHECK\<close>s of \<open>transactions\<close>; \<open>btrim\<close> strips spaces.\<close>

definition transaction_row_ok :: "transaction \<Rightarrow> bool" where
  "transaction_row_ok t \<longleftrightarrow>
     is_uuid (transaction_id t) \<and>
     0 < amount t \<and> amount t \<le> 9007199254740991 \<and>
     length (currency t) = 3 \<and> list_all is_upper_letter (currency t) \<and>
     1 \<le> length (description t) \<and> length (description t) \<le> 200 \<and>
     hd (description t) \<noteq> CHR '' '' \<and> last (description t) \<noteq> CHR '' '' \<and>
     transaction_status t = Approved \<and>
     0 < length (provider_transaction_id t)"

definition operation_row_ok :: "idempotency_operation \<Rightarrow> bool" where
  "operation_row_ok opn \<longleftrightarrow>
     length (idempotency_key opn) \<le> 128 \<and>
     length (request_fingerprint opn) = 64 \<and> list_all is_lower_hex_char (request_fingerprint opn) \<and>
     (operation_status opn = Processing \<and> operation_transaction_id opn = None \<or>
      operation_status opn = Completed \<and> operation_transaction_id opn \<noteq> None) \<and>
     operation_created_at opn \<le> updated_at opn"

text \<open>What a statement that breaks a constraint throws.\<close>

definition sql_error :: error where
  "sql_error = Plain_Error ''PostgresError''"

section \<open>Statements\<close>

text \<open>\<open>INSERT ... ON CONFLICT DO NOTHING RETURNING\<close>: whether a row was inserted.\<close>

definition sql_insert_operation :: "claim_request \<Rightarrow> database \<Rightarrow> bool result \<times> database" where
  "sql_insert_operation r db =
     (let row = \<lparr>idempotency_key = claim_key r, request_fingerprint = claim_fingerprint r,
                 operation_status = Processing, operation_transaction_id = None,
                 operation_created_at = claimed_at r, updated_at = claimed_at r\<rparr>
      in if \<not> operation_row_ok row then (Inl sql_error, db)
         else if js_get (operations_table db) (claim_key r) \<noteq> None then (Inr False, db)
         else (Inr True, db\<lparr>operations_table := js_set (claim_key r) row (operations_table db)\<rparr>))"

text \<open>The conditional \<open>UPDATE\<close> that takes a stale claim over.\<close>

definition sql_reclaim_operation :: "claim_request \<Rightarrow> database \<Rightarrow> bool result \<times> database" where
  "sql_reclaim_operation r db =
     (case js_get (operations_table db) (claim_key r) of
        None \<Rightarrow> (Inr False, db)
      | Some x \<Rightarrow>
          if request_fingerprint x = claim_fingerprint r \<and> operation_status x = Processing \<and>
             updated_at x \<le> stale_before r
          then (let x' = x\<lparr>updated_at := claimed_at r\<rparr>
                in if \<not> operation_row_ok x' then (Inl sql_error, db)
                   else (Inr True, db\<lparr>operations_table := js_set (claim_key r) x' (operations_table db)\<rparr>))
          else (Inr False, db))"

text \<open>The \<open>LEFT JOIN\<close> of an operation with its transaction.\<close>

definition sql_select_operation :: "driver \<Rightarrow> string \<Rightarrow> database \<Rightarrow> operation_row option" where
  "sql_select_operation drv key db =
     map_option (\<lambda>x.
       let t = Option.bind (operation_transaction_id x) (js_get (transactions_table db)) in
       \<lparr>op_request_fingerprint = request_fingerprint x, op_operation_status = operation_status x,
        op_transaction_id = operation_transaction_id x,
        op_id = map_option transaction_id t,
        op_amount = map_option (\<lambda>t. number_of_bigint drv (amount t)) t,
        op_currency = map_option currency t, op_description = map_option description t,
        op_provider_transaction_id = map_option provider_transaction_id t,
        op_transaction_status = map_option transaction_status t,
        op_transaction_created_at = map_option (\<lambda>t. date_of_timestamptz drv (created_at t)) t\<rparr>)
       (js_get (operations_table db) key)"

definition sql_insert_transaction :: "transaction \<Rightarrow> database \<Rightarrow> database result" where
  "sql_insert_transaction t db =
     (if \<not> transaction_row_ok t \<or> js_get (transactions_table db) (to_lower (transaction_id t)) \<noteq> None
      then Inl sql_error
      else Inr (db\<lparr>transactions_table := js_set (to_lower (transaction_id t))
                    (t\<lparr>transaction_id := to_lower (transaction_id t)\<rparr>) (transactions_table db)\<rparr>))"

text \<open>
  The \<open>UPDATE\<close> of a completion: how many rows it changed, or an error when the new row breaks a
  \<open>CHECK\<close>, the foreign key or the uniqueness of \<open>transaction_id\<close>.
\<close>

definition sql_complete_operation :: "complete_request \<Rightarrow> database \<Rightarrow> (nat \<times> database) result" where
  "sql_complete_operation r db =
     (case js_get (operations_table db) (complete_key r) of
        None \<Rightarrow> Inr (0, db)
      | Some x \<Rightarrow>
          if request_fingerprint x = complete_fingerprint r \<and> operation_status x = Processing
          then (let i = to_lower (transaction_id (complete_transaction r));
                    x' = x\<lparr>operation_status := Completed, operation_transaction_id := Some i,
                           updated_at := completed_at r\<rparr>
                in if \<not> operation_row_ok x' \<or> js_get (transactions_table db) i = None \<or>
                      list_ex (\<lambda>y. operation_transaction_id y = Some i) (js_values (operations_table db))
                   then Inl sql_error
                   else Inr (1, db\<lparr>operations_table := js_set (complete_key r) x' (operations_table db)\<rparr>))
          else Inr (0, db))"

section \<open>Methods\<close>

text \<open>The machine of \<open>claimIdempotencyOperation\<close>: the statement it performs next, in which attempt.\<close>

datatype claim_phase =
    Try_Insert nat
  | Try_Reclaim nat
  | Try_Select nat
  | Answered "claim_result result"

definition answer_row :: "driver \<Rightarrow> claim_request \<Rightarrow> operation_row \<Rightarrow> claim_result result" where
  "answer_row drv r row =
     (if op_request_fingerprint row \<noteq> claim_fingerprint r then Inr Fingerprint_Conflict
      else if op_operation_status row = Completed
      then r_bind (map_completed_operation drv row) (\<lambda>t. Inr (Completed_Replay t))
      else Inr Claim_Processing)"

fun claim_step :: "driver \<Rightarrow> claim_request \<Rightarrow> claim_phase \<Rightarrow> database \<Rightarrow> claim_phase \<times> database" where
  "claim_step drv r (Try_Insert attempt) db =
     (if \<not> attempt < 2 then (Answered (Inl (Plain_Error ''Idempotency operation changed during claim'')), db)
      else (case sql_insert_operation r db of
              (Inl e, db') \<Rightarrow> (Answered (Inl e), db')
            | (Inr inserted, db') \<Rightarrow> (if inserted then Answered (Inr New_Claim) else Try_Reclaim attempt, db')))"
| "claim_step drv r (Try_Reclaim attempt) db =
     (case sql_reclaim_operation r db of
        (Inl e, db') \<Rightarrow> (Answered (Inl e), db')
      | (Inr reclaimed, db') \<Rightarrow> (if reclaimed then Answered (Inr New_Claim) else Try_Select attempt, db'))"
| "claim_step drv r (Try_Select attempt) db =
     (case sql_select_operation drv (claim_key r) db of
        None \<Rightarrow> (Try_Insert (attempt + 1), db)
      | Some row \<Rightarrow> (Answered (answer_row drv r row), db))"
| "claim_step drv r (Answered a) db = (Answered a, db)"

fun phase_rank :: "claim_phase \<Rightarrow> nat" where
  "phase_rank (Try_Insert a) = 3 * (2 - a) + 1"
| "phase_rank (Try_Reclaim a) = 3 * (2 - (a + 1)) + 3"
| "phase_rank (Try_Select a) = 3 * (2 - (a + 1)) + 2"
| "phase_rank (Answered _) = 0"

lemma claim_step_rank:
  "0 < phase_rank ph \<Longrightarrow> phase_rank (fst (claim_step drv r ph db)) < phase_rank ph"
  by (cases ph) (auto split: if_splits prod.splits sum.splits option.splits)

lemma claim_step_rank_less:
  "claim_step drv r ph db = (ph', db') \<Longrightarrow> 0 < phase_rank ph \<Longrightarrow> phase_rank ph' < phase_rank ph"
  using claim_step_rank [of ph drv r db] by simp

text \<open>The claim with no other session in between: steps until it has answered.\<close>

function claim_run :: "driver \<Rightarrow> claim_request \<Rightarrow> claim_phase \<Rightarrow> database \<Rightarrow> claim_result result \<times> database" where
  "claim_run drv r ph db =
     (case ph of
        Answered a \<Rightarrow> (a, db)
      | _ \<Rightarrow> (case claim_step drv r ph db of (ph', db') \<Rightarrow> claim_run drv r ph' db'))"
  by pat_completeness auto
termination
proof (relation "measure (\<lambda>(drv, r, ph, db). phase_rank ph)")
qed (auto simp del: claim_step.simps dest!: claim_step_rank_less split: prod.splits)

declare claim_run.simps [simp del]

definition postgres_claim :: "driver \<Rightarrow> claim_request \<Rightarrow> database \<Rightarrow> claim_result result \<times> database" where
  "postgres_claim drv r db = claim_run drv r (Try_Insert 0) db"

definition postgres_complete :: "complete_request \<Rightarrow> database \<Rightarrow> unit result \<times> database" where
  "postgres_complete r db =
     (case sql_insert_transaction (complete_transaction r) db of
        Inl e \<Rightarrow> (Inl e, db)
      | Inr db1 \<Rightarrow>
          (case sql_complete_operation r db1 of
             Inl e \<Rightarrow> (Inl e, db)
           | Inr (completed, db2) \<Rightarrow>
               if completed \<noteq> 1 then (Inl (Plain_Error ''Idempotency operation cannot be completed''), db)
               else (Inr (), db2)))"

definition postgres_release :: "release_request \<Rightarrow> database \<Rightarrow> unit result \<times> database" where
  "postgres_release r db =
     (case js_get (operations_table db) (release_key r) of
        None \<Rightarrow> (Inr (), db)
      | Some x \<Rightarrow>
          if request_fingerprint x = release_fingerprint r \<and> operation_status x = Processing
          then (Inr (), db\<lparr>operations_table := js_delete (release_key r) (operations_table db)\<rparr>)
          else (Inr (), db))"

definition transaction_row_of :: "driver \<Rightarrow> transaction \<Rightarrow> transaction_row" where
  "transaction_row_of drv t =
     \<lparr>row_id = transaction_id t, row_amount = number_of_bigint drv (amount t), row_currency = currency t,
      row_description = description t, row_provider_transaction_id = provider_transaction_id t,
      row_status = transaction_status t, row_created_at = date_of_timestamptz drv (created_at t)\<rparr>"

definition postgres_find_by_id :: "driver \<Rightarrow> string \<Rightarrow> database \<Rightarrow> transaction option result" where
  "postgres_find_by_id drv i db =
     (if \<not> is_uuid i then Inl sql_error
      else (case js_get (transactions_table db) (to_lower i) of
              None \<Rightarrow> Inr None
            | Some t \<Rightarrow> r_bind (map_transaction drv (transaction_row_of drv t)) (\<lambda>t. Inr (Some t))))"

text \<open>\<open>ORDER BY created_at DESC, id DESC\<close>; UUIDs are ordered by their digits.\<close>

fun code_compare :: "string \<Rightarrow> string \<Rightarrow> int" where
  "code_compare [] [] = 0"
| "code_compare [] (d # t) = - 1"
| "code_compare (c # s) [] = 1"
| "code_compare (c # s) (d # t) =
     (if code c < code d then - 1 else if code d < code c then 1 else code_compare s t)"

definition postgres_list :: "driver \<Rightarrow> int \<Rightarrow> int \<Rightarrow> database \<Rightarrow> transaction list result" where
  "postgres_list drv offset limit db =
     (if offset < 0 \<or> limit < 0 then Inl sql_error
      else map_rows drv (map (transaction_row_of drv)
        (take (nat limit) (drop (nat offset)
          (js_sort (newest_first code_compare) (js_values (transactions_table db)))))))"

definition postgres_count :: "driver \<Rightarrow> database \<Rightarrow> int result" where
  "postgres_count drv db = to_safe_number (number_of_bigint drv (int (length (transactions_table db))))"

definition postgres_transaction_repository :: "driver \<Rightarrow> database transaction_repository" where
  "postgres_transaction_repository drv =
     \<lparr>claim_idempotency_operation = postgres_claim drv, complete_idempotency_operation = postgres_complete,
      release_idempotency_operation = postgres_release, find_by_id = postgres_find_by_id drv,
      list_transactions = postgres_list drv, count_transactions = postgres_count drv\<rparr>"

section \<open>What the driver is relied on for\<close>

text \<open>
  A \<open>BIGINT\<close> arrives as a number or as its decimal numeral, a \<open>TIMESTAMPTZ\<close> as the instant
  that was written or as a text that reads back as it.
\<close>

definition driver_ok :: "driver \<Rightarrow> bool" where
  "driver_ok drv \<longleftrightarrow>
     (\<forall>n. number_of_bigint drv n = Sql_Number (js_int n) \<or> number_of_bigint drv n = Sql_Text (js_decimal n)) \<and>
     (\<forall>d. to_date drv (date_of_timestamptz drv d) = d)"

lemma to_safe_number_bigint:
  assumes "driver_ok drv" "\<bar>n\<bar> \<le> max_safe_integer"
  shows "to_safe_number (number_of_bigint drv n) = Inr n"
proof -
  from assms(1) consider "number_of_bigint drv n = Sql_Number (js_int n)"
    | "number_of_bigint drv n = Sql_Text (js_decimal n)"
    unfolding driver_ok_def by blast
  then show ?thesis
    using assms(2) by cases (simp_all add: to_safe_number_def string_to_number_decimal)
qed

lemma map_transaction_row:
  assumes "driver_ok drv" "transaction_row_ok t"
  shows "map_transaction drv (transaction_row_of drv t) = Inr t"
proof -
  have "\<bar>amount t\<bar> \<le> max_safe_integer" using assms(2) by (simp add: transaction_row_ok_def max_safe_integer_def)
  with assms(1) show ?thesis
    by (simp add: map_transaction_def transaction_row_of_def to_safe_number_bigint driver_ok_def)
qed

lemma map_rows_ok:
  "driver_ok drv \<Longrightarrow> \<forall>t \<in> set ts. transaction_row_ok t \<Longrightarrow>
    map_rows drv (map (transaction_row_of drv) ts) = Inr ts"
  by (induction ts) (simp_all add: map_transaction_row)

section \<open>Well-formed databases and their ledger\<close>

definition db_operation_ok :: "database \<Rightarrow> string \<Rightarrow> idempotency_operation \<Rightarrow> bool" where
  "db_operation_ok db k x \<longleftrightarrow>
     idempotency_key x = k \<and> operation_row_ok x \<and>
     (\<forall>i. operation_transaction_id x = Some i \<longrightarrow> js_get (transactions_table db) i \<noteq> None)"

definition db_ok :: "database \<Rightarrow> bool" where
  "db_ok db \<longleftrightarrow>
     js_map_ok (transactions_table db) \<and> js_map_ok (operations_table db) \<and>
     (\<forall>i t. js_get (transactions_table db) i = Some t \<longrightarrow>
        transaction_row_ok t \<and> transaction_id t = i \<and> to_lower i = i) \<and>
     (\<forall>k x. js_get (operations_table db) k = Some x \<longrightarrow> db_operation_ok db k x) \<and>
     (\<forall>k k' x x' i. js_get (operations_table db) k = Some x \<longrightarrow> js_get (operations_table db) k' = Some x' \<longrightarrow>
        operation_transaction_id x = Some i \<longrightarrow> operation_transaction_id x' = Some i \<longrightarrow> k = k')"

definition db_entry :: "database \<Rightarrow> idempotency_operation \<Rightarrow> entry" where
  "db_entry db x =
     (case operation_status x of
        Processing \<Rightarrow> Claimed (request_fingerprint x) (updated_at x)
      | Completed \<Rightarrow> Done (request_fingerprint x)
          (the (js_get (transactions_table db) (the (operation_transaction_id x)))))"

definition db_ledger :: "database \<Rightarrow> ledger" where
  "db_ledger db k = map_option (db_entry db) (js_get (operations_table db) k)"

text \<open>
  The requests the service makes: a valid key and fingerprint, a lease that ends no later than
  now; a transaction that fits the table, under a new lower-case UUID, completed no earlier than
  it was first claimed.
\<close>

definition db_claim_ok :: "claim_request \<Rightarrow> bool" where
  "db_claim_ok r \<longleftrightarrow>
     length (claim_key r) \<le> 128 \<and> length (claim_fingerprint r) = 64 \<and>
     list_all is_lower_hex_char (claim_fingerprint r) \<and> stale_before r \<le> claimed_at r"

definition db_complete_ok :: "complete_request \<Rightarrow> database \<Rightarrow> bool" where
  "db_complete_ok r db \<longleftrightarrow>
     transaction_row_ok (complete_transaction r) \<and>
     to_lower (transaction_id (complete_transaction r)) = transaction_id (complete_transaction r) \<and>
     js_get (transactions_table db) (transaction_id (complete_transaction r)) = None \<and>
     (case js_get (operations_table db) (complete_key r) of
        None \<Rightarrow> True | Some x \<Rightarrow> operation_created_at x \<le> completed_at r)"

lemma db_complete_ok_iff:
  "db_complete_ok r db \<longleftrightarrow>
     transaction_row_ok (complete_transaction r) \<and>
     to_lower (transaction_id (complete_transaction r)) = transaction_id (complete_transaction r) \<and>
     js_get (transactions_table db) (transaction_id (complete_transaction r)) = None \<and>
     (\<forall>x. js_get (operations_table db) (complete_key r) = Some x \<longrightarrow> operation_created_at x \<le> completed_at r)"
  by (auto simp: db_complete_ok_def split: option.splits)

lemma db_ok_empty: "db_ok empty_database"
  by (simp add: db_ok_def empty_database_def)

lemma db_okD: "db_ok db \<Longrightarrow> js_get (operations_table db) k = Some x \<Longrightarrow> db_operation_ok db k x"
  by (simp add: db_ok_def)

lemma db_ok_transaction:
  "db_ok db \<Longrightarrow> js_get (transactions_table db) i = Some t \<Longrightarrow> transaction_row_ok t \<and> transaction_id t = i \<and> to_lower i = i"
  by (simp add: db_ok_def)

lemma db_entry_operations [simp]: "db_entry (db\<lparr>operations_table := m\<rparr>) = db_entry db"
  by (rule ext) (simp add: db_entry_def cong: operation_status.case_cong)

lemma db_operation_ok_operations [simp]: "db_operation_ok (db\<lparr>operations_table := m\<rparr>) = db_operation_ok db"
  by (intro ext) (simp add: db_operation_ok_def)

lemma db_ledger_set:
  "db_ledger (db\<lparr>operations_table := js_set k x (operations_table db)\<rparr>) = (db_ledger db)(k \<mapsto> db_entry db x)"
  by (rule ext) (simp add: db_ledger_def)

lemma db_ledger_delete:
  "db_ledger (db\<lparr>operations_table := js_delete k (operations_table db)\<rparr>) = (db_ledger db)(k := None)"
  by (rule ext) (simp add: db_ledger_def)

lemma db_ok_set_processing:
  assumes "db_ok db" "db_operation_ok db k x" "operation_transaction_id x = None"
  shows "db_ok (db\<lparr>operations_table := js_set k x (operations_table db)\<rparr>)"
  using assms by (auto simp: db_ok_def split: if_splits)

lemma db_ok_set_completed:
  assumes ok: "db_ok db" and x: "db_operation_ok db k x" and i: "operation_transaction_id x = Some i"
    and new: "\<And>k' x'. js_get (operations_table db) k' = Some x' \<Longrightarrow> operation_transaction_id x' \<noteq> Some i"
  shows "db_ok (db\<lparr>operations_table := js_set k x (operations_table db)\<rparr>)"
proof -
  let ?ops = "js_set k x (operations_table db)"
  have "k' = k''" if "js_get ?ops k' = Some y" "js_get ?ops k'' = Some z"
    "operation_transaction_id y = Some j" "operation_transaction_id z = Some j" for k' k'' y z j
  proof (cases "k' = k \<or> k'' = k")
    case True
    with that i new show ?thesis by (metis js_get_set option.inject)
  next
    case False
    with that ok show ?thesis unfolding db_ok_def by (metis js_get_set)
  qed
  then have unique: "\<forall>k' k'' y z j. js_get ?ops k' = Some y \<longrightarrow> js_get ?ops k'' = Some z \<longrightarrow>
      operation_transaction_id y = Some j \<longrightarrow> operation_transaction_id z = Some j \<longrightarrow> k' = k''"
    by blast
  have each: "\<forall>k' y. js_get ?ops k' = Some y \<longrightarrow> db_operation_ok db k' y"
    using x db_okD [OF ok] by simp
  have "js_map_ok ?ops" using ok by (simp add: db_ok_def)
  then show ?thesis using ok unfolding db_ok_def
    by (simp del: js_get_set add: unique each)
qed

lemma db_ok_delete: "db_ok db \<Longrightarrow> db_ok (db\<lparr>operations_table := js_delete k (operations_table db)\<rparr>)"
  by (auto simp: db_ok_def split: if_splits)

lemma db_entry_open:
  assumes "js_get (operations_table db) k = Some x"
  shows "db_ledger db k = Some (Claimed fp u) \<longleftrightarrow>
    operation_status x = Processing \<and> request_fingerprint x = fp \<and> updated_at x = u"
  using assms by (auto simp: db_ledger_def db_entry_def split: operation_status.splits)

section \<open>What each statement does to the ledger\<close>

lemma sql_insert_operation_ledger:
  assumes ok: "db_ok db" and r: "db_claim_ok r" and res: "sql_insert_operation r db = (a, db')"
  shows "db_ok db' \<and> (a = Inr True \<and> db_ledger db (claim_key r) = None \<and>
      db_ledger db' = (db_ledger db)(claim_key r \<mapsto> Claimed (claim_fingerprint r) (claimed_at r)) \<or>
    a = Inr False \<and> db_ledger db (claim_key r) \<noteq> None \<and> db' = db)"
proof -
  let ?x = "\<lparr>idempotency_key = claim_key r, request_fingerprint = claim_fingerprint r,
    operation_status = Processing, operation_transaction_id = None,
    operation_created_at = claimed_at r, updated_at = claimed_at r\<rparr>"
  have row: "operation_row_ok ?x" using r by (simp add: operation_row_ok_def db_claim_ok_def)
  then have x: "db_operation_ok db (claim_key r) ?x" by (simp add: db_operation_ok_def)
  show ?thesis
  proof (cases "js_get (operations_table db) (claim_key r)")
    case None
    with res row have "a = Inr True" "db' = db\<lparr>operations_table := js_set (claim_key r) ?x (operations_table db)\<rparr>"
      by (auto simp: sql_insert_operation_def Let_def)
    with None db_ok_set_processing [OF ok x] show ?thesis
      by (simp add: db_ledger_set) (simp add: db_ledger_def db_entry_def)
  next
    case (Some y)
    with res row ok show ?thesis by (auto simp: sql_insert_operation_def Let_def db_ledger_def)
  qed
qed

lemma sql_reclaim_operation_ledger:
  assumes ok: "db_ok db" and r: "db_claim_ok r" and res: "sql_reclaim_operation r db = (a, db')"
  shows "db_ok db' \<and> (a = Inr True \<and>
      (\<exists>u \<le> stale_before r. db_ledger db (claim_key r) = Some (Claimed (claim_fingerprint r) u)) \<and>
      db_ledger db' = (db_ledger db)(claim_key r \<mapsto> Claimed (claim_fingerprint r) (claimed_at r)) \<or>
    a = Inr False \<and> db' = db \<and>
      (\<forall>u. db_ledger db (claim_key r) = Some (Claimed (claim_fingerprint r) u) \<longrightarrow> stale_before r < u))"
proof (cases "js_get (operations_table db) (claim_key r)")
  case None
  with res ok show ?thesis by (auto simp: sql_reclaim_operation_def db_ledger_def)
next
  case (Some x)
  note wf = db_okD [OF ok Some] and entry = db_entry_open [OF Some]
  show ?thesis
  proof (cases "request_fingerprint x = claim_fingerprint r \<and> operation_status x = Processing \<and>
      updated_at x \<le> stale_before r")
    case True
    let ?x = "x\<lparr>updated_at := claimed_at r\<rparr>"
    have row: "operation_row_ok ?x" and none: "operation_transaction_id ?x = None"
      using wf r True by (auto simp: operation_row_ok_def db_operation_ok_def db_claim_ok_def)
    then have x: "db_operation_ok db (claim_key r) ?x" using wf by (simp add: db_operation_ok_def)
    from True Some res row have "a = Inr True" "db' = db\<lparr>operations_table := js_set (claim_key r) ?x (operations_table db)\<rparr>"
      by (auto simp: sql_reclaim_operation_def Let_def)
    with True entry db_ok_set_processing [OF ok x none] show ?thesis
      by (simp add: db_ledger_set) (simp add: db_entry_def)
  next
    case False
    with Some res have "a = Inr False" "db' = db" by (auto simp: sql_reclaim_operation_def)
    with False entry ok show ?thesis by auto
  qed
qed

text \<open>The answer a claim gives for the entry it finds.\<close>

definition entry_answer :: "claim_request \<Rightarrow> entry \<Rightarrow> claim_result" where
  "entry_answer r e =
     (if entry_fingerprint e \<noteq> claim_fingerprint r then Fingerprint_Conflict
      else case e of Claimed _ _ \<Rightarrow> Claim_Processing | Done _ t \<Rightarrow> Completed_Replay t)"

lemma ledger_claim_entry_answer:
  assumes "L (claim_key r) = Some e"
  shows "ledger_claim r L (entry_answer r e) L"
proof (cases "entry_fingerprint e = claim_fingerprint r")
  case True
  with assms show ?thesis
    by (cases e) (auto simp: entry_answer_def intro: ledger_claim.processing ledger_claim.replay)
qed (use assms in \<open>auto simp: entry_answer_def intro: ledger_claim.conflict\<close>)

lemma sql_select_operation_none:
  "sql_select_operation drv k db = None \<longleftrightarrow> db_ledger db k = None"
  by (simp add: sql_select_operation_def db_ledger_def)

lemma answer_row_ledger:
  assumes drv: "driver_ok drv" and ok: "db_ok db"
    and row: "sql_select_operation drv (claim_key r) db = Some row" and e: "db_ledger db (claim_key r) = Some e"
  shows "answer_row drv r row = Inr (entry_answer r e)"
proof -
  from e obtain x where x: "js_get (operations_table db) (claim_key r) = Some x" "e = db_entry db x"
    by (auto simp: db_ledger_def)
  note wf = db_okD [OF ok x(1)]
  show ?thesis
  proof (cases "operation_status x")
    case Processing
    with row x show ?thesis
      by (auto simp: sql_select_operation_def answer_row_def entry_answer_def db_entry_def Let_def)
  next
    case Completed
    with wf obtain i t where t: "operation_transaction_id x = Some i" "js_get (transactions_table db) i = Some t"
      by (auto simp: db_operation_ok_def operation_row_ok_def)
    have "map_completed_operation drv row = map_transaction drv (transaction_row_of drv t)"
      using row x t by (auto simp: sql_select_operation_def map_completed_operation_def transaction_row_of_def Let_def)
    moreover have "\<dots> = Inr t" using drv db_ok_transaction [OF ok t(2)] by (simp add: map_transaction_row)
    ultimately show ?thesis using row x t Completed
      by (auto simp: sql_select_operation_def answer_row_def entry_answer_def db_entry_def Let_def)
  qed
qed

text \<open>
  The heart of the claim: a statement either leaves the database as it is and moves on, or it
  answers, and then it performs the whole claim of the ledger at that moment.
\<close>

lemma claim_step_ledger:
  assumes drv: "driver_ok drv" and ok: "db_ok db" and r: "db_claim_ok r"
    and res: "claim_step drv r ph db = (ph', db')" and run: "0 < phase_rank ph"
  shows "db_ok db' \<and> (case ph' of
      Answered (Inr c) \<Rightarrow> ledger_claim r (db_ledger db) c (db_ledger db')
    | Answered (Inl e) \<Rightarrow> db' = db \<and> (\<exists>n. 2 \<le> n \<and> ph = Try_Insert n)
    | _ \<Rightarrow> db' = db)"
proof (cases ph)
  case (Try_Insert n)
  obtain a d where s: "sql_insert_operation r db = (a, d)" by fastforce
  from sql_insert_operation_ledger [OF ok r this] res Try_Insert s ok
    ledger_claim.new [of "db_ledger db" r] show ?thesis
    by (auto split: if_splits)
next
  case (Try_Reclaim n)
  obtain a d where s: "sql_reclaim_operation r db = (a, d)" by fastforce
  from sql_reclaim_operation_ledger [OF ok r this] res Try_Reclaim s ok
    ledger_claim.reclaim [of "db_ledger db" r] show ?thesis
    by auto
next
  case (Try_Select n)
  show ?thesis
  proof (cases "sql_select_operation drv (claim_key r) db")
    case None
    with res Try_Select have "ph' = Try_Insert (Suc n)" "db' = db" by simp_all
    with ok show ?thesis by simp
  next
    case (Some row)
    then obtain e where e: "db_ledger db (claim_key r) = Some e"
      using sql_select_operation_none [of drv "claim_key r" db] by (cases "db_ledger db (claim_key r)") auto
    with Some res Try_Select ok answer_row_ledger [OF drv ok Some e] ledger_claim_entry_answer [of "db_ledger db" r, OF e] show ?thesis
      by auto
  qed
next
  case (Answered a)
  with run show ?thesis by simp
qed

lemma sql_complete_ledger:
  assumes ok: "db_ok db" and f: "db_complete_ok r db" and res: "postgres_complete r db = (a, db')"
  shows "db_ok db' \<and> (case ledger_complete r (db_ledger db) of
      None \<Rightarrow> (\<exists>e. a = Inl e) \<and> db' = db
    | Some L \<Rightarrow> a = Inr () \<and> db_ledger db' = L)"
proof -
  let ?t = "complete_transaction r" and ?i = "transaction_id (complete_transaction r)"
  let ?db1 = "db\<lparr>transactions_table := js_set ?i ?t (transactions_table db)\<rparr>"
  have ins: "sql_insert_transaction ?t db = Inr ?db1"
    using f by (simp add: sql_insert_transaction_def db_complete_ok_iff)
  have keep: "db_operation_ok ?db1 k x" "db_entry ?db1 x = db_entry db x" "operation_transaction_id x \<noteq> Some ?i"
    if "js_get (operations_table db) k = Some x" for k x
    using db_okD [OF ok that] f
    by (auto simp: db_operation_ok_def db_complete_ok_iff db_entry_def operation_row_ok_def split: operation_status.splits)
  have ok1: "db_ok ?db1" using ok f keep(1) by (auto simp: db_ok_def db_complete_ok_iff)
  have L1: "db_ledger ?db1 = db_ledger db"
    using keep(2) by (auto simp: db_ledger_def fun_eq_iff intro!: map_option_cong)
  show ?thesis
  proof (cases "open_for (complete_key r) (complete_fingerprint r) (db_ledger db)")
    case True
    then obtain x where x: "js_get (operations_table db) (complete_key r) = Some x" "operation_status x = Processing"
      "request_fingerprint x = complete_fingerprint r"
      by (auto simp: open_for_def db_ledger_def db_entry_def split: operation_status.splits)
    let ?x = "x\<lparr>operation_status := Completed, operation_transaction_id := Some ?i, updated_at := completed_at r\<rparr>"
    let ?db2 = "?db1\<lparr>operations_table := js_set (complete_key r) ?x (operations_table ?db1)\<rparr>"
    note wf = db_okD [OF ok x(1)]
    have row: "operation_row_ok ?x" and key: "db_operation_ok ?db1 (complete_key r) ?x"
      using wf f x by (auto simp: operation_row_ok_def db_operation_ok_def db_complete_ok_iff)
    have "js_map_ok (operations_table db)" using ok by (simp add: db_ok_def)
    then have unique: "\<not> list_ex (\<lambda>y. operation_transaction_id y = Some ?i) (js_values (operations_table db))"
      using keep(3) by (auto simp: list_ex_iff js_values_get)
    have "sql_complete_operation r ?db1 = Inr (1, ?db2)"
      using x f row unique by (simp add: sql_complete_operation_def Let_def db_complete_ok_iff)
    then have comp: "a = Inr ()" "db' = ?db2" using res ins by (simp_all add: postgres_complete_def)
    have "operation_transaction_id ?x = Some ?i" by simp
    from db_ok_set_completed [OF ok1 key this] keep(3) have "db_ok ?db2" by simp
    moreover have "db_ledger ?db2 = (db_ledger db)(complete_key r \<mapsto> Done (complete_fingerprint r) ?t)"
      unfolding db_ledger_set L1 using x by (simp add: db_entry_def)
    moreover have "ledger_complete r (db_ledger db) =
        Some ((db_ledger db)(complete_key r \<mapsto> Done (complete_fingerprint r) ?t))"
      using True by (simp add: ledger_complete_Some)
    ultimately show ?thesis by (simp only: comp option.case simp_thms)
  next
    case False
    then have none: "ledger_complete r (db_ledger db) = None" by (metis ledger_complete_Some not_None_eq)
    have "sql_complete_operation r ?db1 = Inr (0, ?db1)"
      using False by (auto simp: sql_complete_operation_def open_for_def db_ledger_def db_entry_def
          split: option.splits operation_status.splits)
    then have "a = Inl (Plain_Error ''Idempotency operation cannot be completed'')" "db' = db"
      using res ins by (auto simp: postgres_complete_def)
    with ok none show ?thesis by simp
  qed
qed

lemma postgres_release_ledger:
  assumes "db_ok db" "postgres_release r db = (a, db')"
  shows "db_ok db' \<and> a = Inr () \<and> db_ledger db' = ledger_release r (db_ledger db)"
proof (cases "js_get (operations_table db) (release_key r)")
  case None
  then show ?thesis using assms by (auto simp: postgres_release_def ledger_release_def db_ledger_def)
next
  case (Some x)
  then have L: "db_ledger db (release_key r) = Some (db_entry db x)" by (simp add: db_ledger_def)
  show ?thesis
    using assms Some L
    by (cases "operation_status x")
      (auto simp: postgres_release_def ledger_release_def db_entry_def db_ledger_delete db_ok_delete split: if_splits)
qed

section \<open>The contract\<close>

lemma claim_run_step:
  "claim_step drv r ph db = (ph1, db1) \<Longrightarrow> 0 < phase_rank ph \<Longrightarrow> claim_run drv r ph db = claim_run drv r ph1 db1"
  by (subst claim_run.simps) (cases ph; simp del: claim_step.simps)

lemma claim_run_answered [simp]: "claim_run drv r (Answered a) db = (a, db)"
  by (simp add: claim_run.simps)

lemma claim_run_ledger:
  assumes "driver_ok drv" "db_ok db" "db_claim_ok r" "0 < phase_rank ph" "claim_run drv r ph db = (a, db')"
  shows "db_ok db' \<and> (case a of
      Inr c \<Rightarrow> ledger_claim r (db_ledger db) c (db_ledger db') | Inl e \<Rightarrow> db' = db)"
  using assms
proof (induction "phase_rank ph" arbitrary: ph db rule: less_induct)
  case less
  obtain ph1 db1 where s: "claim_step drv r ph db = (ph1, db1)" by fastforce
  note run = claim_run_step [OF s less.prems(4)]
    and stp = claim_step_ledger [OF less.prems(1-3) s less.prems(4)]
    and rank = claim_step_rank_less [OF s less.prems(4)]
  show ?case
  proof (cases "phase_rank ph1 = 0")
    case True
    then obtain b where "ph1 = Answered b" by (cases ph1) auto
    with stp run less.prems(5) show ?thesis by (auto split: sum.splits)
  next
    case False
    with stp have "db1 = db" by (cases ph1) auto
    with False less.hyps [OF rank less.prems(1-3)] less.prems(5) run show ?thesis by simp
  qed
qed

text \<open>Run alone, a claim answers at the first statement that finds the key's row or its absence.\<close>

lemma postgres_claim_alone:
  assumes drv: "driver_ok drv" and ok: "db_ok db" and r: "db_claim_ok r" and res: "postgres_claim drv r db = (a, db')"
  shows "\<exists>c. a = Inr c \<and> (c = Claim_Processing \<longrightarrow>
    (\<forall>u. db_ledger db (claim_key r) = Some (Claimed (claim_fingerprint r) u) \<longrightarrow> stale_before r < u))"
proof -
  obtain b1 d1 where s1: "sql_insert_operation r db = (b1, d1)" by fastforce
  obtain b2 d2 where s2: "sql_reclaim_operation r db = (b2, d2)" by fastforce
  note i1 = sql_insert_operation_ledger [OF ok r s1] and i2 = sql_reclaim_operation_ledger [OF ok r s2]
  show ?thesis
  proof (cases "db_ledger db (claim_key r)")
    case None
    with i1 have "b1 = Inr True" by blast
    with res s1 have "a = Inr New_Claim" by (simp add: postgres_claim_def claim_run.simps)
    then show ?thesis by simp
  next
    case (Some e)
    with i1 have b1: "b1 = Inr False" "d1 = db" by auto
    obtain row where row: "sql_select_operation drv (claim_key r) db = Some row"
      using Some sql_select_operation_none [of drv "claim_key r" db] by (cases "sql_select_operation drv (claim_key r) db") auto
    from i2 show ?thesis
    proof (elim conjE disjE)
      assume "b2 = Inr True"
      with res s1 s2 b1 have "a = Inr New_Claim" by (simp add: postgres_claim_def claim_run.simps)
      then show ?thesis by simp
    next
      assume b2: "b2 = Inr False" "d2 = db"
        "\<forall>u. db_ledger db (claim_key r) = Some (Claimed (claim_fingerprint r) u) \<longrightarrow> stale_before r < u"
      with res s1 s2 b1 row have "a = answer_row drv r row" by (simp add: postgres_claim_def claim_run.simps)
      with answer_row_ledger [OF drv ok row Some] b2(3) show ?thesis by auto
    qed
  qed
qed

lemma postgres_claim_ledger:
  assumes "driver_ok drv" "db_ok db" "db_claim_ok r" "postgres_claim drv r db = (a, db')"
  shows "db_ok db' \<and> (\<exists>c. a = Inr c \<and> ledger_claim r (db_ledger db) c (db_ledger db'))"
  using claim_run_ledger [OF assms(1-3), of "Try_Insert 0" a db'] postgres_claim_alone [OF assms] assms(4)
  by (auto simp: postgres_claim_def)

text \<open>
  A driver that is relied on as documented: every number as text, every instant as a Date.
\<close>

definition text_driver :: driver where
  "text_driver = \<lparr>number_of_bigint = (\<lambda>n. Sql_Text (js_decimal n)), date_of_timestamptz = Sql_Date,
     parse_date = (\<lambda>_. 0)\<rparr>"

lemma text_driver_ok: "driver_ok text_driver"
  by (simp add: driver_ok_def text_driver_def to_date_def)

interpretation postgres: prompt_store
  "postgres_transaction_repository drv" "\<lambda>db. driver_ok drv \<and> db_ok db" db_ledger db_claim_ok db_complete_ok
proof unfold_locales
  fix db db' :: database and r :: claim_request and a
  assume "driver_ok drv \<and> db_ok db" "db_claim_ok r"
    "claim_idempotency_operation (postgres_transaction_repository drv) r db = (a, db')"
  then show "(driver_ok drv \<and> db_ok db') \<and> (\<exists>c. a = Inr c \<and> ledger_claim r (db_ledger db) c (db_ledger db'))"
    using postgres_claim_ledger [of drv db r a db'] by (simp add: postgres_transaction_repository_def)
next
  fix db db' :: database and r :: complete_request and a
  assume "driver_ok drv \<and> db_ok db" "db_complete_ok r db"
    "complete_idempotency_operation (postgres_transaction_repository drv) r db = (a, db')"
  then show "(driver_ok drv \<and> db_ok db') \<and> (case ledger_complete r (db_ledger db) of
        None \<Rightarrow> (\<exists>e. a = Inl e) \<and> db_ledger db' = db_ledger db
      | Some L \<Rightarrow> a = Inr () \<and> db_ledger db' = L)"
    using sql_complete_ledger [of db r a db']
    by (auto simp: postgres_transaction_repository_def split: option.splits)
next
  fix db db' :: database and r :: release_request and a
  assume "driver_ok drv \<and> db_ok db"
    "release_idempotency_operation (postgres_transaction_repository drv) r db = (a, db')"
  then show "(driver_ok drv \<and> db_ok db') \<and> a = Inr () \<and> db_ledger db' = ledger_release r (db_ledger db)"
    using postgres_release_ledger [of db r a db'] by (simp add: postgres_transaction_repository_def)
next
  fix db db' :: database and r :: claim_request and fp u
  assume pre: "driver_ok drv \<and> db_ok db" "db_claim_ok r"
    and res: "claim_idempotency_operation (postgres_transaction_repository drv) r db = (Inr Claim_Processing, db')"
    and L: "db_ledger db (claim_key r) = Some (Claimed fp u)"
  have c: "postgres_claim drv r db = (Inr Claim_Processing, db')"
    using res by (simp add: postgres_transaction_repository_def)
  with pre postgres_claim_ledger [of drv db r] have "ledger_claim r (db_ledger db) Claim_Processing (db_ledger db')"
    by auto
  with L have "fp = claim_fingerprint r" by (auto elim: ledger_claim_processingE)
  with pre c L postgres_claim_alone [of drv db r] show "stale_before r < u" by fastforce
qed

text \<open>
  C5: on a well-formed database, with a driver that keeps its documentation and a request the
  service makes, every method of the Postgres repository does to the ledger what the contract
  says, keeps every constraint of the schema, and a completion is atomic: when it throws, neither
  the transaction row nor the operation row was written.
\<close>
theorem postgres_refines_ledger:
  assumes "driver_ok drv" "db_ok db"
  shows "(db_claim_ok cr \<longrightarrow> db_ok (snd (postgres_claim drv cr db)) \<and>
      (\<exists>c. fst (postgres_claim drv cr db) = Inr c \<and>
        ledger_claim cr (db_ledger db) c (db_ledger (snd (postgres_claim drv cr db))))) \<and>
    (db_complete_ok fr db \<longrightarrow> db_ok (snd (postgres_complete fr db)) \<and>
      (case ledger_complete fr (db_ledger db) of
         None \<Rightarrow> (\<exists>e. fst (postgres_complete fr db) = Inl e) \<and> snd (postgres_complete fr db) = db
       | Some L \<Rightarrow> fst (postgres_complete fr db) = Inr () \<and> db_ledger (snd (postgres_complete fr db)) = L)) \<and>
    db_ok (snd (postgres_release rr db)) \<and>
    db_ledger (snd (postgres_release rr db)) = ledger_release rr (db_ledger db)"
  using postgres_claim_ledger [OF assms, of cr "fst (postgres_claim drv cr db)" "snd (postgres_claim drv cr db)"]
    sql_complete_ledger [OF assms(2), of fr "fst (postgres_complete fr db)" "snd (postgres_complete fr db)"]
    postgres_release_ledger [OF assms(2), of rr "fst (postgres_release rr db)" "snd (postgres_release rr db)"]
  by auto

definition pg_claim :: claim_request where
  "pg_claim = \<lparr>claim_key = ''k1'', claim_fingerprint = replicate 64 (CHR ''a''), claimed_at = 1000, stale_before = - 29000\<rparr>"

definition pg_transaction :: transaction where
  "pg_transaction = \<lparr>amount = 1099, currency = ''BRL'', description = ''order'',
     transaction_id = ''123e4567-e89b-42d3-a456-426614174000'',
     provider_transaction_id = ''p1'', transaction_status = Approved, created_at = 1500\<rparr>"

definition pg_complete :: complete_request where
  "pg_complete = \<lparr>complete_key = ''k1'', complete_fingerprint = replicate 64 (CHR ''a''),
     complete_transaction = pg_transaction, completed_at = 1600\<rparr>"

lemma pg_claim_ok: "db_claim_ok pg_claim"
  by (simp add: db_claim_ok_def pg_claim_def is_lower_hex_char_def list_all_iff code_def)

lemma pg_complete_ok:
  "db_complete_ok pg_complete (snd (postgres_claim text_driver pg_claim empty_database))"
  by code_simp

theorem postgres_refines_ledger_witness:
  "db_ok (snd (postgres_complete pg_complete (snd (postgres_claim text_driver pg_claim empty_database))))"
proof -
  have "db_ok (snd (postgres_claim text_driver pg_claim empty_database))"
    using postgres_claim_ledger [OF text_driver_ok db_ok_empty pg_claim_ok, of "fst (postgres_claim text_driver pg_claim empty_database)"]
    by simp
  from postgres_refines_ledger [OF text_driver_ok this, of pg_claim pg_complete] pg_complete_ok show ?thesis by blast
qed

section \<open>Sessions\<close>

text \<open>
  Any number of sessions: claims advance one statement at a time, a completion and a release are
  one atomic step each.
\<close>

record pg_system =
  pg_database :: database
  pg_claims :: "nat \<Rightarrow> (claim_request \<times> claim_phase) option"

datatype pg_event =
    Begin_Claim nat claim_request
  | Statement nat
  | Commit complete_request
  | Delete release_request

fun pg_step :: "driver \<Rightarrow> pg_event \<Rightarrow> pg_system \<Rightarrow> pg_system" where
  "pg_step drv (Begin_Claim i r) y = y\<lparr>pg_claims := (pg_claims y)(i \<mapsto> (r, Try_Insert 0))\<rparr>"
| "pg_step drv (Statement i) y =
     (case pg_claims y i of
        None \<Rightarrow> y
      | Some (r, ph) \<Rightarrow>
          (case claim_step drv r ph (pg_database y) of
             (ph', db) \<Rightarrow> y\<lparr>pg_database := db, pg_claims := (pg_claims y)(i \<mapsto> (r, ph'))\<rparr>))"
| "pg_step drv (Commit r) y = y\<lparr>pg_database := snd (postgres_complete r (pg_database y))\<rparr>"
| "pg_step drv (Delete r) y = y\<lparr>pg_database := snd (postgres_release r (pg_database y))\<rparr>"

fun pg_event_ok :: "pg_event \<Rightarrow> pg_system \<Rightarrow> bool" where
  "pg_event_ok (Begin_Claim i r) y = db_claim_ok r"
| "pg_event_ok (Commit r) y = db_complete_ok r (pg_database y)"
| "pg_event_ok _ y = True"

inductive pg_reachable :: "driver \<Rightarrow> pg_system \<Rightarrow> bool" for drv where
  start: "pg_reachable drv \<lparr>pg_database = empty_database, pg_claims = (\<lambda>_. None)\<rparr>"
| event: "pg_reachable drv y \<Longrightarrow> pg_event_ok ev y \<Longrightarrow> pg_reachable drv (pg_step drv ev y)"

definition pg_inv :: "pg_system \<Rightarrow> bool" where
  "pg_inv y \<longleftrightarrow> db_ok (pg_database y) \<and> (\<forall>i r ph. pg_claims y i = Some (r, ph) \<longrightarrow> db_claim_ok r)"

text \<open>What a step does to the ledger: nothing, or one operation of the contract.\<close>

inductive ledger_step :: "pg_event \<Rightarrow> pg_system \<Rightarrow> pg_system \<Rightarrow> bool" where
  stutter: "db_ledger (pg_database y') = db_ledger (pg_database y) \<Longrightarrow>
    \<forall>i r c. ev = Statement i \<longrightarrow> pg_claims y' i = Some (r, Answered (Inr c)) \<longrightarrow> pg_claims y i = pg_claims y' i \<Longrightarrow>
    ledger_step ev y y'"
| answer: "pg_claims y' i = Some (r, Answered (Inr c)) \<Longrightarrow>
    ledger_claim r (db_ledger (pg_database y)) c (db_ledger (pg_database y')) \<Longrightarrow> ledger_step (Statement i) y y'"
| commit: "ledger_complete r (db_ledger (pg_database y)) = Some (db_ledger (pg_database y')) \<Longrightarrow>
    ledger_step (Commit r) y y'"
| delete: "ledger_release r (db_ledger (pg_database y)) = db_ledger (pg_database y') \<Longrightarrow>
    ledger_step (Delete r) y y'"

lemma pg_statement:
  assumes drv: "driver_ok drv" and inv: "pg_inv y"
  shows "pg_inv (pg_step drv (Statement i) y) \<and> ledger_step (Statement i) y (pg_step drv (Statement i) y)"
proof (cases "pg_claims y i")
  case None
  then have "pg_step drv (Statement i) y = y" by simp
  with inv show ?thesis by (auto intro: ledger_step.stutter)
next
  case (Some p)
  obtain r ph where p: "p = (r, ph)" by fastforce
  obtain ph' db where s: "claim_step drv r ph (pg_database y) = (ph', db)" by fastforce
  let ?y = "y\<lparr>pg_database := db, pg_claims := (pg_claims y)(i \<mapsto> (r, ph'))\<rparr>"
  have y: "pg_step drv (Statement i) y = ?y" using Some p s by simp
  have r: "db_claim_ok r" and ok: "db_ok (pg_database y)" using inv Some p by (auto simp: pg_inv_def)
  show ?thesis
  proof (cases "phase_rank ph = 0")
    case True
    then obtain a where "ph = Answered a" by (cases ph) auto
    with s have "db = pg_database y" "ph' = ph" by auto
    with inv Some p show ?thesis unfolding y by (auto simp: pg_inv_def intro!: ledger_step.stutter)
  next
    case False
    with claim_step_ledger [OF drv ok r s] have st: "db_ok db" and eff: "(case ph' of
        Answered (Inr c) \<Rightarrow> ledger_claim r (db_ledger (pg_database y)) c (db_ledger db)
      | Answered (Inl e) \<Rightarrow> db = pg_database y \<and> (\<exists>n. 2 \<le> n \<and> ph = Try_Insert n) | _ \<Rightarrow> db = pg_database y)" by auto
    have "pg_inv ?y" using inv r st by (auto simp: pg_inv_def)
    moreover have "ledger_step (Statement i) y ?y"
    proof (cases "\<exists>c. ph' = Answered (Inr c)")
      case True
      with eff show ?thesis by (auto intro!: ledger_step.answer)
    next
      case False
      with eff show ?thesis
        by (intro ledger_step.stutter) (auto split: claim_phase.splits sum.splits)
    qed
    ultimately show ?thesis unfolding y by simp
  qed
qed

lemma pg_step_sound:
  assumes drv: "driver_ok drv" and inv: "pg_inv y" and ev: "pg_event_ok ev y"
  shows "pg_inv (pg_step drv ev y) \<and> ledger_step ev y (pg_step drv ev y)"
proof (cases ev)
  case (Begin_Claim i r)
  with inv ev show ?thesis by (auto simp: pg_inv_def intro!: ledger_step.stutter)
next
  case (Statement i)
  with pg_statement [OF drv inv] show ?thesis by simp
next
  case (Commit r)
  have ok: "db_ok (pg_database y)" using inv by (simp add: pg_inv_def)
  have f: "db_complete_ok r (pg_database y)" using Commit ev by simp
  obtain a db where c: "postgres_complete r (pg_database y) = (a, db)" by fastforce
  note eff = sql_complete_ledger [OF ok f c]
  have "ledger_step ev y (y\<lparr>pg_database := db\<rparr>)"
  proof (cases "ledger_complete r (db_ledger (pg_database y))")
    case None
    with eff Commit show ?thesis by (auto intro: ledger_step.stutter)
  next
    case (Some L)
    with eff Commit show ?thesis by (auto intro: ledger_step.commit)
  qed
  with Commit c eff inv show ?thesis by (simp add: pg_inv_def)
next
  case (Delete r)
  have ok: "db_ok (pg_database y)" using inv by (simp add: pg_inv_def)
  from postgres_release_ledger [OF this, of r "fst (postgres_release r (pg_database y))"] Delete inv show ?thesis
    by (auto simp: pg_inv_def intro: ledger_step.delete)
qed

lemma pg_reachable_inv: "pg_reachable drv y \<Longrightarrow> driver_ok drv \<Longrightarrow> pg_inv y"
proof (induction rule: pg_reachable.induct)
  case start
  then show ?case by (simp add: pg_inv_def db_ok_empty)
next
  case (event y ev)
  with pg_step_sound show ?case by blast
qed

lemma ledger_step_keeps_done:
  "ledger_step ev y y' \<Longrightarrow> db_ledger (pg_database y) k = Some (Done fp t) \<Longrightarrow>
    db_ledger (pg_database y') k = Some (Done fp t)"
proof (induction rule: ledger_step.induct)
  case (answer y' i r c y)
  then show ?case by (auto intro: ledger_claim_keeps_done)
next
  case (commit r y y')
  then show ?case by (auto intro: ledger_complete_keeps_done)
next
  case (delete r y y')
  then show ?case using ledger_release_keeps_done [of "db_ledger (pg_database y)" k fp t r] by simp
qed simp

text \<open>
  C1: whatever way the single statements of concurrent claims interleave with completions and
  releases, every step of every session is, on the ledger, nothing or exactly one operation of
  the contract, so a claim takes effect at once when it answers; the schema's constraints hold
  throughout, a completed key keeps its transaction for ever, and a claim answers after at most
  seven steps of its own.
\<close>
theorem postgres_interleaving:
  assumes "driver_ok drv" "pg_reachable drv y" "pg_event_ok ev y"
  shows "db_ok (pg_database (pg_step drv ev y)) \<and> ledger_step ev y (pg_step drv ev y) \<and>
    (db_ledger (pg_database y) k = Some (Done fp t) \<longrightarrow>
      db_ledger (pg_database (pg_step drv ev y)) k = Some (Done fp t)) \<and>
    phase_rank (Try_Insert 0) = 7 \<and>
    (0 < phase_rank ph \<longrightarrow> phase_rank (fst (claim_step drv r ph (pg_database y))) < phase_rank ph)"
proof -
  note snd = pg_step_sound [OF assms(1) pg_reachable_inv [OF assms(2,1)] assms(3)]
  then have "db_ok (pg_database (pg_step drv ev y))" by (simp add: pg_inv_def)
  with snd ledger_step_keeps_done [of ev y "pg_step drv ev y" k fp t] claim_step_rank [of ph drv r "pg_database y"]
  show ?thesis by simp
qed

theorem postgres_interleaving_witness:
  "ledger_step (Statement 1)
     (pg_step text_driver (Begin_Claim 1 pg_claim) \<lparr>pg_database = empty_database, pg_claims = (\<lambda>_. None)\<rparr>)
     (pg_step text_driver (Statement 1)
       (pg_step text_driver (Begin_Claim 1 pg_claim) \<lparr>pg_database = empty_database, pg_claims = (\<lambda>_. None)\<rparr>))"
  using postgres_interleaving [OF text_driver_ok
      pg_reachable.event [OF pg_reachable.start, of "Begin_Claim 1 pg_claim" text_driver], of "Statement 1"]
  by (simp only: pg_event_ok.simps pg_claim_ok simp_thms)

section \<open>Pages\<close>

lemma code_compare_swap: "code_compare t s = - code_compare s t"
  by (induction s t rule: code_compare.induct) auto

lemma code_compare_eq: "code_compare s t = 0 \<longleftrightarrow> s = t"
proof (induction s t rule: code_compare.induct)
  case (4 c s d t)
  then show ?case by (auto simp: code_inject [symmetric] simp del: code_inject)
qed auto

lemma code_compare_Cons:
  "code_compare (c # s) (d # t) \<le> 0 \<longleftrightarrow> code c < code d \<or> (code c = code d \<and> code_compare s t \<le> 0)"
  using less_linear [of "code c" "code d"] by (elim disjE) (simp_all del: code_inject)

lemma code_compare_trans: "code_compare s t \<le> 0 \<Longrightarrow> code_compare t u \<le> 0 \<Longrightarrow> code_compare s u \<le> 0"
proof (induction s t arbitrary: u rule: code_compare.induct)
  case (1 u)
  then show ?case by simp
next
  case (2 d t)
  then show ?case by (cases u) auto
next
  case (4 c s d t)
  show ?case
  proof (cases u)
    case Nil
    with "4.prems" show ?thesis by simp
  next
    case (Cons e v)
    with "4.prems" have "code c < code d \<or> (code c = code d \<and> code_compare s t \<le> 0)"
      "code d < code e \<or> (code d = code e \<and> code_compare t v \<le> 0)"
      by (simp_all only: code_compare_Cons)
    with "4.IH" [of v] have "code c < code e \<or> (code c = code e \<and> code_compare s v \<le> 0)"
      by (metis less_trans nat_neq_iff)
    then show ?thesis unfolding Cons code_compare_Cons .
  qed
qed simp

text \<open>The order of the lists is a comparator, and orders every two transactions of different id.\<close>

interpretation newest: comparator "newest_first code_compare"
proof unfold_locales
  fix x y :: transaction
  show "newest_first code_compare x y \<le> 0 \<or> newest_first code_compare y x \<le> 0"
    using code_compare_swap [of "transaction_id x" "transaction_id y"]
    by (auto simp: newest_first_def Let_def)
next
  fix x y z :: transaction
  assume "newest_first code_compare x y \<le> 0" "newest_first code_compare y z \<le> 0"
  then show "newest_first code_compare x z \<le> 0"
    using code_compare_trans [of "transaction_id z" "transaction_id y" "transaction_id x"]
    by (auto simp: newest_first_def Let_def split: if_splits)
qed

lemma newest_first_antisym:
  assumes "newest_first code_compare x y \<le> 0" "newest_first code_compare y x \<le> 0"
  shows "transaction_id x = transaction_id y"
  using assms code_compare_swap [of "transaction_id x" "transaction_id y"]
    code_compare_eq [of "transaction_id x" "transaction_id y"]
  by (auto simp: newest_first_def Let_def split: if_splits)

lemma db_values_ok:
  assumes "db_ok db" "t \<in> set (js_values (transactions_table db))"
  shows "transaction_row_ok t" "js_get (transactions_table db) (transaction_id t) = Some t"
proof -
  have "js_map_ok (transactions_table db)" using assms(1) by (simp add: db_ok_def)
  with assms(2) obtain i where "js_get (transactions_table db) i = Some t" by (auto simp: js_values_get)
  with db_ok_transaction [OF assms(1) this] show "transaction_row_ok t"
    "js_get (transactions_table db) (transaction_id t) = Some t" by auto
qed

lemma postgres_list_page:
  assumes "driver_ok drv" "db_ok db" "0 \<le> offset" "0 \<le> limit"
  shows "postgres_list drv offset limit db = Inr (take (nat limit) (drop (nat offset)
    (js_sort (newest_first code_compare) (js_values (transactions_table db)))))"
proof -
  have "\<forall>t \<in> set (take (nat limit) (drop (nat offset) (js_sort (newest_first code_compare)
      (js_values (transactions_table db))))). transaction_row_ok t"
    using db_values_ok(1) [OF assms(2)] by (auto dest!: in_set_takeD in_set_dropD)
  with map_rows_ok [OF assms(1)] assms(3,4) show ?thesis by (simp add: postgres_list_def)
qed

text \<open>
  C13: with the same transactions, the in-memory repository and the Postgres repository answer
  every page alike (in the same order, whatever order the transactions were written in), and
  count them alike, when the collation orders identifiers as Postgres orders UUIDs.
\<close>
theorem repositories_list_alike:
  assumes "driver_ok drv" "db_ok db" "0 \<le> offset" "0 \<le> limit"
    and same: "mset (js_values (transactions_by_id s)) = mset (js_values (transactions_table db))"
    and collation: "\<forall>t \<in> set (js_values (transactions_by_id s)). \<forall>u \<in> set (js_values (transactions_by_id s)).
      locale_compare (transaction_id t) (transaction_id u) \<le> 0 \<longleftrightarrow> code_compare (transaction_id t) (transaction_id u) \<le> 0"
    and small: "int (length (transactions_table db)) \<le> max_safe_integer"
  shows "memory_list locale_compare offset limit s = postgres_list drv offset limit db \<and>
    memory_count s = postgres_count drv db"
proof -
  let ?ts = "js_values (transactions_by_id s)" and ?us = "js_values (transactions_table db)"
  have "js_sort (newest_first locale_compare) ?ts = js_sort (newest_first code_compare) ?ts"
    using collation by (intro js_sort_cong) (simp add: newest_first_def Let_def)
  also have "\<dots> = js_sort (newest_first code_compare) ?us"
  proof (rule newest.js_sort_unique [OF same])
    fix x y
    assume xy: "x \<in> set ?ts" "y \<in> set ?ts" "newest_first code_compare x y \<le> 0" "newest_first code_compare y x \<le> 0"
    then have "x \<in> set ?us" "y \<in> set ?us" using same by (metis set_mset_mset)+
    with db_values_ok(2) [OF assms(2)] newest_first_antisym [OF xy(3,4)] show "x = y" by (metis option.inject)
  qed
  finally have "memory_list locale_compare offset limit s = postgres_list drv offset limit db"
    using postgres_list_page [OF assms(1-4)] assms(3,4) by (simp add: memory_list_def js_slice_page)
  moreover have "length (transactions_by_id s) = length (transactions_table db)"
    using arg_cong [OF same, of size] by (simp add: js_values_def)
  then have "memory_count s = postgres_count drv db"
    using small assms(1) by (simp add: memory_count_def postgres_count_def to_safe_number_bigint)
  ultimately show ?thesis by simp
qed

definition pg_transaction2 :: transaction where
  "pg_transaction2 = pg_transaction\<lparr>transaction_id := ''223e4567-e89b-42d3-a456-426614174000''\<rparr>"

definition pg_two :: database where
  "pg_two = \<lparr>transactions_table = [(transaction_id pg_transaction2, pg_transaction2),
     (transaction_id pg_transaction, pg_transaction)], operations_table = []\<rparr>"

lemma pg_two_ok: "db_ok pg_two"
proof -
  have "transaction_row_ok pg_transaction" "transaction_row_ok pg_transaction2" by code_simp+
  moreover have "to_lower (transaction_id pg_transaction) = transaction_id pg_transaction"
    "to_lower (transaction_id pg_transaction2) = transaction_id pg_transaction2"
    "transaction_id pg_transaction2 \<noteq> transaction_id pg_transaction" by code_simp+
  ultimately show ?thesis by (simp add: db_ok_def pg_two_def js_map_ok_def js_get_def)
qed

theorem repositories_list_alike_witness:
  "memory_list code_compare 0 1 \<lparr>transactions_by_id = [(transaction_id pg_transaction, pg_transaction),
       (transaction_id pg_transaction2, pg_transaction2)], operations = []\<rparr> =
   postgres_list text_driver 0 1 pg_two"
proof -
  let ?s = "\<lparr>transactions_by_id = [(transaction_id pg_transaction, pg_transaction),
       (transaction_id pg_transaction2, pg_transaction2)], operations = []\<rparr>"
  note alike = repositories_list_alike [of text_driver pg_two 0 1 ?s code_compare, OF text_driver_ok pg_two_ok]
  have same: "mset (js_values (transactions_by_id ?s)) = mset (js_values (transactions_table pg_two))"
    by (simp add: js_values_def pg_two_def add_mset_commute)
  have small: "int (length (transactions_table pg_two)) \<le> max_safe_integer"
    by (simp add: max_safe_integer_def pg_two_def)
  have page: "(0::int) \<le> 0" "(0::int) \<le> 1" by simp_all
  have "\<forall>t \<in> set (js_values (transactions_by_id ?s)). \<forall>u \<in> set (js_values (transactions_by_id ?s)).
      code_compare (transaction_id t) (transaction_id u) \<le> 0 \<longleftrightarrow> code_compare (transaction_id t) (transaction_id u) \<le> 0"
    by blast
  from conjunct1 [OF alike [OF page same this small]] show ?thesis .
qed

end
