(* ===== verification/Create_Transaction.thy ===== *)
theory Create_Transaction
  imports Repository Fingerprint Memory_Repository Postgres_Repository
begin

text \<open>
  \<^verbatim>\<open>src/src/application/use-cases/create-transaction.ts\<close>: \<open>CreateTransaction.execute\<close>, split at
  its awaits into the claim, the answer of the provider and the end of the claim, so that the
  same definitions serve one execution (\<open>create_transaction_execute\<close>) and any number of
  interleaved ones (\<open>create_step\<close>).

  The repository is any record of operations; the consequences of its contract are proved in the
  locales of \<open>Repository\<close>.  The payment provider is a function that may change the store's state,
  since other executions run while it is awaited; what the clock and the identifier generator
  return are values of \<open>create_env\<close>.
\<close>

section \<open>The segments of an execution\<close>

record create_result =
  result_transaction :: transaction
  created :: bool

record 's create_env =
  claimed_at_now :: int
  provider_process :: "transaction_input \<Rightarrow> string \<Rightarrow> 's \<Rightarrow> provider_result result \<times> 's"
  generated_id :: string
  created_at_now :: int
  completed_at_now :: int

datatype create_phase =
    Calling (phase_input: transaction_input) (phase_key: string) (phase_fingerprint: string)
  | Releasing (phase_key: string) (phase_fingerprint: string) error
  | Completing (phase_input: transaction_input) (phase_key: string) (phase_fingerprint: string) provider_result
  | Returned "create_result result"

definition create_claim :: "int \<Rightarrow> int \<Rightarrow> string \<Rightarrow> string \<Rightarrow> claim_request" where
  "create_claim processing_timeout_ms claimed key fp =
     \<lparr>claim_key = key, claim_fingerprint = fp, claimed_at = claimed,
      stale_before = claimed - processing_timeout_ms\<rparr>"

definition begin_create :: "'s transaction_repository \<Rightarrow> (js_number \<Rightarrow> string) \<Rightarrow> (byte list \<Rightarrow> byte list) \<Rightarrow> int \<Rightarrow>
    int \<Rightarrow> transaction_input \<Rightarrow> string \<Rightarrow> 's \<Rightarrow> create_phase \<times> 's" where
  "begin_create R sn sha256 processing_timeout_ms claimed t key s =
     (let normalized = normalize_transaction_input t;
          fp = create_request_fingerprint sn sha256 normalized
      in case claim_idempotency_operation R (create_claim processing_timeout_ms claimed key fp) s of
           (Inl e, s') \<Rightarrow> (Returned (Inl e), s')
         | (Inr claim, s') \<Rightarrow>
             (case claim of
                Completed_Replay x \<Rightarrow> Returned (Inr \<lparr>result_transaction = x, created = False\<rparr>)
              | Fingerprint_Conflict \<Rightarrow> Returned (Inl Idempotency_Conflict_Error)
              | Claim_Processing \<Rightarrow> Returned (Inl Idempotency_In_Progress_Error)
              | New_Claim \<Rightarrow> Calling normalized key fp, s'))"

fun frees_claim :: "error \<Rightarrow> bool" where
  "frees_claim (Provider_Rejected_Error _) = True"
| "frees_claim Provider_Circuit_Open_Error = True"
| "frees_claim _ = False"

fun provider_answered :: "provider_result result \<Rightarrow> create_phase \<Rightarrow> create_phase" where
  "provider_answered (Inl e) (Calling t key fp) = (if frees_claim e then Releasing key fp e else Returned (Inl e))"
| "provider_answered (Inr p) (Calling t key fp) = Completing t key fp p"
| "provider_answered _ ph = ph"

definition created_transaction :: "string \<Rightarrow> int \<Rightarrow> transaction_input \<Rightarrow> provider_result \<Rightarrow> transaction" where
  "created_transaction i created_now t p =
     \<lparr>amount = amount t, currency = currency t, description = description t, transaction_id = i,
      provider_transaction_id = result_provider_transaction_id p, transaction_status = decision p,
      created_at = created_now\<rparr>"

definition completion :: "string \<Rightarrow> string \<Rightarrow> transaction \<Rightarrow> int \<Rightarrow> complete_request" where
  "completion key fp x now =
     \<lparr>complete_key = key, complete_fingerprint = fp, complete_transaction = x, completed_at = now\<rparr>"

fun finish_create :: "'s transaction_repository \<Rightarrow> string \<Rightarrow> int \<Rightarrow> int \<Rightarrow> create_phase \<Rightarrow> 's \<Rightarrow>
    create_result result \<times> 's" where
  "finish_create R i created_now completed_now (Releasing key fp e) s =
     (case release_idempotency_operation R \<lparr>release_key = key, release_fingerprint = fp\<rparr> s of
        (Inl e', s') \<Rightarrow> (Inl e', s')
      | (Inr _, s') \<Rightarrow> (Inl e, s'))"
| "finish_create R i created_now completed_now (Completing t key fp p) s =
     (let x = created_transaction i created_now t p
      in case complete_idempotency_operation R (completion key fp x completed_now) s of
           (Inl e, s') \<Rightarrow> (Inl e, s')
         | (Inr _, s') \<Rightarrow> (Inr \<lparr>result_transaction = x, created = True\<rparr>, s'))"
| "finish_create R i created_now completed_now (Returned r) s = (r, s)"
| "finish_create R i created_now completed_now (Calling t key fp) s = (Inl (Plain_Error ''not answered''), s)"

definition create_transaction_execute :: "'s transaction_repository \<Rightarrow> (js_number \<Rightarrow> string) \<Rightarrow>
    (byte list \<Rightarrow> byte list) \<Rightarrow> int \<Rightarrow> 's create_env \<Rightarrow> transaction_input \<Rightarrow> string \<Rightarrow> 's \<Rightarrow>
    create_result result \<times> 's" where
  "create_transaction_execute R sn sha256 processing_timeout_ms env t key s =
     (case begin_create R sn sha256 processing_timeout_ms (claimed_at_now env) t key s of
        (Calling n k fp, s1) \<Rightarrow>
          (case provider_process env n k s1 of
             (answer, s2) \<Rightarrow> finish_create R (generated_id env) (created_at_now env) (completed_at_now env)
               (provider_answered answer (Calling n k fp)) s2)
      | (ph, s1) \<Rightarrow> finish_create R (generated_id env) (created_at_now env) (completed_at_now env) ph s1)"

text \<open>The fingerprint an execution claims with; normalising twice changes nothing.\<close>

definition execution_fingerprint :: "(js_number \<Rightarrow> string) \<Rightarrow> (byte list \<Rightarrow> byte list) \<Rightarrow> transaction_input \<Rightarrow> string" where
  "execution_fingerprint sn sha256 t = create_request_fingerprint sn sha256 (normalize_transaction_input t)"

lemma execution_fingerprint_normal: "execution_fingerprint sn sha256 t = create_request_fingerprint sn sha256 t"
  by (simp add: execution_fingerprint_def create_request_fingerprint_def Let_def)

definition execution_claim :: "(js_number \<Rightarrow> string) \<Rightarrow> (byte list \<Rightarrow> byte list) \<Rightarrow> int \<Rightarrow> int \<Rightarrow> transaction_input \<Rightarrow>
    string \<Rightarrow> claim_request" where
  "execution_claim sn sha256 T claimed t key = create_claim T claimed key (execution_fingerprint sn sha256 t)"

lemma execution_claim_simps [simp]:
  "claim_key (execution_claim sn sha256 T c t key) = key"
  "claim_fingerprint (execution_claim sn sha256 T c t key) = execution_fingerprint sn sha256 t"
  "claimed_at (execution_claim sn sha256 T c t key) = c"
  "stale_before (execution_claim sn sha256 T c t key) = c - T"
  by (simp_all add: execution_claim_def create_claim_def)

lemma completion_simps [simp]:
  "complete_key (completion key fp x now) = key" "complete_fingerprint (completion key fp x now) = fp"
  "complete_transaction (completion key fp x now) = x" "completed_at (completion key fp x now) = now"
  by (simp_all add: completion_def)

section \<open>One execution against the contract\<close>

text \<open>What the first segment returns, from the entry it finds.\<close>

definition claimed_phase :: "claim_result \<Rightarrow> transaction_input \<Rightarrow> string \<Rightarrow> string \<Rightarrow> create_phase" where
  "claimed_phase c n key fp =
     (case c of
        Completed_Replay x \<Rightarrow> Returned (Inr \<lparr>result_transaction = x, created = False\<rparr>)
      | Fingerprint_Conflict \<Rightarrow> Returned (Inl Idempotency_Conflict_Error)
      | Claim_Processing \<Rightarrow> Returned (Inl Idempotency_In_Progress_Error)
      | New_Claim \<Rightarrow> Calling n key fp)"

lemma claimed_phase_Calling [simp]:
  "claimed_phase c n key fp = Calling n' key' fp' \<longleftrightarrow> c = New_Claim \<and> n' = n \<and> key' = key \<and> fp' = fp"
  by (cases c) (auto simp: claimed_phase_def)

context idempotent_store
begin

lemma begin_create_ledger:
  assumes "invar s" "claim_ok (execution_claim sn sha256 T now t key)"
    and "begin_create R sn sha256 T now t key s = (ph, s')"
  shows "invar s' \<and> (\<exists>c. ledger_claim (execution_claim sn sha256 T now t key) (ledger_of s) c (ledger_of s') \<and>
    ph = claimed_phase c (normalize_transaction_input t) key (execution_fingerprint sn sha256 t))"
proof -
  obtain a s1 where c: "claim_idempotency_operation R (execution_claim sn sha256 T now t key) s = (a, s1)" by fastforce
  from claim_law [OF assms(1,2) c] assms(3) c show ?thesis
    by (auto simp: begin_create_def execution_claim_def execution_fingerprint_def claimed_phase_def Let_def)
qed

text \<open>A key that is done is answered from the store: the provider is not asked.\<close>

lemma execute_done:
  assumes "invar s" "claim_ok (execution_claim sn sha256 T (claimed_at_now env) t key)"
    and "ledger_of s key = Some (Done fp x)"
    and "create_transaction_execute R sn sha256 T env t key s = (a, s')"
  shows "invar s' \<and> ledger_of s' = ledger_of s \<and>
    a = (if execution_fingerprint sn sha256 t = fp then Inr \<lparr>result_transaction = x, created = False\<rparr>
         else Inl Idempotency_Conflict_Error)"
proof -
  obtain ph s1 where b: "begin_create R sn sha256 T (claimed_at_now env) t key s = (ph, s1)" by fastforce
  from begin_create_ledger [OF assms(1,2) b] obtain c where c: "invar s1"
    "ledger_claim (execution_claim sn sha256 T (claimed_at_now env) t key) (ledger_of s) c (ledger_of s1)"
    "ph = claimed_phase c (normalize_transaction_input t) key (execution_fingerprint sn sha256 t)" by blast
  from c(2) assms(3) have "ledger_of s1 = ledger_of s \<and>
    c = (if execution_fingerprint sn sha256 t = fp then Completed_Replay x else Fingerprint_Conflict)"
    by (auto elim!: ledger_claim.cases)
  with c(1,3) b assms(4) show ?thesis
    by (auto simp: create_transaction_execute_def claimed_phase_def split: if_splits)
qed

text \<open>An open claim that the contract may not hand out again is answered without the provider.\<close>

lemma execute_busy:
  assumes "invar s" "claim_ok (execution_claim sn sha256 T (claimed_at_now env) t key)"
    and "ledger_of s key = Some (Claimed fp u)" "claimed_at_now env - T < u"
    and "create_transaction_execute R sn sha256 T env t key s = (a, s')"
  shows "invar s' \<and> ledger_of s' = ledger_of s \<and>
    a = Inl (if execution_fingerprint sn sha256 t = fp then Idempotency_In_Progress_Error else Idempotency_Conflict_Error)"
proof -
  obtain ph s1 where b: "begin_create R sn sha256 T (claimed_at_now env) t key s = (ph, s1)" by fastforce
  from begin_create_ledger [OF assms(1,2) b] obtain c where c: "invar s1"
    "ledger_claim (execution_claim sn sha256 T (claimed_at_now env) t key) (ledger_of s) c (ledger_of s1)"
    "ph = claimed_phase c (normalize_transaction_input t) key (execution_fingerprint sn sha256 t)" by blast
  from c(2) assms(3,4) have "ledger_of s1 = ledger_of s \<and>
    c = (if execution_fingerprint sn sha256 t = fp then Claim_Processing else Fingerprint_Conflict)"
    by (auto elim!: ledger_claim.cases)
  with c(1,3) b assms(5) show ?thesis
    by (auto simp: create_transaction_execute_def claimed_phase_def split: if_splits)
qed

text \<open>What an answered execution does to an open claim of its own.\<close>

lemma finish_releasing:
  assumes "invar s" "open_for key fp (ledger_of s)" "finish_create R i n1 n2 (Releasing key fp e) s = (a, s')"
  shows "invar s' \<and> a = Inl e \<and> ledger_of s' = (ledger_of s)(key := None)"
proof -
  obtain b s1 where r: "release_idempotency_operation R \<lparr>release_key = key, release_fingerprint = fp\<rparr> s = (b, s1)"
    by fastforce
  from release_law [OF assms(1) r] r assms(2,3) show ?thesis
    by (auto simp: ledger_release_def open_for_def)
qed

lemma finish_completing:
  assumes "invar s" "open_for key fp (ledger_of s)"
    and "complete_ok (completion key fp (created_transaction i n1 t p) n2) s"
    and "finish_create R i n1 n2 (Completing t key fp p) s = (a, s')"
  shows "invar s' \<and> a = Inr \<lparr>result_transaction = created_transaction i n1 t p, created = True\<rparr> \<and>
    ledger_of s' = (ledger_of s)(key \<mapsto> Done fp (created_transaction i n1 t p))"
proof -
  let ?r = "completion key fp (created_transaction i n1 t p) n2"
  obtain b s1 where r: "complete_idempotency_operation R ?r s = (b, s1)" by fastforce
  have "ledger_complete ?r (ledger_of s) = Some ((ledger_of s)(key \<mapsto> Done fp (created_transaction i n1 t p)))"
    using assms(2) by (simp add: ledger_complete_Some)
  with complete_law [OF assms(1,3) r] r assms(4) show ?thesis by (auto simp: Let_def)
qed

text \<open>The whole of an execution that gets the claim.\<close>

lemma execute_new:
  assumes "invar s" "claim_ok (execution_claim sn sha256 T (claimed_at_now env) t key)"
    and b: "begin_create R sn sha256 T (claimed_at_now env) t key s = (Calling n k fp, s1)"
    and p: "provider_process env n k s1 = (answer, s2)" "invar s2" "open_for k fp (ledger_of s2)"
    and f: "\<And>r. answer = Inr r \<Longrightarrow> complete_ok (completion k fp
      (created_transaction (generated_id env) (created_at_now env) n r) (completed_at_now env)) s2"
    and e: "create_transaction_execute R sn sha256 T env t key s = (a, s')"
  shows "n = normalize_transaction_input t \<and> k = key \<and> fp = execution_fingerprint sn sha256 t \<and> invar s' \<and>
    (case answer of
       Inl err \<Rightarrow> a = Inl err \<and> ledger_of s' = (if frees_claim err then (ledger_of s2)(key := None) else ledger_of s2)
     | Inr r \<Rightarrow> a = Inr \<lparr>result_transaction = created_transaction (generated_id env) (created_at_now env) n r, created = True\<rparr> \<and>
         ledger_of s' = (ledger_of s2)(key \<mapsto> Done fp (created_transaction (generated_id env) (created_at_now env) n r)))"
proof -
  from begin_create_ledger [OF assms(1,2) b] have nk: "n = normalize_transaction_input t" "k = key"
    "fp = execution_fingerprint sn sha256 t"
    by (metis claimed_phase_Calling)+
  show ?thesis
  proof (cases answer)
    case (Inl err)
    show ?thesis
    proof (cases "frees_claim err")
      case True
      with e b p Inl have "finish_create R (generated_id env) (created_at_now env) (completed_at_now env)
          (Releasing k fp err) s2 = (a, s')" by (simp add: create_transaction_execute_def)
      from finish_releasing [OF p(2,3) this] nk Inl True show ?thesis by simp
    next
      case False
      with e b p Inl have "a = Inl err" "s' = s2" by (simp_all add: create_transaction_execute_def)
      with nk Inl False p(2) show ?thesis by simp
    qed
  next
    case (Inr r)
    with e b p have "finish_create R (generated_id env) (created_at_now env) (completed_at_now env)
        (Completing n k fp r) s2 = (a, s')" by (simp add: create_transaction_execute_def)
    from finish_completing [OF p(2,3) f [OF Inr] this] nk Inr show ?thesis by simp
  qed
qed

end

section \<open>Interleaved executions\<close>

text \<open>
  Any number of executions over one store.  The time moves on between steps; an execution is
  known by a number, and by when, under which key and with which fingerprint it claimed.
\<close>

record execution =
  exec_claimed :: int
  exec_key :: string
  exec_fingerprint :: string
  exec_phase :: create_phase

record 's create_system =
  store :: 's
  now_ms :: int
  executions :: "nat \<Rightarrow> execution option"

datatype create_event =
    Tick int
  | Begin nat transaction_input string
  | Answer nat "provider_result result"
  | Finish nat string

fun awaiting_end :: "create_phase \<Rightarrow> bool" where
  "awaiting_end (Releasing _ _ _) = True"
| "awaiting_end (Completing _ _ _ _) = True"
| "awaiting_end _ = False"

fun holds_claim :: "create_phase \<Rightarrow> bool" where
  "holds_claim (Returned _) = False"
| "holds_claim _ = True"

definition create_step :: "'s transaction_repository \<Rightarrow> (js_number \<Rightarrow> string) \<Rightarrow> (byte list \<Rightarrow> byte list) \<Rightarrow> int \<Rightarrow>
    create_event \<Rightarrow> 's create_system \<Rightarrow> 's create_system" where
  "create_step R sn sha256 T ev y =
     (case ev of
        Tick t \<Rightarrow> y\<lparr>now_ms := t\<rparr>
      | Begin i t key \<Rightarrow>
          (case begin_create R sn sha256 T (now_ms y) t key (store y) of
             (ph, s) \<Rightarrow> y\<lparr>store := s, executions := (executions y)(i \<mapsto>
               \<lparr>exec_claimed = now_ms y, exec_key = key,
                exec_fingerprint = execution_fingerprint sn sha256 t, exec_phase = ph\<rparr>)\<rparr>)
      | Answer i a \<Rightarrow>
          (case executions y i of
             None \<Rightarrow> y
           | Some x \<Rightarrow> y\<lparr>executions := (executions y)(i \<mapsto> x\<lparr>exec_phase := provider_answered a (exec_phase x)\<rparr>)\<rparr>)
      | Finish i gid \<Rightarrow>
          (case executions y i of
             None \<Rightarrow> y
           | Some x \<Rightarrow>
               if awaiting_end (exec_phase x)
               then (case finish_create R gid (now_ms y) (now_ms y) (exec_phase x) (store y) of
                       (r, s) \<Rightarrow> y\<lparr>store := s, executions := (executions y)(i \<mapsto> x\<lparr>exec_phase := Returned r\<rparr>)\<rparr>)
               else y))"

text \<open>
  Which events may happen.  With a bound \<open>Some w\<close>, time does not pass \<open>w\<close> ms after the claim of
  an execution that has not returned: what the validated provider timing promises.
\<close>

definition create_event_ok :: "(js_number \<Rightarrow> string) \<Rightarrow> (byte list \<Rightarrow> byte list) \<Rightarrow> int \<Rightarrow> int option \<Rightarrow>
    (claim_request \<Rightarrow> bool) \<Rightarrow> (complete_request \<Rightarrow> 's \<Rightarrow> bool) \<Rightarrow> create_event \<Rightarrow> 's create_system \<Rightarrow> bool" where
  "create_event_ok sn sha256 T w claim_ok complete_ok ev y \<longleftrightarrow>
     (case ev of
        Tick t \<Rightarrow> now_ms y \<le> t \<and> (case w of None \<Rightarrow> True
          | Some b \<Rightarrow> (\<forall>i x. executions y i = Some x \<longrightarrow> holds_claim (exec_phase x) \<longrightarrow> t \<le> exec_claimed x + b))
      | Begin i t key \<Rightarrow> executions y i = None \<and> claim_ok (execution_claim sn sha256 T (now_ms y) t key)
      | Answer i a \<Rightarrow> True
      | Finish i gid \<Rightarrow> (case executions y i of None \<Rightarrow> True
          | Some x \<Rightarrow> (case exec_phase x of
              Completing t key fp p \<Rightarrow>
                complete_ok (completion key fp (created_transaction gid (now_ms y) t p) (now_ms y)) (store y)
            | _ \<Rightarrow> True)))"

inductive create_reachable :: "'s transaction_repository \<Rightarrow> (js_number \<Rightarrow> string) \<Rightarrow> (byte list \<Rightarrow> byte list) \<Rightarrow> int \<Rightarrow>
    int option \<Rightarrow> (claim_request \<Rightarrow> bool) \<Rightarrow> (complete_request \<Rightarrow> 's \<Rightarrow> bool) \<Rightarrow> 's \<Rightarrow> 's create_system \<Rightarrow> bool"
  for R sn sha256 T w claim_ok complete_ok s0 where
  start: "create_reachable R sn sha256 T w claim_ok complete_ok s0
    \<lparr>store = s0, now_ms = t0, executions = (\<lambda>_. None)\<rparr>"
| event: "create_reachable R sn sha256 T w claim_ok complete_ok s0 y \<Longrightarrow>
    create_event_ok sn sha256 T w claim_ok complete_ok ev y \<Longrightarrow>
    create_reachable R sn sha256 T w claim_ok complete_ok s0 (create_step R sn sha256 T ev y)"

text \<open>The key and fingerprint of a phase are those the execution claimed with.\<close>

definition phase_of :: "execution \<Rightarrow> bool" where
  "phase_of x \<longleftrightarrow> holds_claim (exec_phase x) \<longrightarrow>
     phase_key (exec_phase x) = exec_key x \<and> phase_fingerprint (exec_phase x) = exec_fingerprint x"

definition answered_by :: "ledger \<Rightarrow> execution \<Rightarrow> bool" where
  "answered_by L x \<longleftrightarrow> (\<forall>r. exec_phase x = Returned (Inr r) \<longrightarrow>
     L (exec_key x) = Some (Done (exec_fingerprint x) (result_transaction r)))"

definition created_by :: "string \<Rightarrow> execution \<Rightarrow> bool" where
  "created_by key x \<longleftrightarrow> exec_key x = key \<and> (\<exists>r. exec_phase x = Returned (Inr r) \<and> created r)"

definition holder_ok :: "ledger \<Rightarrow> int \<Rightarrow> int \<Rightarrow> execution \<Rightarrow> bool" where
  "holder_ok L t b x \<longleftrightarrow> holds_claim (exec_phase x) \<longrightarrow>
     L (exec_key x) = Some (Claimed (exec_fingerprint x) (exec_claimed x)) \<and> t \<le> exec_claimed x + b"

text \<open>What holds of every reachable system, and what holds when executions are bounded.\<close>

definition create_inv :: "('s \<Rightarrow> bool) \<Rightarrow> ('s \<Rightarrow> ledger) \<Rightarrow> 's create_system \<Rightarrow> bool" where
  "create_inv invar ledger_of y \<longleftrightarrow> invar (store y) \<and>
     (\<forall>i x. executions y i = Some x \<longrightarrow> phase_of x \<and> answered_by (ledger_of (store y)) x) \<and>
     (\<forall>i j x z key. executions y i = Some x \<longrightarrow> executions y j = Some z \<longrightarrow>
        created_by key x \<longrightarrow> created_by key z \<longrightarrow> i = j)"

definition lease_inv :: "('s \<Rightarrow> ledger) \<Rightarrow> int \<Rightarrow> 's create_system \<Rightarrow> bool" where
  "lease_inv ledger_of b y \<longleftrightarrow>
     (\<forall>i x. executions y i = Some x \<longrightarrow> holder_ok (ledger_of (store y)) (now_ms y) b x) \<and>
     (\<forall>i j x z. executions y i = Some x \<longrightarrow> executions y j = Some z \<longrightarrow>
        holds_claim (exec_phase x) \<longrightarrow> holds_claim (exec_phase z) \<longrightarrow> exec_key x = exec_key z \<longrightarrow> i = j)"

text \<open>Updating one execution: the conditions to check.\<close>

lemma create_inv_update:
  assumes inv: "create_inv invar ledger_of y" and s: "invar s"
    and mono: "\<And>k fp x. ledger_of (store y) k = Some (Done fp x) \<Longrightarrow> ledger_of s k = Some (Done fp x)"
    and z: "phase_of z" "answered_by (ledger_of s) z"
    and fresh: "\<And>key. created_by key z \<Longrightarrow> \<forall>fp x. ledger_of (store y) key \<noteq> Some (Done fp x)"
  shows "create_inv invar ledger_of (y\<lparr>store := s, executions := (executions y)(i \<mapsto> z)\<rparr>)"
proof -
  have old: "phase_of x" "answered_by (ledger_of (store y)) x" if "executions y j = Some x" for j x
    using inv that by (auto simp: create_inv_def)
  have lift: "answered_by (ledger_of s) x" if "executions y j = Some x" for j x
    using old(2) [OF that] mono by (auto simp: answered_by_def)
  have alone: "\<not> created_by key x" if "executions y j = Some x" "created_by key z" for j x key
  proof
    assume "created_by key x"
    then obtain r where "exec_key x = key" "exec_phase x = Returned (Inr r)" by (auto simp: created_by_def)
    with old(2) [OF that(1)] fresh [OF that(2)] show False by (auto simp: answered_by_def)
  qed
  have pairs: "\<forall>i j x z key. executions y i = Some x \<longrightarrow> executions y j = Some z \<longrightarrow>
      created_by key x \<longrightarrow> created_by key z \<longrightarrow> i = j" using inv by (simp add: create_inv_def)
  show ?thesis unfolding create_inv_def
    using s z old(1) lift alone pairs by (auto split: if_splits)
qed

text \<open>What the end of an execution does to the store, whatever became of its claim meanwhile.\<close>

context idempotent_store
begin

lemma finish_create_ledger:
  assumes inv: "invar s" and fin: "finish_create R gid n1 n2 ph s = (r, s')" and run: "awaiting_end ph"
    and ok: "\<And>t key fp p. ph = Completing t key fp p \<Longrightarrow>
      complete_ok (completion key fp (created_transaction gid n1 t p) n2) s"
  shows "invar s' \<and> ((\<exists>e. r = Inl e) \<and>
      (ledger_of s' = ledger_of s \<or> ledger_of s' = (ledger_of s)(phase_key ph := None) \<and>
        open_for (phase_key ph) (phase_fingerprint ph) (ledger_of s)) \<or>
    (\<exists>x. r = Inr \<lparr>result_transaction = x, created = True\<rparr> \<and>
      open_for (phase_key ph) (phase_fingerprint ph) (ledger_of s) \<and>
      ledger_of s' = (ledger_of s)(phase_key ph \<mapsto> Done (phase_fingerprint ph) x)))"
proof (cases ph)
  case (Releasing key fp e)
  obtain b s1 where rel: "release_idempotency_operation R \<lparr>release_key = key, release_fingerprint = fp\<rparr> s = (b, s1)"
    by fastforce
  from release_law [OF inv rel] rel fin Releasing show ?thesis
    by (auto simp: ledger_release_def open_for_def split: option.splits entry.splits if_splits)
next
  case (Completing t key fp p)
  let ?r = "completion key fp (created_transaction gid n1 t p) n2"
  obtain b s1 where c: "complete_idempotency_operation R ?r s = (b, s1)" by fastforce
  note law = complete_law [OF inv ok [OF Completing] c]
  show ?thesis
  proof (cases "ledger_complete ?r (ledger_of s)")
    case None
    with law c fin Completing show ?thesis by (auto simp: Let_def)
  next
    case (Some L)
    with law c fin Completing show ?thesis by (auto simp: Let_def ledger_complete_Some)
  qed
qed (use run in simp_all)

lemma create_step_inv:
  assumes inv: "create_inv invar ledger_of y" and ev: "create_event_ok sn sha256 T w claim_ok complete_ok ev y"
  shows "create_inv invar ledger_of (create_step R sn sha256 T ev y)"
proof (cases ev)
  case (Tick t)
  with inv show ?thesis by (simp add: create_step_def create_inv_def)
next
  case (Begin i t key)
  obtain ph s where b: "begin_create R sn sha256 T (now_ms y) t key (store y) = (ph, s)" by fastforce
  have st: "invar (store y)" using inv by (simp add: create_inv_def)
  from begin_create_ledger [OF st _ b] ev Begin obtain c where c: "invar s"
    "ledger_claim (execution_claim sn sha256 T (now_ms y) t key) (ledger_of (store y)) c (ledger_of s)"
    "ph = claimed_phase c (normalize_transaction_input t) key (execution_fingerprint sn sha256 t)"
    by (auto simp: create_event_ok_def)
  let ?z = "\<lparr>exec_claimed = now_ms y, exec_key = key, exec_fingerprint = execution_fingerprint sn sha256 t, exec_phase = ph\<rparr>"
  have "create_inv invar ledger_of (y\<lparr>store := s, executions := (executions y)(i \<mapsto> ?z)\<rparr>)"
  proof (rule create_inv_update [OF inv c(1)])
    show "ledger_of s k = Some (Done fp x)" if "ledger_of (store y) k = Some (Done fp x)" for k fp x
      using ledger_claim_keeps_done [OF c(2) that] .
    show "phase_of ?z" "answered_by (ledger_of s) ?z"
      using c(2,3) by (cases c; auto simp: phase_of_def answered_by_def claimed_phase_def elim: ledger_claim.cases)+
    show "\<forall>fp x. ledger_of (store y) k \<noteq> Some (Done fp x)" if "created_by k ?z" for k
      using that c(3) by (cases c) (auto simp: created_by_def claimed_phase_def)
  qed
  with Begin b show ?thesis by (simp add: create_step_def)
next
  case (Answer i a)
  show ?thesis
  proof (cases "executions y i")
    case None
    with Answer inv show ?thesis by (simp add: create_step_def)
  next
    case (Some x)
    let ?z = "x\<lparr>exec_phase := provider_answered a (exec_phase x)\<rparr>"
    have st: "invar (store y)" and x: "phase_of x" "answered_by (ledger_of (store y)) x"
      using inv Some by (auto simp: create_inv_def)
    have stable: "exec_phase x = Returned r \<longleftrightarrow> provider_answered a (exec_phase x) = Returned r"
      if "r = Inr q" for r q
      using that by (cases "exec_phase x"; cases a) auto
    show ?thesis
    proof (cases "exec_phase x")
      case (Calling t key fp)
      then have "\<not> created_by k ?z" for k by (cases a) (auto simp: created_by_def)
      moreover have "phase_of ?z" "answered_by (ledger_of (store y)) ?z"
        using x Calling by (cases a; auto simp: phase_of_def answered_by_def)+
      ultimately have "create_inv invar ledger_of (y\<lparr>store := store y, executions := (executions y)(i \<mapsto> ?z)\<rparr>)"
        by (intro create_inv_update [OF inv st]) auto
      with Answer Some show ?thesis by (simp add: create_step_def)
    next
      case (Returned r)
      then have "?z = x" by (cases a) simp_all
      with Answer Some inv show ?thesis by (simp add: create_step_def fun_upd_idem)
    qed (use Answer Some inv in \<open>cases a; simp add: create_step_def fun_upd_idem\<close>)+
  qed
next
  case (Finish i gid)
  show ?thesis
  proof (cases "\<exists>x. executions y i = Some x \<and> awaiting_end (exec_phase x)")
    case False
    with Finish inv show ?thesis by (auto simp: create_step_def split: option.splits)
  next
    case True
    then obtain x where x: "executions y i = Some x" "awaiting_end (exec_phase x)" by blast
    obtain r s where f: "finish_create R gid (now_ms y) (now_ms y) (exec_phase x) (store y) = (r, s)" by fastforce
    have st: "invar (store y)" and ph: "phase_of x" using inv x by (auto simp: create_inv_def)
    then have key: "phase_key (exec_phase x) = exec_key x" "phase_fingerprint (exec_phase x) = exec_fingerprint x"
      using x(2) by (cases "exec_phase x"; auto simp: phase_of_def)+
    have ok: "complete_ok (completion key fp (created_transaction gid (now_ms y) t p) (now_ms y)) (store y)"
      if "exec_phase x = Completing t key fp p" for t key fp p
      using ev Finish x that by (simp add: create_event_ok_def)
    note fin = finish_create_ledger [OF st f x(2) ok, unfolded key]
    let ?z = "x\<lparr>exec_phase := Returned r\<rparr>"
    have "create_inv invar ledger_of (y\<lparr>store := s, executions := (executions y)(i \<mapsto> ?z)\<rparr>)"
    proof (rule create_inv_update [OF inv])
      show "invar s" using fin by blast
      show "ledger_of s k = Some (Done fp q)" if "ledger_of (store y) k = Some (Done fp q)" for k fp q
        using that fin by (auto simp: open_for_def)
      show "phase_of ?z" by (simp add: phase_of_def)
      show "answered_by (ledger_of s) ?z" using fin by (auto simp: answered_by_def)
      show "\<forall>fp q. ledger_of (store y) k \<noteq> Some (Done fp q)" if "created_by k ?z" for k
        using that fin by (auto simp: created_by_def open_for_def)
    qed
    with Finish x f show ?thesis by (simp add: create_step_def)
  qed
qed

lemma create_reachable_inv:
  "create_reachable R sn sha256 T w claim_ok complete_ok s0 y \<Longrightarrow> invar s0 \<Longrightarrow> create_inv invar ledger_of y"
proof (induction rule: create_reachable.induct)
  case (start t0)
  then show ?case by (simp add: create_inv_def)
next
  case (event y ev)
  then show ?case using create_step_inv by blast
qed

end

section \<open>Executions that end before their lease\<close>

lemma lease_inv_update:
  assumes inv: "lease_inv ledger_of b y"
    and others: "\<And>j x. j \<noteq> i \<Longrightarrow> executions y j = Some x \<Longrightarrow> holds_claim (exec_phase x) \<Longrightarrow>
      ledger_of s (exec_key x) = ledger_of (store y) (exec_key x)"
    and z: "holder_ok (ledger_of s) (now_ms y) b z"
    and alone: "\<And>j x. holds_claim (exec_phase z) \<Longrightarrow> j \<noteq> i \<Longrightarrow> executions y j = Some x \<Longrightarrow>
      holds_claim (exec_phase x) \<Longrightarrow> exec_key x \<noteq> exec_key z"
  shows "lease_inv ledger_of b (y\<lparr>store := s, executions := (executions y)(i \<mapsto> z)\<rparr>)"
proof -
  have "holder_ok (ledger_of s) (now_ms y) b x" if "j \<noteq> i" "executions y j = Some x" for j x
    using inv others [OF that] that by (auto simp: lease_inv_def holder_ok_def)
  moreover have "\<forall>i j x z. executions y i = Some x \<longrightarrow> executions y j = Some z \<longrightarrow>
      holds_claim (exec_phase x) \<longrightarrow> holds_claim (exec_phase z) \<longrightarrow> exec_key x = exec_key z \<longrightarrow> i = j"
    using inv by (simp add: lease_inv_def)
  moreover have "exec_key z \<noteq> exec_key x" if "holds_claim (exec_phase z)" "j \<noteq> i" "executions y j = Some x"
      "holds_claim (exec_phase x)" for j x
    using alone [OF that] by simp
  ultimately show ?thesis unfolding lease_inv_def using z alone by (auto split: if_splits)
qed

lemma lease_holder:
  "lease_inv ledger_of b y \<Longrightarrow> executions y i = Some x \<Longrightarrow> holds_claim (exec_phase x) \<Longrightarrow>
    ledger_of (store y) (exec_key x) = Some (Claimed (exec_fingerprint x) (exec_claimed x)) \<and> now_ms y \<le> exec_claimed x + b"
  by (auto simp: lease_inv_def holder_ok_def)

lemma lease_single:
  "lease_inv ledger_of b y \<Longrightarrow> executions y i = Some x \<Longrightarrow> executions y j = Some z \<Longrightarrow>
    holds_claim (exec_phase x) \<Longrightarrow> holds_claim (exec_phase z) \<Longrightarrow> exec_key x = exec_key z \<Longrightarrow> i = j"
  by (auto simp: lease_inv_def)

lemma ledger_claim_other: "ledger_claim r L c L' \<Longrightarrow> k \<noteq> claim_key r \<Longrightarrow> L' k = L k"
  by (auto elim: ledger_claim.cases)

lemma ledger_claim_new_entry:
  "ledger_claim r L New_Claim L' \<Longrightarrow> L' (claim_key r) = Some (Claimed (claim_fingerprint r) (claimed_at r))"
  by (auto elim: ledger_claim_newE)

lemma ledger_claim_unless_new: "ledger_claim r L c L' \<Longrightarrow> c \<noteq> New_Claim \<Longrightarrow> L' = L"
  by (auto elim: ledger_claim.cases)

context idempotent_store
begin

text \<open>A claim is handed out again only when no execution that got it is still running.\<close>

lemma begin_lease:
  assumes lease: "lease_inv ledger_of b y" and short: "b < T" and nonneg: "0 \<le> b" and st: "invar (store y)"
    and ok: "claim_ok (execution_claim sn sha256 T (now_ms y) t key)" and free: "executions y i = None"
    and b: "begin_create R sn sha256 T (now_ms y) t key (store y) = (ph, s)"
  shows "lease_inv ledger_of b (y\<lparr>store := s, executions := (executions y)(i \<mapsto> \<lparr>exec_claimed = now_ms y,
    exec_key = key, exec_fingerprint = execution_fingerprint sn sha256 t, exec_phase = ph\<rparr>)\<rparr>)"
proof -
  from begin_create_ledger [OF st ok b] obtain c where c:
    "ledger_claim (execution_claim sn sha256 T (now_ms y) t key) (ledger_of (store y)) c (ledger_of s)"
    "ph = claimed_phase c (normalize_transaction_input t) key (execution_fingerprint sn sha256 t)" by blast
  have free_key: "exec_key x \<noteq> key" if "c = New_Claim" "executions y j = Some x" "holds_claim (exec_phase x)" for j x
  proof
    assume key: "exec_key x = key"
    from lease_holder [OF lease that(2,3)] c(1) that(1) key short show False
      by (auto elim!: ledger_claim_newE)
  qed
  have held: "c = New_Claim" if "holds_claim ph" using that c(2) by (cases c) (auto simp: claimed_phase_def)
  show ?thesis
  proof (rule lease_inv_update [OF lease])
    show "ledger_of s (exec_key x) = ledger_of (store y) (exec_key x)"
      if "executions y j = Some x" "holds_claim (exec_phase x)" for j x
      using that free_key [OF _ that] c(1) ledger_claim_other ledger_claim_unless_new
      by (metis execution_claim_simps(1))
    show "holder_ok (ledger_of s) (now_ms y) b \<lparr>exec_claimed = now_ms y, exec_key = key,
        exec_fingerprint = execution_fingerprint sn sha256 t, exec_phase = ph\<rparr>"
      using held c(1) nonneg ledger_claim_new_entry [of "execution_claim sn sha256 T (now_ms y) t key"]
      by (auto simp: holder_ok_def)
    show "exec_key x \<noteq> exec_key \<lparr>exec_claimed = now_ms y, exec_key = key,
        exec_fingerprint = execution_fingerprint sn sha256 t, exec_phase = ph\<rparr>"
      if "holds_claim (exec_phase \<lparr>exec_claimed = now_ms y, exec_key = key,
        exec_fingerprint = execution_fingerprint sn sha256 t, exec_phase = ph\<rparr>)" "executions y j = Some x"
        "holds_claim (exec_phase x)" for j x
      using held free_key that by simp
  qed
qed

lemma create_step_lease:
  assumes inv: "create_inv invar ledger_of y" and lease: "lease_inv ledger_of b y"
    and short: "b < T" and nonneg: "0 \<le> b"
    and ev: "create_event_ok sn sha256 T (Some b) claim_ok complete_ok ev y"
  shows "lease_inv ledger_of b (create_step R sn sha256 T ev y)"
proof (cases ev)
  case (Tick t)
  with lease ev show ?thesis by (auto simp: create_step_def create_event_ok_def lease_inv_def holder_ok_def)
next
  case (Begin i t key)
  obtain ph s where b: "begin_create R sn sha256 T (now_ms y) t key (store y) = (ph, s)" by fastforce
  have "invar (store y)" using inv by (simp add: create_inv_def)
  from begin_lease [OF lease short nonneg this _ _ b] ev Begin b show ?thesis
    by (simp add: create_step_def create_event_ok_def)
next
  case (Answer i a)
  show ?thesis
  proof (cases "executions y i")
    case None
    with Answer lease show ?thesis by (simp add: create_step_def)
  next
    case (Some x)
    let ?z = "x\<lparr>exec_phase := provider_answered a (exec_phase x)\<rparr>"
    have held: "holds_claim (exec_phase x)" if "holds_claim (exec_phase ?z)"
      using that by (cases "exec_phase x"; cases a) auto
    have "lease_inv ledger_of b (y\<lparr>store := store y, executions := (executions y)(i \<mapsto> ?z)\<rparr>)"
    proof (rule lease_inv_update [OF lease])
      show "holder_ok (ledger_of (store y)) (now_ms y) b ?z"
        using held lease_holder [OF lease Some] by (auto simp: holder_ok_def)
      show "exec_key w \<noteq> exec_key ?z" if "holds_claim (exec_phase ?z)" "j \<noteq> i" "executions y j = Some w"
        "holds_claim (exec_phase w)" for j w
        using lease_single [OF lease that(3) Some that(4) held [OF that(1)]] that(2) by auto
    qed simp
    with Answer Some show ?thesis by (simp add: create_step_def)
  qed
next
  case (Finish i gid)
  show ?thesis
  proof (cases "\<exists>x. executions y i = Some x \<and> awaiting_end (exec_phase x)")
    case False
    with Finish lease show ?thesis by (auto simp: create_step_def split: option.splits)
  next
    case True
    then obtain x where x: "executions y i = Some x" "awaiting_end (exec_phase x)" by blast
    then have held: "holds_claim (exec_phase x)" by (cases "exec_phase x") auto
    obtain r s where f: "finish_create R gid (now_ms y) (now_ms y) (exec_phase x) (store y) = (r, s)" by fastforce
    have st: "invar (store y)" and "phase_of x" using inv x by (auto simp: create_inv_def)
    then have key: "phase_key (exec_phase x) = exec_key x" "phase_fingerprint (exec_phase x) = exec_fingerprint x"
      using held by (auto simp: phase_of_def)
    have ok: "complete_ok (completion key fp (created_transaction gid (now_ms y) t p) (now_ms y)) (store y)"
      if "exec_phase x = Completing t key fp p" for t key fp p
      using ev Finish x that by (simp add: create_event_ok_def)
    note fin = finish_create_ledger [OF st f x(2) ok, unfolded key]
    have "lease_inv ledger_of b (y\<lparr>store := s, executions := (executions y)(i \<mapsto> x\<lparr>exec_phase := Returned r\<rparr>)\<rparr>)"
    proof (rule lease_inv_update [OF lease])
      show "ledger_of s (exec_key w) = ledger_of (store y) (exec_key w)"
        if "j \<noteq> i" "executions y j = Some w" "holds_claim (exec_phase w)" for j w
        using lease_single [OF lease that(2) x(1) that(3) held] that(1) fin by auto
    qed (simp_all add: holder_ok_def)
    with Finish x f show ?thesis by (simp add: create_step_def)
  qed
qed

lemma create_reachable_lease:
  assumes "create_reachable R sn sha256 T (Some b) claim_ok complete_ok s0 y" "invar s0" "b < T" "0 \<le> b"
  shows "lease_inv ledger_of b y"
  using assms
proof (induction rule: create_reachable.induct)
  case (start t0)
  then show ?case by (simp add: lease_inv_def)
next
  case (event y ev)
  then show ?case using create_step_lease [of y b T] create_reachable_inv by blast
qed

text \<open>In such a system an approved payment is always recorded.\<close>

lemma finish_succeeds:
  assumes inv: "create_inv invar ledger_of y" and lease: "lease_inv ledger_of b y"
    and x: "executions y i = Some x" "exec_phase x = Completing t key fp p"
    and ok: "complete_ok (completion key fp (created_transaction gid (now_ms y) t p) (now_ms y)) (store y)"
  shows "fst (finish_create R gid (now_ms y) (now_ms y) (exec_phase x) (store y)) =
    Inr \<lparr>result_transaction = created_transaction gid (now_ms y) t p, created = True\<rparr>"
proof -
  obtain r s where f: "finish_create R gid (now_ms y) (now_ms y) (Completing t key fp p) (store y) = (r, s)" by fastforce
  have st: "invar (store y)" and "phase_of x" using inv x by (auto simp: create_inv_def)
  then have "key = exec_key x" "fp = exec_fingerprint x" using x by (auto simp: phase_of_def)
  then have "open_for key fp (ledger_of (store y))"
    using lease_holder [OF lease x(1)] x(2) by (simp add: open_for_def)
  from finish_completing [OF st this ok f] x(2) f show ?thesis by simp
qed

end

section \<open>Properties\<close>

text \<open>
  C14: however many executions of \<open>CreateTransaction\<close> interleave over Postgres, whatever the
  provider answers and however long anyone takes: all executions of one idempotency key that
  return successfully had the same request fingerprint and return the same transaction, the
  database holds exactly that transaction for the key, and only one of them reports it as newly
  created.
\<close>
theorem create_exactly_once:
  assumes "driver_ok drv" "db_ok db"
    and "create_reachable (postgres_transaction_repository drv) sn sha256 T w db_claim_ok db_complete_ok db y"
    and "executions y i = Some x" "executions y j = Some z" "exec_key x = exec_key z"
    and "exec_phase x = Returned (Inr p)" "exec_phase z = Returned (Inr q)"
  shows "result_transaction p = result_transaction q \<and> exec_fingerprint x = exec_fingerprint z \<and>
    db_ledger (store y) (exec_key x) = Some (Done (exec_fingerprint x) (result_transaction p)) \<and>
    (created p \<and> created q \<longrightarrow> i = j)"
proof -
  have inv: "create_inv (\<lambda>db. driver_ok drv \<and> db_ok db) db_ledger y"
    using postgres.create_reachable_inv [OF assms(3)] assms(1,2) by simp
  then have "answered_by (db_ledger (store y)) x" "answered_by (db_ledger (store y)) z"
    using assms(4,5) by (auto simp: create_inv_def)
  moreover have "i = j" if "created p" "created q"
  proof -
    have "created_by (exec_key x) x" "created_by (exec_key x) z"
      using that assms(6-8) by (auto simp: created_by_def)
    with inv assms(4,5) show ?thesis unfolding create_inv_def by blast
  qed
  ultimately show ?thesis using assms(6-8) by (auto simp: answered_by_def)
qed

text \<open>An execution that runs to its end, for the witnesses; its digest is constant.\<close>

definition demo_sha :: "byte list \<Rightarrow> byte list" where
  "demo_sha bs = replicate 32 170"

definition demo_input :: transaction_input where
  "demo_input = \<lparr>amount = 1099, currency = ''BRL'', description = ''order''\<rparr>"

definition demo_result :: provider_result where
  "demo_result = \<lparr>result_provider_transaction_id = ''p1'', decision = Approved\<rparr>"

definition demo_id :: string where
  "demo_id = ''123e4567-e89b-42d3-a456-426614174000''"

definition demo_fingerprint :: string where
  "demo_fingerprint = replicate 64 (CHR ''a'')"

definition demo_transaction :: transaction where
  "demo_transaction = created_transaction demo_id 1000 demo_input demo_result"

definition demo_database :: database where
  "demo_database = empty_database\<lparr>operations_table := [(''k1'', \<lparr>idempotency_key = ''k1'',
     request_fingerprint = demo_fingerprint, operation_status = Processing, operation_transaction_id = None,
     operation_created_at = 1000, updated_at = 1000\<rparr>)]\<rparr>"

lemma demo_input_normal: "normalize_transaction_input demo_input = demo_input"
  by code_simp

lemma demo_fingerprint: "execution_fingerprint sn demo_sha t = demo_fingerprint"
  by (simp add: execution_fingerprint_def create_request_fingerprint_def demo_sha_def demo_fingerprint_def hex_encode_170)

lemma demo_claim_ok: "0 \<le> T \<Longrightarrow> db_claim_ok (execution_claim sn demo_sha T n t ''k1'')"
  by (simp add: db_claim_ok_def demo_fingerprint demo_fingerprint_def is_lower_hex_char_def list_all_iff code_def)

lemma demo_begin:
  assumes "0 \<le> T"
  shows "begin_create (postgres_transaction_repository drv) sn demo_sha T 1000 demo_input ''k1'' empty_database =
    (Calling demo_input ''k1'' demo_fingerprint, demo_database)"
proof -
  let ?r = "create_claim T 1000 ''k1'' demo_fingerprint"
  have "operation_row_ok \<lparr>idempotency_key = ''k1'', request_fingerprint = demo_fingerprint, operation_status = Processing,
      operation_transaction_id = None, operation_created_at = 1000, updated_at = 1000\<rparr>"
    by (simp add: operation_row_ok_def demo_fingerprint_def is_lower_hex_char_def list_all_iff code_def)
  then have "postgres_claim drv ?r empty_database = (Inr New_Claim, demo_database)"
    by (simp add: postgres_claim_def claim_run.simps sql_insert_operation_def create_claim_def empty_database_def
        demo_database_def js_set_def)
  then show ?thesis
    using demo_fingerprint [of sn demo_input]
    by (simp add: begin_create_def postgres_transaction_repository_def demo_input_normal execution_fingerprint_def Let_def)
qed

lemma demo_complete_ok:
  "db_complete_ok (completion ''k1'' demo_fingerprint demo_transaction 1000) demo_database"
proof -
  have "transaction_row_ok demo_transaction" "to_lower (transaction_id demo_transaction) = transaction_id demo_transaction"
    by code_simp+
  then show ?thesis
    by (simp add: db_complete_ok_def demo_database_def empty_database_def js_get_def)
qed

definition demo_execution :: "create_phase \<Rightarrow> execution" where
  "demo_execution ph = \<lparr>exec_claimed = 1000, exec_key = ''k1'', exec_fingerprint = demo_fingerprint, exec_phase = ph\<rparr>"

definition demo_completing :: "database create_system" where
  "demo_completing = \<lparr>store = demo_database, now_ms = 1000,
     executions = [1 \<mapsto> demo_execution (Completing demo_input ''k1'' demo_fingerprint demo_result)]\<rparr>"

definition demo_finished :: "driver \<Rightarrow> (js_number \<Rightarrow> string) \<Rightarrow> int \<Rightarrow> database create_system" where
  "demo_finished drv sn T = create_step (postgres_transaction_repository drv) sn demo_sha T (Finish 1 demo_id) demo_completing"

lemma demo_reachable:
  assumes "0 \<le> T"
  shows "create_reachable (postgres_transaction_repository drv) sn demo_sha T w db_claim_ok db_complete_ok
      empty_database demo_completing"
    "create_reachable (postgres_transaction_repository drv) sn demo_sha T w db_claim_ok db_complete_ok
      empty_database (demo_finished drv sn T)"
proof -
  let ?R = "postgres_transaction_repository drv"
  let ?reach = "create_reachable ?R sn demo_sha T w db_claim_ok db_complete_ok empty_database"
  let ?start = "\<lparr>store = empty_database, now_ms = 1000, executions = (\<lambda>_. None)\<rparr>"
  let ?begun = "create_step ?R sn demo_sha T (Begin 1 demo_input ''k1'') ?start"
  have "?reach ?begun"
    by (rule create_reachable.event [OF create_reachable.start])
      (simp add: create_event_ok_def demo_claim_ok assms)
  then have "?reach (create_step ?R sn demo_sha T (Answer 1 (Inr demo_result)) ?begun)"
    by (rule create_reachable.event) (simp add: create_event_ok_def)
  also have "create_step ?R sn demo_sha T (Answer 1 (Inr demo_result)) ?begun = demo_completing"
    by (simp add: create_step_def demo_begin assms demo_completing_def demo_execution_def demo_fingerprint)
  finally show c: "?reach demo_completing" .
  show "?reach (demo_finished drv sn T)" unfolding demo_finished_def
    by (rule create_reachable.event [OF c])
      (use demo_complete_ok in \<open>simp add: create_event_ok_def demo_completing_def demo_execution_def demo_transaction_def\<close>)
qed

lemma demo_returned:
  assumes "driver_ok drv"
  shows "executions (demo_finished drv sn T) 1 =
    Some (demo_execution (Returned (Inr \<lparr>result_transaction = demo_transaction, created = True\<rparr>)))"
proof -
  have L: "open_for ''k1'' demo_fingerprint (db_ledger demo_database)"
    by (simp add: open_for_def db_ledger_def demo_database_def db_entry_def js_get_def)
  have ok: "driver_ok drv \<and> db_ok demo_database"
    using postgres.begin_create_ledger [of drv empty_database sn demo_sha 0 1000 demo_input "''k1''"]
    by (simp add: demo_begin demo_claim_ok db_ok_empty assms)
  obtain a s where f: "finish_create (postgres_transaction_repository drv) demo_id 1000 1000
      (Completing demo_input ''k1'' demo_fingerprint demo_result) demo_database = (a, s)" by fastforce
  with postgres.finish_completing [OF ok L _ f] demo_complete_ok show ?thesis
    by (simp add: demo_finished_def create_step_def demo_completing_def demo_execution_def demo_transaction_def)
qed

theorem create_exactly_once_witness:
  "db_ledger (store (demo_finished text_driver (\<lambda>_. []) 30000)) ''k1'' = Some (Done demo_fingerprint demo_transaction)"
proof -
  have T: "(0::int) \<le> 30000" by simp
  note ret = demo_returned [OF text_driver_ok, of "\<lambda>_. []" 30000]
  have ph: "exec_phase (demo_execution (Returned (Inr \<lparr>result_transaction = demo_transaction, created = True\<rparr>))) =
      Returned (Inr \<lparr>result_transaction = demo_transaction, created = True\<rparr>)" by (simp add: demo_execution_def)
  from create_exactly_once [OF text_driver_ok db_ok_empty demo_reachable(2) [OF T] ret ret refl ph ph]
  show ?thesis by (simp add: demo_execution_def)
qed

section \<open>What a late execution can do\<close>

definition memory_create_step :: "int \<Rightarrow> create_event \<Rightarrow> memory_repository create_system \<Rightarrow> memory_repository create_system" where
  "memory_create_step T = create_step (in_memory_transaction_repository (\<lambda>_ _. 0)) (\<lambda>_. []) demo_sha T"

text \<open>
  Execution 1 claims and hangs; 2 takes the stale claim over and calls the provider; then 1 is
  rejected and releases; 3 comes a millisecond after 2.
\<close>

definition late_release_run :: "create_event list" where
  "late_release_run = [Begin 1 demo_input ''k1'', Tick 30000, Begin 2 demo_input ''k1'',
     Answer 1 (Inl (Provider_Rejected_Error (Some 422))), Finish 1 [], Tick 30001, Begin 3 demo_input ''k1'']"

definition late_release_start :: "memory_repository create_system" where
  "late_release_start = \<lparr>store = empty_memory, now_ms = 0, executions = (\<lambda>_. None)\<rparr>"

text \<open>
  A release is not tied to the claim it was made for: an execution that outlived its lease
  and is then rejected deletes the claim a second execution has taken over meanwhile, so that a
  third one claims the same key one millisecond later, while the second is still waiting for the
  provider; with a lease of 30 seconds two executions hold the key at once.
\<close>
theorem late_release_frees_new_holder:
  "let y = fold (memory_create_step 30000) late_release_run late_release_start in
   map_option (\<lambda>x. (exec_claimed x, exec_phase x)) (executions y 2) = Some (30000, Calling demo_input ''k1'' demo_fingerprint) \<and>
   map_option (\<lambda>x. (exec_claimed x, exec_phase x)) (executions y 3) = Some (30001, Calling demo_input ''k1'' demo_fingerprint)"
proof -
  have fp: "create_request_fingerprint sn demo_sha demo_input = demo_fingerprint" for sn
    using demo_fingerprint [of sn demo_input] by (simp add: execution_fingerprint_def demo_input_normal)
  show ?thesis
    by (simp add: Let_def late_release_run_def late_release_start_def memory_create_step_def create_step_def
        begin_create_def in_memory_transaction_repository_def memory_claim_def memory_release_def
        create_claim_def empty_memory_def demo_input_normal fp)
qed

section \<open>Outcomes of one execution\<close>

text \<open>
  Once a key is completed, executing \<open>CreateTransaction\<close> with it answers from the database,
  for every provider: the stored transaction, not as a new one, when the request has the stored
  fingerprint, and the conflict otherwise; nothing changes.  While a claim is open and not yet
  stale the answer is \<open>IdempotencyInProgress\<close>, or the conflict.
\<close>
theorem create_answers_from_store:
  assumes "driver_ok drv" "db_ok db" "db_claim_ok (execution_claim sn sha256 T (claimed_at_now env) t key)"
    and "create_transaction_execute (postgres_transaction_repository drv) sn sha256 T env t key db = (a, db')"
  shows "(\<forall>fp x. db_ledger db key = Some (Done fp x) \<longrightarrow> db_ledger db' = db_ledger db \<and>
      a = (if execution_fingerprint sn sha256 t = fp then Inr \<lparr>result_transaction = x, created = False\<rparr>
           else Inl Idempotency_Conflict_Error)) \<and>
    (\<forall>fp u. db_ledger db key = Some (Claimed fp u) \<and> claimed_at_now env - T < u \<longrightarrow> db_ledger db' = db_ledger db \<and>
      a = Inl (if execution_fingerprint sn sha256 t = fp then Idempotency_In_Progress_Error
               else Idempotency_Conflict_Error))"
  using postgres.execute_done [OF conjI [OF assms(1,2)] assms(3) _ assms(4)]
    postgres.execute_busy [OF conjI [OF assms(1,2)] assms(3) _ _ assms(4)] by blast

definition demo_env :: "provider_result result \<Rightarrow> database create_env" where
  "demo_env answer = \<lparr>claimed_at_now = 1000, provider_process = (\<lambda>_ _ s. (answer, s)), generated_id = demo_id,
     created_at_now = 1000, completed_at_now = 1000\<rparr>"

lemma demo_database_ok: "db_ok demo_database"
  using postgres.begin_create_ledger [of text_driver empty_database sn demo_sha 0 1000 demo_input "''k1''" "Calling demo_input ''k1'' demo_fingerprint"]
  by (simp add: demo_begin demo_claim_ok db_ok_empty text_driver_ok)

lemma demo_database_ledger: "db_ledger demo_database ''k1'' = Some (Claimed demo_fingerprint 1000)"
  by (simp add: db_ledger_def demo_database_def db_entry_def js_get_def)

theorem create_answers_from_store_witness:
  "fst (create_transaction_execute (postgres_transaction_repository text_driver) (\<lambda>_. []) demo_sha 30000
     (demo_env (Inr demo_result)) demo_input ''k1'' demo_database) = Inl Idempotency_In_Progress_Error"
proof -
  let ?e = "create_transaction_execute (postgres_transaction_repository text_driver) (\<lambda>_. []) demo_sha 30000
     (demo_env (Inr demo_result)) demo_input ''k1'' demo_database"
  have "db_claim_ok (execution_claim (\<lambda>_. []) demo_sha 30000 (claimed_at_now (demo_env (Inr demo_result))) demo_input ''k1'')"
    by (simp add: demo_claim_ok)
  from create_answers_from_store [OF text_driver_ok demo_database_ok this, of "fst ?e" "snd ?e"]
  show ?thesis using demo_database_ledger by (simp add: demo_env_def demo_fingerprint)
qed



end
