(* ===== verification/Queries.thy ===== *)
theory Queries
  imports Repository Memory_Repository Postgres_Repository Js_Number
begin

text \<open>
  The reading use cases: \<^verbatim>\<open>src/src/application/use-cases/get-transaction.ts\<close>, over a repository
  and an optional cache whose contract is the locale \<open>read_cache\<close>, and
  \<^verbatim>\<open>src/src/application/use-cases/list-transactions.ts\<close>.
\<close>

section \<open>GetTransaction\<close>

record 'c transaction_cache =
  cache_get :: "string \<Rightarrow> 'c \<Rightarrow> transaction option result \<times> 'c"
  cache_set :: "transaction \<Rightarrow> 'c \<Rightarrow> unit result \<times> 'c"

text \<open>A hit ends the call, a miss or a thrown error goes on to the repository.\<close>

definition read_through :: "'c transaction_cache option \<Rightarrow> string \<Rightarrow> 'c \<Rightarrow> transaction option \<times> 'c" where
  "read_through cache i c =
     (case cache of
        None \<Rightarrow> (None, c)
      | Some C \<Rightarrow> (case cache_get C i c of
          (Inl e, c') \<Rightarrow> (None, c')
        | (Inr found, c') \<Rightarrow> (found, c')))"

definition get_transaction_execute :: "'s transaction_repository \<Rightarrow> 'c transaction_cache option \<Rightarrow> string \<Rightarrow> 's \<Rightarrow> 'c \<Rightarrow>
    transaction result \<times> 'c" where
  "get_transaction_execute R cache i s c =
     (case read_through cache i c of
        (Some cached, c1) \<Rightarrow> (Inr cached, c1)
      | (None, c1) \<Rightarrow>
          (case find_by_id R i s of
             Inl e \<Rightarrow> (Inl e, c1)
           | Inr None \<Rightarrow> (Inl Transaction_Not_Found_Error, c1)
           | Inr (Some t) \<Rightarrow>
               (Inr t, (case cache of None \<Rightarrow> c1 | Some C \<Rightarrow> snd (cache_set C t c1)))))"

text \<open>What the repository alone would answer.\<close>

definition uncached_answer :: "'s transaction_repository \<Rightarrow> string \<Rightarrow> 's \<Rightarrow> transaction result" where
  "uncached_answer R i s =
     (case find_by_id R i s of
        Inl e \<Rightarrow> Inl e
      | Inr None \<Rightarrow> Inl Transaction_Not_Found_Error
      | Inr (Some t) \<Rightarrow> Inr t)"

text \<open>
  The contract of a cache: it may lose entries and it may fail, but it holds only what was set,
  under the identifier it was set for.
\<close>

locale read_cache =
  fixes C :: "'c transaction_cache"
    and cinv :: "'c \<Rightarrow> bool"
    and holds :: "'c \<Rightarrow> string \<Rightarrow> transaction option"
    and storable :: "transaction \<Rightarrow> bool"
  assumes get_law: "cinv c \<Longrightarrow> cache_get C i c = (r, c') \<Longrightarrow>
      cinv c' \<and> (\<forall>t. r = Inr (Some t) \<longrightarrow> holds c i = Some t) \<and> (\<forall>j u. holds c' j = Some u \<longrightarrow> holds c j = Some u)"
    and set_law: "cinv c \<Longrightarrow> storable t \<Longrightarrow> cache_set C t c = (r', c') \<Longrightarrow>
      cinv c' \<and> (\<forall>j u. holds c' j = Some u \<longrightarrow> holds c j = Some u \<or> j = transaction_id t \<and> u = t)"
begin

text \<open>Everything the cache holds is what the repository holds under that identifier.\<close>

definition coherent :: "'s transaction_repository \<Rightarrow> 's \<Rightarrow> 'c \<Rightarrow> bool" where
  "coherent R s c \<longleftrightarrow> cinv c \<and> (\<forall>i t. holds c i = Some t \<longrightarrow> find_by_id R i s = Inr (Some t))"

lemma read_through_coherent:
  assumes "coherent R s c" "read_through (Some C) i c = (r, c')"
  shows "coherent R s c' \<and> (\<forall>t. r = Some t \<longrightarrow> find_by_id R i s = Inr (Some t))"
proof -
  obtain a d where g: "cache_get C i c = (a, d)" by fastforce
  with assms get_law [of c i a d] show ?thesis
    by (auto simp: coherent_def read_through_def split: sum.splits)
qed

text \<open>With or without hits, misses and failures of the cache, the answer is the repository's.\<close>

lemma get_transaction_transparent:
  assumes coh: "coherent R s c"
    and found: "\<And>j t. find_by_id R j s = Inr (Some t) \<Longrightarrow> find_by_id R (transaction_id t) s = Inr (Some t) \<and> storable t"
    and res: "get_transaction_execute R (Some C) i s c = (a, c')"
  shows "a = uncached_answer R i s \<and> coherent R s c'"
proof -
  obtain r c1 where rt: "read_through (Some C) i c = (r, c1)" by fastforce
  note coh1 = read_through_coherent [OF coh rt]
  show ?thesis
  proof (cases r)
    case (Some t)
    with res rt coh1 show ?thesis by (auto simp: get_transaction_execute_def uncached_answer_def)
  next
    case None
    show ?thesis
    proof (cases "\<exists>t. find_by_id R i s = Inr (Some t)")
      case False
      with res rt coh1 None show ?thesis
        by (auto simp: get_transaction_execute_def uncached_answer_def split: sum.splits option.splits)
    next
      case True
      then obtain t where t: "find_by_id R i s = Inr (Some t)" by blast
      obtain b c2 where st: "cache_set C t c1 = (b, c2)" by fastforce
      from coh1 have c1: "cinv c1" by (simp add: coherent_def)
      from set_law [OF c1 _ st] found [OF t] coh1 have "coherent R s c2" by (auto simp: coherent_def)
      with res rt None t st show ?thesis by (auto simp: get_transaction_execute_def uncached_answer_def)
    qed
  qed
qed

text \<open>Transactions are never changed or removed, so a cache stays coherent as the store goes on.\<close>

lemma coherent_mono:
  "coherent R s c \<Longrightarrow> (\<And>i t. find_by_id R i s = Inr (Some t) \<Longrightarrow> find_by_id R i s' = Inr (Some t)) \<Longrightarrow> coherent R s' c"
  by (auto simp: coherent_def)

end

section \<open>ListTransactions\<close>

record list_result =
  list_data :: "transaction list"
  list_page :: int
  list_limit :: int
  list_total :: int
  list_total_pages :: js_number

text \<open>
  \<open>Promise.all\<close> runs the two reads together: they may see different states.  A page and a limit
  come from the schema (\<open>1 .. 1000000\<close> and \<open>1 .. 100\<close>), so the offset is an exact integer.
\<close>

definition list_transactions_execute :: "'s transaction_repository \<Rightarrow> int \<Rightarrow> int \<Rightarrow> 's \<Rightarrow> 's \<Rightarrow> list_result result" where
  "list_transactions_execute R page limit s s' =
     r_bind (list_transactions R ((page - 1) * limit) limit s) (\<lambda>data.
     r_bind (count_transactions R s') (\<lambda>total. Inr
       \<lparr>list_data = data, list_page = page, list_limit = limit, list_total = total,
        list_total_pages = math_ceil (js_div (js_int total) (js_int limit))\<rparr>))"

text \<open>The pages of a list cover it.\<close>

lemma pages_cover:
  assumes "0 < l"
  shows "concat (map (\<lambda>p. take l (drop (p * l) xs)) [0..<n]) = take (n * l) xs"
proof (induction n)
  case (Suc n)
  have "take (Suc n * l) xs = take (n * l) xs @ take l (drop (n * l) xs)"
    by (metis add.commute mult_Suc take_add)
  with Suc show ?case by simp
qed simp

definition page_of :: "driver \<Rightarrow> int \<Rightarrow> database \<Rightarrow> nat \<Rightarrow> transaction list" where
  "page_of drv limit db p =
     (case list_transactions_execute (postgres_transaction_repository drv) (int p + 1) limit db db of
        Inr r \<Rightarrow> list_data r | Inl _ \<Rightarrow> [])"

lemma list_transactions_postgres:
  assumes "driver_ok drv" "db_ok db" "1 \<le> page" "1 \<le> limit"
    and "int (length (transactions_table db)) \<le> max_safe_integer"
  shows "list_transactions_execute (postgres_transaction_repository drv) page limit db db = Inr
    \<lparr>list_data = take (nat limit) (drop (nat ((page - 1) * limit))
       (js_sort (newest_first code_compare) (js_values (transactions_table db)))),
     list_page = page, list_limit = limit, list_total = int (length (transactions_table db)),
     list_total_pages = math_ceil (js_div (js_int (int (length (transactions_table db)))) (js_int limit))\<rparr>"
  using assms postgres_list_page [OF assms(1,2), of "(page - 1) * limit" limit]
  by (simp add: list_transactions_execute_def postgres_transaction_repository_def postgres_count_def to_safe_number_bigint)

text \<open>
  C17: over an unchanging database of up to \<open>2^42\<close> transactions and a limit of 1 to 100,
  \<open>ListTransactions\<close> reports the exact number of pages (although it divides in floating point);
  each page holds at most \<open>limit\<close> transactions, the pages from the first to the last, read one
  after another, are the whole table, newest first, every transaction exactly once, and a page
  beyond the last is empty.
\<close>
theorem list_pages_partition:
  assumes "driver_ok drv" "db_ok db" "1 \<le> limit" "limit \<le> 100"
    and small: "int (length (transactions_table db)) \<le> 2 ^ 42" and page: "1 \<le> page"
  shows "\<exists>r pages. list_transactions_execute (postgres_transaction_repository drv) page limit db db = Inr r \<and>
    length (list_data r) \<le> nat limit \<and> list_total r = int (length (transactions_table db)) \<and>
    list_total_pages r = js_int (int pages) \<and>
    int pages = \<lceil>of_int (list_total r) / (of_int limit :: rat)\<rceil> \<and>
    concat (map (page_of drv limit db) [0..<pages]) =
      js_sort (newest_first code_compare) (js_values (transactions_table db)) \<and>
    mset (concat (map (page_of drv limit db) [0..<pages])) = mset (js_values (transactions_table db)) \<and>
    (int pages < page \<longrightarrow> list_data r = [])"
proof -
  let ?xs = "js_sort (newest_first code_compare) (js_values (transactions_table db))"
  define n where "n = int (length (transactions_table db))"
  define k where "k = \<lceil>of_int n / (of_int limit :: rat)\<rceil>"
  have len: "length ?xs = nat n" by (simp add: js_values_def n_def)
  have safe: "int (length (transactions_table db)) \<le> max_safe_integer" using small by (simp add: max_safe_integer_def)
  have n0: "0 \<le> n" by (simp add: n_def)
  then have "(0::rat) \<le> of_int n / of_int limit" using assms(3) by simp
  then have k0: "0 \<le> k" unfolding k_def by linarith
  have "of_int n / (of_int limit :: rat) \<le> of_int k" by (simp add: k_def)
  then have "(of_int n :: rat) \<le> of_int (k * limit)" using assms(3) by (simp add: divide_le_eq)
  then have cover: "n \<le> k * limit" by (simp only: of_int_le_iff)
  have total: "math_ceil (js_div (js_int n) (js_int limit)) = js_int k"
    using ceiling_div_exact [of n limit] n0 small assms(3,4) by (simp add: k_def n_def)
  have page_of: "page_of drv limit db p = take (nat limit) (drop (p * nat limit) ?xs)" for p
    using list_transactions_postgres [OF assms(1,2) _ assms(3) safe, of "int p + 1"] assms(3)
    by (simp add: page_of_def nat_mult_distrib)
  have "nat n \<le> nat k * nat limit" using cover k0 assms(3) by (metis nat_mono nat_mult_distrib)
  then have all: "concat (map (page_of drv limit db) [0..<nat k]) = ?xs"
    using pages_cover [of "nat limit" ?xs "nat k"] assms(3) len unfolding page_of by simp
  have beyond: "drop (nat ((page - 1) * limit)) ?xs = []" if "k < page"
  proof -
    have "k * limit \<le> (page - 1) * limit" using that assms(3) by (intro mult_right_mono) auto
    with cover len show ?thesis by simp
  qed
  show ?thesis
    using list_transactions_postgres [OF assms(1,2) page assms(3) safe] total all beyond k0
    by (intro exI [of _ "\<lparr>list_data = take (nat limit) (drop (nat ((page - 1) * limit)) ?xs), list_page = page,
        list_limit = limit, list_total = n, list_total_pages = js_int k\<rparr>"] exI [of _ "nat k"])
      (simp add: n_def k_def)
qed

theorem list_pages_partition_witness:
  "\<exists>r. list_transactions_execute (postgres_transaction_repository text_driver) 2 1 pg_two pg_two = Inr r \<and>
    list_total r = 2 \<and> list_total_pages r = js_int 2 \<and> length (list_data r) \<le> 1"
proof -
  have "int (length (transactions_table pg_two)) \<le> 2 ^ 42" by (simp add: pg_two_def)
  from list_pages_partition [OF text_driver_ok pg_two_ok _ _ this, of 1 2] show ?thesis
    by (auto simp: pg_two_def)
qed

end
