(* ===== verification/Redis.thy ===== *)
theory Redis
  imports Js_Parse Fingerprint Prelude
begin

text \<open>
  \<^verbatim>\<open>src/src/infrastructure/redis/redis-keys.ts\<close>, and of Redis the commands the adapters send:
  a store of strings with expiry times, at a given time in milliseconds.  Whether an entry is
  already gone in the very millisecond of its expiry is the parameter \<open>at_expiry\<close>.
\<close>

section \<open>Keys\<close>

definition is_alpha :: "char \<Rightarrow> bool" where
  "is_alpha c \<longleftrightarrow> (65 \<le> code c \<and> code c \<le> 90) \<or> (97 \<le> code c \<and> code c \<le> 122)"

definition is_prefix_char :: "char \<Rightarrow> bool" where
  "is_prefix_char c \<longleftrightarrow> is_alpha c \<or> is_digit c \<or> c \<in> set '':_-''"

definition validate_prefix :: "string \<Rightarrow> unit result" where
  "validate_prefix p =
     (if 1 \<le> length p \<and> length p \<le> 64 \<and> list_all is_prefix_char p then Inr ()
      else Inl (Plain_Error ''Redis key prefix is invalid''))"

text \<open>\<open>encodeURIComponent\<close>: the unreserved characters, and percent and two upper-case digits per UTF-8 byte.\<close>

definition is_uri_unreserved :: "char \<Rightarrow> bool" where
  "is_uri_unreserved c \<longleftrightarrow> is_alpha c \<or> is_digit c \<or> c \<in> set ''-_.!~*'' \<or> code c \<in> {39, 40, 41}"

definition upper_hex_digit :: "nat \<Rightarrow> char" where
  "upper_hex_digit n = (if n < 10 then char_of (48 + n) else char_of (55 + n))"

definition percent_byte :: "byte \<Rightarrow> string" where
  "percent_byte b = [CHR ''%'', upper_hex_digit (unat b div 16), upper_hex_digit (unat b mod 16)]"

definition uri_char :: "char \<Rightarrow> string" where
  "uri_char c = (if is_uri_unreserved c then [c] else concat (map percent_byte (utf8_char c)))"

definition encode_uri_component :: "string \<Rightarrow> string" where
  "encode_uri_component s = concat (map uri_char s)"

definition redis_key :: "string \<Rightarrow> string \<Rightarrow> string result" where
  "redis_key p i = r_then (validate_prefix p) (Inr (p @ '':'' @ encode_uri_component i))"

definition transaction_cache_key :: "string \<Rightarrow> string \<Rightarrow> string result" where
  "transaction_cache_key p i = redis_key p i"

definition rate_limit_key :: "string \<Rightarrow> string \<Rightarrow> string result" where
  "rate_limit_key p subject = redis_key p subject"

subsection \<open>Keys do not collide\<close>

lemma code_upper_hex_digit: "n < 16 \<Longrightarrow> code (upper_hex_digit n) = (if n < 10 then 48 + n else 55 + n)"
  by (simp add: upper_hex_digit_def)

lemma upper_hex_digit_inject: "m < 16 \<Longrightarrow> n < 16 \<Longrightarrow> upper_hex_digit m = upper_hex_digit n \<longleftrightarrow> m = n"
  by (auto simp: code_inject [symmetric] code_upper_hex_digit simp del: code_inject split: if_splits)

lemma unat_byte_digits: "unat (b :: byte) div 16 < 16" "unat b mod 16 < 16"
proof -
  have "unat b < 256" using unsigned_less [of b, where ?'a = nat] by simp
  then show "unat b div 16 < 16" by (simp add: less_mult_imp_div_less)
qed simp

lemma percent_byte_inject: "percent_byte b @ x = percent_byte d @ y \<longleftrightarrow> b = d \<and> x = y"
proof
  assume "percent_byte b @ x = percent_byte d @ y"
  then have "unat b div 16 = unat d div 16" "unat b mod 16 = unat d mod 16" "x = y"
    by (simp_all add: percent_byte_def upper_hex_digit_inject unat_byte_digits)
  then show "b = d \<and> x = y" by (metis div_mult_mod_eq word_unat_eq_iff)
qed simp

lemma percent_not_unreserved: "\<not> is_uri_unreserved (CHR ''%'')"
  by (simp add: is_uri_unreserved_def is_alpha_def is_digit_def code_def)

lemma percent_bytes_inject:
  "length bs = length ds \<Longrightarrow> concat (map percent_byte bs) @ x = concat (map percent_byte ds) @ y \<longleftrightarrow> bs = ds \<and> x = y"
proof (induction bs arbitrary: ds)
  case Nil
  then show ?case by simp
next
  case (Cons b bs)
  then obtain d ds' where ds: "ds = d # ds'" "length bs = length ds'" by (cases ds) auto
  from Cons.IH [OF ds(2)] show ?case unfolding ds(1) by (auto simp: percent_byte_inject)
qed

lemma utf8_char_cases: "utf8_char c = [of_nat (code c)] \<and> code c < 128 \<or>
    (\<exists>e f. utf8_char c = [e, f] \<and> 192 \<le> unat e)"
proof (cases "code c < 128")
  case True
  then show ?thesis by (simp add: utf8_char_def)
next
  case False
  then have "utf8_char c = [of_nat (192 + code c div 64), of_nat (128 + code c mod 64)]" by (simp add: utf8_char_def)
  moreover have "unat (of_nat (192 + code c div 64) :: byte) = 192 + code c div 64"
    using utf8_char_bytes [of c] False calculation by simp
  ultimately show ?thesis by (metis le_add1)
qed

lemma uri_char_inject:
  assumes "uri_char c @ x = uri_char d @ y"
  shows "c = d \<and> x = y"
proof -
  have pct: "\<exists>t. concat (map percent_byte (utf8_char e)) = CHR ''%'' # t" for e
    using utf8_char_cases [of e] by (auto simp: percent_byte_def)
  show ?thesis
  proof (cases "is_uri_unreserved c"; cases "is_uri_unreserved d")
    assume "is_uri_unreserved c" "is_uri_unreserved d"
    with assms show ?thesis by (simp add: uri_char_def)
  next
    assume "is_uri_unreserved c" "\<not> is_uri_unreserved d"
    with assms pct [of d] percent_not_unreserved show ?thesis by (auto simp: uri_char_def)
  next
    assume "\<not> is_uri_unreserved c" "is_uri_unreserved d"
    with assms pct [of c] percent_not_unreserved show ?thesis by (auto simp: uri_char_def)
  next
    assume "\<not> is_uri_unreserved c" "\<not> is_uri_unreserved d"
    then have eq: "concat (map percent_byte (utf8_char c)) @ x = concat (map percent_byte (utf8_char d)) @ y"
      using assms by (simp add: uri_char_def)
    have "length (utf8_char c) = length (utf8_char d)"
    proof (rule ccontr)
      assume ne: "length (utf8_char c) \<noteq> length (utf8_char d)"
      then have "hd (utf8_char c) \<noteq> hd (utf8_char d)"
        using utf8_char_bytes [of c] utf8_char_bytes [of d]
        by (cases "utf8_char c"; cases "utf8_char d") (auto split: if_splits)
      moreover have "utf8_char c \<noteq> []" "utf8_char d \<noteq> []" by (simp_all add: utf8_char_def)
      ultimately show False using eq ne
        by (cases "utf8_char c"; cases "utf8_char d") (auto simp: percent_byte_inject)
    qed
    with eq have "utf8_char c @ [] = utf8_char d @ [] \<and> x = y" by (simp add: percent_bytes_inject)
    then show ?thesis using utf8_char_inject by blast
  qed
qed

lemma uri_char_nonempty: "uri_char c \<noteq> []"
  using utf8_char_cases [of c] by (auto simp: uri_char_def percent_byte_def)

lemma encode_uri_component_inject: "encode_uri_component s = encode_uri_component t \<longleftrightarrow> s = t"
  unfolding encode_uri_component_def
  by (rule prefix_code_inject, erule uri_char_inject, rule uri_char_nonempty)

lemma colon_not_encoded: "CHR '':'' \<notin> set (encode_uri_component s)"
proof -
  have "CHR '':'' \<notin> set (percent_byte b)" for b
  proof -
    have "upper_hex_digit n \<noteq> CHR '':''" if "n < 16" for n
    proof
      assume "upper_hex_digit n = CHR '':''"
      then have "code (upper_hex_digit n) = 58" by (simp add: code_def)
      with that show False by (simp add: code_upper_hex_digit split: if_splits)
    qed
    from this [OF unat_byte_digits(1) [of b]] this [OF unat_byte_digits(2) [of b]] show ?thesis
      by (auto simp: percent_byte_def)
  qed
  moreover have "\<not> is_uri_unreserved (CHR '':'')"
    by (simp add: is_uri_unreserved_def is_alpha_def is_digit_def code_def)
  ultimately show ?thesis by (auto simp: encode_uri_component_def uri_char_def)
qed

text \<open>A key determines its prefix and its subject: it splits at its last colon.\<close>

lemma redis_key_inject:
  assumes "redis_key p i = Inr k" "redis_key q j = Inr k"
  shows "p = q \<and> i = j"
proof -
  have eq: "p @ '':'' @ encode_uri_component i = q @ '':'' @ encode_uri_component j"
    using assms by (auto simp: redis_key_def r_then_Inr_iff)
  then have "rev (encode_uri_component i) @ CHR '':'' # rev p = rev (encode_uri_component j) @ CHR '':'' # rev q"
    by (metis append_assoc append_Cons append_Nil rev.simps(2) rev_append rev_rev_ident)
  from before_separator_inject [OF _ _ this] colon_not_encoded
  have "encode_uri_component i = encode_uri_component j" "p = q" by auto
  then show ?thesis by (simp add: encode_uri_component_inject)
qed

section \<open>Commands\<close>

record redis_item =
  item_value :: string
  item_expires :: "int option"

type_synonym redis = "(string, redis_item) js_map"

definition item_gone :: "bool \<Rightarrow> int \<Rightarrow> redis_item \<Rightarrow> bool" where
  "item_gone at_expiry now x =
     (case item_expires x of None \<Rightarrow> False | Some e \<Rightarrow> e < now \<or> at_expiry \<and> e = now)"

definition redis_lookup :: "bool \<Rightarrow> int \<Rightarrow> string \<Rightarrow> redis \<Rightarrow> redis_item option" where
  "redis_lookup at_expiry now k r =
     (case js_get r k of None \<Rightarrow> None | Some x \<Rightarrow> if item_gone at_expiry now x then None else Some x)"

text \<open>What a command replies with.\<close>

datatype redis_reply = Redis_Null | Redis_String string | Redis_Integer int | Redis_Array "redis_reply list"

text \<open>The integer a string value stands for, as the counting commands read it.\<close>

definition decimal_integer :: "string \<Rightarrow> int" where
  "decimal_integer s = (if take 1 s = ''-'' then - int (digits_value (drop 1 s)) else int (digits_value s))"

definition redis_integer :: "string \<Rightarrow> int option" where
  "redis_integer s =
     (let n = decimal_integer s
      in if js_decimal n = s \<and> - (2 ^ 63) \<le> n \<and> n < 2 ^ 63 then Some n else None)"

definition redis_incr :: "bool \<Rightarrow> int \<Rightarrow> string \<Rightarrow> redis \<Rightarrow> int result \<times> redis" where
  "redis_incr at_expiry now k r =
     (case redis_lookup at_expiry now k r of
        None \<Rightarrow> (Inr 1, js_set k \<lparr>item_value = js_decimal 1, item_expires = None\<rparr> r)
      | Some x \<Rightarrow>
          (case redis_integer (item_value x) of
             None \<Rightarrow> (Inl (Plain_Error ''ERR value is not an integer or out of range''), r)
           | Some n \<Rightarrow>
               if n + 1 < 2 ^ 63
               then (Inr (n + 1), js_set k (x\<lparr>item_value := js_decimal (n + 1)\<rparr>) r)
               else (Inl (Plain_Error ''ERR increment or decrement would overflow''), r)))"

definition redis_pexpire :: "bool \<Rightarrow> int \<Rightarrow> string \<Rightarrow> int \<Rightarrow> redis \<Rightarrow> redis" where
  "redis_pexpire at_expiry now k ms r =
     (case redis_lookup at_expiry now k r of
        None \<Rightarrow> r
      | Some x \<Rightarrow> js_set k (x\<lparr>item_expires := Some (now + ms)\<rparr>) r)"

text \<open>\<open>PTTL\<close>: -2 without the key, -1 without an expiry.\<close>

definition redis_pttl :: "bool \<Rightarrow> int \<Rightarrow> string \<Rightarrow> redis \<Rightarrow> int" where
  "redis_pttl at_expiry now k r =
     (case redis_lookup at_expiry now k r of
        None \<Rightarrow> - 2
      | Some x \<Rightarrow> (case item_expires x of None \<Rightarrow> - 1 | Some e \<Rightarrow> e - now))"

definition redis_get :: "bool \<Rightarrow> int \<Rightarrow> string \<Rightarrow> redis \<Rightarrow> redis_reply" where
  "redis_get at_expiry now k r =
     (case redis_lookup at_expiry now k r of None \<Rightarrow> Redis_Null | Some x \<Rightarrow> Redis_String (item_value x))"

definition redis_set_ex :: "int \<Rightarrow> string \<Rightarrow> string \<Rightarrow> int \<Rightarrow> redis \<Rightarrow> redis" where
  "redis_set_ex now k v seconds r = js_set k \<lparr>item_value = v, item_expires = Some (now + 1000 * seconds)\<rparr> r"

definition redis_del :: "string \<Rightarrow> redis \<Rightarrow> redis" where
  "redis_del k r = js_delete k r"

lemma decimal_integer_decimal [simp]: "decimal_integer (js_decimal n) = n"
proof (cases "n < 0")
  case True
  then show ?thesis by (simp add: decimal_integer_def js_decimal_def)
next
  case False
  have "take 1 (nat_digits (nat n)) \<noteq> ''-''"
  proof
    assume "take 1 (nat_digits (nat n)) = ''-''"
    then have "CHR ''-'' \<in> set (nat_digits (nat n))" by (metis in_set_takeD list.set_intros(1))
    with nat_digits_all [of "nat n"] show False by (auto simp: is_digit_def)
  qed
  with False show ?thesis by (simp add: decimal_integer_def js_decimal_def)
qed

lemma redis_integer_decimal: "- (2 ^ 63) \<le> n \<Longrightarrow> n < 2 ^ 63 \<Longrightarrow> redis_integer (js_decimal n) = Some n"
  by (simp add: redis_integer_def)

text \<open>How an outcome of a command may reach the caller.\<close>

datatype redis_fault =
    No_Fault
  | Not_Sent error
  | Reply_Lost error

definition redis_call :: "redis_fault \<Rightarrow> (redis \<Rightarrow> redis_reply result \<times> redis) \<Rightarrow> redis \<Rightarrow> redis_reply result \<times> redis" where
  "redis_call fault command r =
     (case fault of
        No_Fault \<Rightarrow> command r
      | Not_Sent e \<Rightarrow> (Inl e, r)
      | Reply_Lost e \<Rightarrow> (Inl e, snd (command r)))"

end
