(* ===== verification/Rate_Limit.thy ===== *)
theory Rate_Limit
  imports Redis Domain Js_Number
begin

text \<open>
  The two rate limiters: \<^verbatim>\<open>src/src/infrastructure/rate-limit/in-memory-rate-limiter.ts\<close> and
  \<^verbatim>\<open>src/src/infrastructure/rate-limit/redis-rate-limiter.ts\<close> with its Lua script over the
  commands of \<open>Redis\<close>.  A fixed window per subject; the time of a call is an argument.
\<close>

section \<open>In memory\<close>

record rate_limit_entry =
  entry_count :: int
  reset_at :: int

type_synonym rate_limit_entries = "(string, rate_limit_entry) js_map"

definition pass :: rate_limit_result where
  "pass = \<lparr>allowed = True, retry_after_seconds = 0\<rparr>"

text \<open>\<open>Math.max(1, Math.ceil(ms / 1_000))\<close>\<close>

definition retry_after :: "int \<Rightarrow> int" where
  "retry_after ms = integer_of (math_max (js_int 1) (math_ceil (js_div (js_int ms) (js_int 1000))))"

definition memory_consume :: "int \<Rightarrow> int \<Rightarrow> int \<Rightarrow> string \<Rightarrow> rate_limit_entries \<Rightarrow>
    rate_limit_result \<times> rate_limit_entries" where
  "memory_consume max_requests window_ms now subject m =
     (case js_get m subject of
        None \<Rightarrow> (pass, js_set subject \<lparr>entry_count = 1, reset_at = now + window_ms\<rparr> m)
      | Some e \<Rightarrow>
          if now \<ge> reset_at e
          then (pass, js_set subject \<lparr>entry_count = 1, reset_at = now + window_ms\<rparr> m)
          else if entry_count e \<ge> max_requests
          then (\<lparr>allowed = False, retry_after_seconds = retry_after (reset_at e - now)\<rparr>, m)
          else (pass, js_set subject (e\<lparr>entry_count := entry_count e + 1\<rparr>) m))"

section \<open>Redis\<close>

definition consume_fixed_window_script :: "bool \<Rightarrow> int \<Rightarrow> string \<Rightarrow> int \<Rightarrow> redis \<Rightarrow> redis_reply result \<times> redis" where
  "consume_fixed_window_script at_expiry now key window_ms r =
     (case redis_incr at_expiry now key r of
        (Inl e, r1) \<Rightarrow> (Inl e, r1)
      | (Inr cnt, r1) \<Rightarrow>
          (let r2 = (if cnt = 1 then redis_pexpire at_expiry now key window_ms r1 else r1);
               ttl = redis_pttl at_expiry now key r2
           in if ttl < 0
              then (Inr (Redis_Array [Redis_Integer cnt, Redis_Integer window_ms]),
                    redis_pexpire at_expiry now key window_ms r2)
              else (Inr (Redis_Array [Redis_Integer cnt, Redis_Integer ttl]), r2)))"

text \<open>\<open>Number(value)\<close> of a reply: an array is converted through its text.\<close>

fun redis_text :: "redis_reply \<Rightarrow> string" where
  "redis_text Redis_Null = []"
| "redis_text (Redis_String s) = s"
| "redis_text (Redis_Integer n) = js_decimal n"
| "redis_text (Redis_Array xs) = js_join '','' (map redis_text xs)"

fun number_of_reply :: "redis_reply \<Rightarrow> js_number" where
  "number_of_reply Redis_Null = js_int 0"
| "number_of_reply (Redis_String s) = string_to_number s"
| "number_of_reply (Redis_Integer n) = to_double (of_int n)"
| "number_of_reply (Redis_Array xs) = string_to_number (redis_text (Redis_Array xs))"

definition invalid_result :: error where
  "invalid_result = Plain_Error ''Redis rate limiter returned an invalid result''"

definition parse_result :: "redis_reply \<Rightarrow> (int \<times> int) result" where
  "parse_result v =
     (case v of
        Redis_Array [a, b] \<Rightarrow>
          (let cnt = number_of_reply a; ttl = number_of_reply b
           in if \<not> is_safe_integer cnt \<or> js_less cnt (js_int 1) \<or> \<not> is_safe_integer ttl \<or> js_less ttl (js_int 0)
              then Inl invalid_result
              else Inr (integer_of cnt, integer_of ttl))
      | _ \<Rightarrow> Inl invalid_result)"

definition new_redis_rate_limiter :: "js_number \<Rightarrow> js_number \<Rightarrow> string \<Rightarrow> unit result" where
  "new_redis_rate_limiter max_requests window_ms key_prefix =
     (if \<not> is_safe_integer max_requests \<or> js_less max_requests (js_int 1)
      then Inl (Plain_Error ''Rate limit maximum must be a positive safe integer'')
      else if \<not> is_safe_integer window_ms \<or> js_less window_ms (js_int 1)
      then Inl (Plain_Error ''Rate limit window must be a positive safe integer'')
      else r_bind (rate_limit_key key_prefix ''validation'') (\<lambda>_. Inr ()))"

text \<open>The second component: the operations reported to \<open>reportFailure\<close>.\<close>

definition redis_consume :: "bool \<Rightarrow> redis_fault \<Rightarrow> string \<Rightarrow> int \<Rightarrow> int \<Rightarrow> int \<Rightarrow> string \<Rightarrow> redis \<Rightarrow>
    rate_limit_result \<times> string list \<times> redis" where
  "redis_consume at_expiry fault key_prefix max_requests window_ms now subject r =
     (case rate_limit_key key_prefix subject of
        Inl e \<Rightarrow> (pass, [''rate_limit_consume''], r)
      | Inr key \<Rightarrow>
          (case redis_call fault (consume_fixed_window_script at_expiry now key window_ms) r of
             (Inl e, r') \<Rightarrow> (pass, [''rate_limit_consume''], r')
           | (Inr raw, r') \<Rightarrow>
               (case parse_result raw of
                  Inl e \<Rightarrow> (pass, [''rate_limit_consume''], r')
                | Inr (cnt, ttl) \<Rightarrow>
                    (if cnt \<le> max_requests then pass
                     else \<lparr>allowed = False, retry_after_seconds = retry_after ttl\<rparr>, [], r'))))"

section \<open>Runs\<close>

type_synonym rate_call = "int \<times> string"

fun memory_run :: "int \<Rightarrow> int \<Rightarrow> rate_call list \<Rightarrow> rate_limit_entries \<Rightarrow> rate_limit_result list" where
  "memory_run mx w [] m = []"
| "memory_run mx w ((now, s) # cs) m =
     (case memory_consume mx w now s m of (a, m') \<Rightarrow> a # memory_run mx w cs m')"

fun redis_run :: "bool \<Rightarrow> string \<Rightarrow> int \<Rightarrow> int \<Rightarrow> rate_call list \<Rightarrow> redis \<Rightarrow> rate_limit_result list" where
  "redis_run ae p mx w [] r = []"
| "redis_run ae p mx w ((now, s) # cs) r =
     (case redis_consume ae No_Fault p mx w now s r of (a, _, r') \<Rightarrow> a # redis_run ae p mx w cs r')"

text \<open>The calls of a subject that were allowed in a stretch of time.\<close>

definition allowed_in :: "string \<Rightarrow> int \<Rightarrow> int \<Rightarrow> rate_call \<times> rate_limit_result \<Rightarrow> bool" where
  "allowed_in s t t' x \<longleftrightarrow> snd (fst x) = s \<and> t \<le> fst (fst x) \<and> fst (fst x) < t' \<and> allowed (snd x)"

section \<open>How much a limiter lets through\<close>

lemma retry_after_eq:
  assumes "0 \<le> ms" "ms \<le> 2 ^ 42"
  shows "retry_after ms = max 1 \<lceil>of_int ms / (1000 :: rat)\<rceil>"
  using ceiling_div_exact [OF assms, of 1000] by (simp add: retry_after_def)

lemma memory_consume_other:
  "s \<noteq> subject \<Longrightarrow> js_get (snd (memory_consume mx w now subject m)) s = js_get m s"
  by (auto simp: memory_consume_def split: option.splits)

definition entries_ok :: "int \<Rightarrow> rate_limit_entries \<Rightarrow> bool" where
  "entries_ok mx m \<longleftrightarrow> (\<forall>s e. js_get m s = Some e \<longrightarrow> 1 \<le> entry_count e \<and> entry_count e \<le> mx)"

lemma memory_consume_entries_ok:
  "entries_ok mx m \<Longrightarrow> 1 \<le> mx \<Longrightarrow> entries_ok mx (snd (memory_consume mx w now s m))"
  by (fastforce simp: entries_ok_def memory_consume_def split: option.splits)

text \<open>What is left of the window that is open, and one more window.\<close>

definition allowance :: "int \<Rightarrow> int \<Rightarrow> rate_limit_entry option \<Rightarrow> int" where
  "allowance mx t' e =
     (case e of None \<Rightarrow> mx | Some e \<Rightarrow> (if t' \<le> reset_at e then mx - entry_count e else 2 * mx - entry_count e))"

lemma memory_run_allowance:
  assumes "sorted (map fst cs)" "\<forall>c \<in> set cs. now \<le> fst c" "t' \<le> now + w" "1 \<le> mx"
    and "entries_ok mx m"
  shows "int (length (filter (allowed_in s t t') (zip cs (memory_run mx w cs m)))) \<le> allowance mx t' (js_get m s)"
  using assms
proof (induction cs arbitrary: m now)
  case Nil
  then show ?case by (auto simp: allowance_def entries_ok_def split: option.splits) (smt (verit))+
next
  case (Cons c cs)
  obtain u b where c: "c = (u, b)" by fastforce
  obtain a m' where st: "memory_consume mx w u b m = (a, m')" by fastforce
  have rest: "sorted (map fst cs)" "\<forall>c \<in> set cs. u \<le> fst c" "t' \<le> u + w" using Cons.prems(1-3) c by auto
  have "entries_ok mx m'" using memory_consume_entries_ok [OF Cons.prems(5,4), of w u b] st by simp
  note IH = Cons.IH [OF rest Cons.prems(4) this]
  have ent: "1 \<le> entry_count e \<and> entry_count e \<le> mx" if "js_get m s = Some e" for e
    using Cons.prems(5) that by (simp add: entries_ok_def)
  show ?case
  proof (cases "b = s")
    case False
    then have "\<not> allowed_in s t t' (c, a)" by (simp add: allowed_in_def c)
    moreover have "js_get m' s = js_get m s" using memory_consume_other [of s b mx w u m] False st by simp
    ultimately show ?thesis using IH c st by simp
  next
    case True
    show ?thesis
    proof (cases "t' \<le> u")
      case True
      have "filter (allowed_in s t t') (zip (c # cs) (memory_run mx w (c # cs) m)) = []"
        using rest(2) c True
        by (fastforce simp: filter_empty_conv allowed_in_def dest!: set_zip_leftD)
      then show ?thesis using Cons.prems(4) ent by (auto simp: allowance_def split: option.splits)
    next
      case False
      show ?thesis
      proof (cases "js_get m s")
        case None
        with st True have "js_get m' s = Some \<lparr>entry_count = 1, reset_at = u + w\<rparr>"
          by (auto simp: memory_consume_def)
        with IH rest(3) have "int (length (filter (allowed_in s t t') (zip cs (memory_run mx w cs m')))) \<le> mx - 1"
          by (simp add: allowance_def)
        with None c st show ?thesis by (simp add: allowance_def)
      next
        case (Some e)
        show ?thesis
        proof (cases "u \<ge> reset_at e")
          case late: True
          with st True Some have "js_get m' s = Some \<lparr>entry_count = 1, reset_at = u + w\<rparr>"
            by (auto simp: memory_consume_def)
          with IH rest(3) have "int (length (filter (allowed_in s t t') (zip cs (memory_run mx w cs m')))) \<le> mx - 1"
            by (simp add: allowance_def)
          with Some c st late False ent [OF Some] show ?thesis by (simp add: allowance_def)
        next
          case early: False
          show ?thesis
          proof (cases "entry_count e \<ge> mx")
            case full: True
            with st True Some early have "\<not> allowed a" "m' = m" by (auto simp: memory_consume_def)
            then have "\<not> allowed_in s t t' (c, a)" by (simp add: allowed_in_def)
            with IH \<open>m' = m\<close> c st show ?thesis by simp
          next
            case free: False
            with st True Some early have "js_get m' s = Some (e\<lparr>entry_count := entry_count e + 1\<rparr>)"
              by (auto simp: memory_consume_def)
            with IH Some c st show ?thesis by (auto simp: allowance_def split: if_splits)
          qed
        qed
      qed
    qed
  qed
qed

lemma allowance_le: "1 \<le> mx \<Longrightarrow> entries_ok mx m \<Longrightarrow> allowance mx t' (js_get m s) \<le> 2 * mx"
  by (auto simp: allowance_def entries_ok_def split: option.splits) (smt (verit))+

lemma memory_run_bound:
  assumes "sorted (map fst cs)" "t' \<le> t + w" "1 \<le> mx" "entries_ok mx m"
  shows "int (length (filter (allowed_in s t t') (zip cs (memory_run mx w cs m)))) \<le> 2 * mx"
  using assms
proof (induction cs arbitrary: m)
  case (Cons c cs)
  obtain u b where c: "c = (u, b)" by fastforce
  show ?case
  proof (cases "t \<le> u")
    case True
    have "\<forall>x \<in> set (c # cs). t \<le> fst x" using True Cons.prems(1) c by fastforce
    from memory_run_allowance [OF Cons.prems(1) this Cons.prems(2-4)] allowance_le [OF Cons.prems(3,4)]
    show ?thesis by (meson order_trans)
  next
    case False
    obtain a m' where st: "memory_consume mx w u b m = (a, m')" by fastforce
    have "entries_ok mx m'" using memory_consume_entries_ok [OF Cons.prems(4,3), of w u b] st by simp
    with Cons.IH Cons.prems False c st show ?thesis by (simp add: allowed_in_def)
  qed
qed simp

section \<open>The same decisions\<close>

text \<open>
  The state of the two limiters corresponds when every open window of the one is open in the
  other with the same end.  Redis goes on counting above the maximum.  When an entry is still
  there in the millisecond of its expiry, the window is one millisecond longer.
\<close>

definition expiry_offset :: "bool \<Rightarrow> int" where
  "expiry_offset ae = (if ae then 0 else 1)"

definition same_window :: "bool \<Rightarrow> int \<Rightarrow> int \<Rightarrow> int \<Rightarrow> int \<Rightarrow> rate_limit_entry option \<Rightarrow> redis_item option \<Rightarrow> bool" where
  "same_window ae mx w calls now e x =
     (case e of
        None \<Rightarrow> x = None
      | Some e \<Rightarrow>
          if reset_at e \<le> now then x = None
          else (\<exists>n. x = Some \<lparr>item_value = js_decimal n, item_expires = Some (reset_at e - expiry_offset ae)\<rparr> \<and>
            entry_count e = min n mx \<and> 1 \<le> n \<and> n \<le> calls \<and> reset_at e \<le> now + w + expiry_offset ae))"

definition same_windows :: "bool \<Rightarrow> string \<Rightarrow> int \<Rightarrow> int \<Rightarrow> int \<Rightarrow> int \<Rightarrow> rate_limit_entries \<Rightarrow> redis \<Rightarrow> bool" where
  "same_windows ae p mx w calls now m r \<longleftrightarrow>
     (\<forall>s k. rate_limit_key p s = Inr k \<longrightarrow> same_window ae mx w calls now (js_get m s) (redis_lookup ae now k r))"

lemma same_window_later:
  assumes "same_window ae mx w calls now e (redis_lookup ae now k r)" "now \<le> now'"
  shows "same_window ae mx w calls now' e (redis_lookup ae now' k r)"
  using assms
  by (cases e; cases "js_get r k")
    (auto simp: same_window_def redis_lookup_def item_gone_def expiry_offset_def split: option.splits if_splits)

lemma redis_lookup_set_other: "k \<noteq> j \<Longrightarrow> redis_lookup ae now k (js_set j x r) = redis_lookup ae now k r"
  by (simp add: redis_lookup_def)

lemma redis_pexpire_other: "k \<noteq> j \<Longrightarrow> redis_lookup ae now k (redis_pexpire ae now j ms r) = redis_lookup ae now k r"
  by (simp add: redis_pexpire_def redis_lookup_set_other split: option.splits)

lemma script_other:
  "k \<noteq> j \<Longrightarrow> redis_lookup ae now k (snd (consume_fixed_window_script ae now j w r)) = redis_lookup ae now k r"
  by (auto simp: consume_fixed_window_script_def redis_incr_def Let_def redis_pexpire_other redis_lookup_set_other
      split: option.splits sum.splits prod.splits)

text \<open>What the script does to a key that is absent, and to a counter with an expiry.\<close>

lemma script_new:
  assumes "redis_lookup ae now k r = None" "1 \<le> w"
  shows "\<exists>r'. consume_fixed_window_script ae now k w r = (Inr (Redis_Array [Redis_Integer 1, Redis_Integer w]), r') \<and>
    redis_lookup ae now k r' = Some \<lparr>item_value = js_decimal 1, item_expires = Some (now + w)\<rparr>"
  using assms by (auto simp: consume_fixed_window_script_def redis_incr_def redis_pexpire_def redis_pttl_def
      redis_lookup_def item_gone_def Let_def split: option.splits if_splits)

lemma script_open:
  assumes "redis_lookup ae now k r = Some \<lparr>item_value = js_decimal n, item_expires = Some e\<rparr>"
    and "1 \<le> n" "n < max_safe_integer" "now \<le> e"
  shows "\<exists>r'. consume_fixed_window_script ae now k w r = (Inr (Redis_Array [Redis_Integer (n + 1), Redis_Integer (e - now)]), r') \<and>
    redis_lookup ae now k r' = Some \<lparr>item_value = js_decimal (n + 1), item_expires = Some e\<rparr>"
proof -
  have "redis_integer (js_decimal n) = Some n"
    using assms(2,3) by (intro redis_integer_decimal) (simp_all add: max_safe_integer_def)
  moreover have "n + 1 < 2 ^ 63" using assms(3) by (simp add: max_safe_integer_def)
  ultimately show ?thesis
    using assms by (auto simp: consume_fixed_window_script_def redis_incr_def redis_pttl_def
      redis_lookup_def item_gone_def Let_def split: option.splits if_splits)
qed

lemma parse_result_ok:
  assumes "1 \<le> n" "n \<le> max_safe_integer" "0 \<le> t" "t \<le> max_safe_integer"
  shows "parse_result (Redis_Array [Redis_Integer n, Redis_Integer t]) = Inr (n, t)"
  using assms to_double_of_int [of n] to_double_of_int [of t] by (simp add: parse_result_def Let_def)

lemma same_window_entry:
  assumes "same_window ae mx w calls now (Some e) x" "now < reset_at e"
  obtains n where "x = Some \<lparr>item_value = js_decimal n, item_expires = Some (reset_at e - expiry_offset ae)\<rparr>"
    "entry_count e = min n mx" "1 \<le> n" "n \<le> calls" "reset_at e \<le> now + w + expiry_offset ae"
  using assms by (auto simp: same_window_def)

lemma consume_same:
  assumes same: "same_windows ae p mx w calls now m r" and k: "rate_limit_key p s = Inr k"
    and bounds: "1 \<le> mx" "1 \<le> w" "w < max_safe_integer" "0 \<le> calls" "calls < max_safe_integer"
    and mem: "memory_consume mx (w + expiry_offset ae) now s m = (a, m')"
    and red: "redis_consume ae No_Fault p mx w now s r = (b, rep, r')"
  shows "allowed a = allowed b \<and> rep = [] \<and> same_windows ae p mx w (calls + 1) now m' r'"
proof -
  have here: "same_window ae mx w calls now (js_get m s) (redis_lookup ae now k r)"
    using same k by (simp add: same_windows_def)
  have off: "0 \<le> expiry_offset ae" "expiry_offset ae \<le> 1" by (simp_all add: expiry_offset_def)
  have main: "allowed a = allowed b \<and> rep = [] \<and> r' = snd (consume_fixed_window_script ae now k w r) \<and>
      same_window ae mx w (calls + 1) now (js_get m' s) (redis_lookup ae now k r')"
  proof (cases "\<exists>e. js_get m s = Some e \<and> now < reset_at e")
    case True
    then obtain e where e: "js_get m s = Some e" "now < reset_at e" by blast
    obtain n where n: "redis_lookup ae now k r = Some \<lparr>item_value = js_decimal n, item_expires = Some (reset_at e - expiry_offset ae)\<rparr>"
      "entry_count e = min n mx" "1 \<le> n" "n \<le> calls" "reset_at e \<le> now + w + expiry_offset ae"
      using same_window_entry here e by metis
    have ttl: "now \<le> reset_at e - expiry_offset ae" using e(2) off by linarith
    obtain r1 where r1: "consume_fixed_window_script ae now k w r =
        (Inr (Redis_Array [Redis_Integer (n + 1), Redis_Integer (reset_at e - expiry_offset ae - now)]), r1)"
      "redis_lookup ae now k r1 = Some \<lparr>item_value = js_decimal (n + 1), item_expires = Some (reset_at e - expiry_offset ae)\<rparr>"
      using script_open [OF n(1,3) _ ttl] n(4) bounds by auto
    have pr: "parse_result (Redis_Array [Redis_Integer (n + 1), Redis_Integer (reset_at e - expiry_offset ae - now)]) =
        Inr (n + 1, reset_at e - expiry_offset ae - now)"
      using n bounds ttl by (intro parse_result_ok) auto
    have red': "r' = r1" "rep = []" "allowed b \<longleftrightarrow> n + 1 \<le> mx"
      using red k r1(1) pr by (auto simp: redis_consume_def redis_call_def pass_def split: if_splits)
    show ?thesis
    proof (cases "mx \<le> n")
      case True
      with mem e n(2) have "\<not> allowed a" "m' = m" by (auto simp: memory_consume_def)
      with red' r1 e n True show ?thesis by (auto simp: same_window_def)
    next
      case False
      with mem e n(2) have "allowed a" "js_get m' s = Some (e\<lparr>entry_count := n + 1\<rparr>)"
        by (auto simp: memory_consume_def pass_def)
      with red' r1 e n False show ?thesis by (auto simp: same_window_def)
    qed
  next
    case False
    then have "redis_lookup ae now k r = None" using here by (auto simp: same_window_def split: option.splits if_splits)
    from script_new [OF this bounds(2)] obtain r1 where r1:
      "consume_fixed_window_script ae now k w r = (Inr (Redis_Array [Redis_Integer 1, Redis_Integer w]), r1)"
      "redis_lookup ae now k r1 = Some \<lparr>item_value = js_decimal 1, item_expires = Some (now + w)\<rparr>" by blast
    have "parse_result (Redis_Array [Redis_Integer 1, Redis_Integer w]) = Inr (1, w)"
      using bounds by (intro parse_result_ok) (simp_all add: max_safe_integer_def)
    then have "r' = r1" "rep = []" "allowed b"
      using red k r1(1) bounds(1) by (auto simp: redis_consume_def redis_call_def pass_def)
    moreover from False mem have "allowed a" "js_get m' s = Some \<lparr>entry_count = 1, reset_at = now + (w + expiry_offset ae)\<rparr>"
      by (auto simp: memory_consume_def pass_def split: option.splits)
    ultimately show ?thesis using r1 bounds off by (auto simp: same_window_def)
  qed
  have "same_window ae mx w (calls + 1) now (js_get m' u) (redis_lookup ae now j r')"
    if "rate_limit_key p u = Inr j" for u j
  proof (cases "u = s")
    case True
    with that k main show ?thesis by auto
  next
    case False
    then have "j \<noteq> k" using that k redis_key_inject [of p u j p s] by (auto simp: rate_limit_key_def)
    then have "redis_lookup ae now j r' = redis_lookup ae now j r" using main script_other by simp
    moreover have "js_get m' u = js_get m u" using memory_consume_other [OF False] mem by (metis snd_conv)
    moreover have "same_window ae mx w calls now (js_get m u) (redis_lookup ae now j r)"
      using same that by (simp add: same_windows_def)
    ultimately show ?thesis by (auto simp: same_window_def split: option.splits if_splits)
  qed
  with main show ?thesis by (simp add: same_windows_def)
qed

lemma runs_same:
  assumes "same_windows ae p mx w calls now m r" "validate_prefix p = Inr ()" "1 \<le> mx" "1 \<le> w" "w < max_safe_integer"
    and "0 \<le> calls" "calls + int (length cs) \<le> max_safe_integer" "sorted (now # map fst cs)"
  shows "map allowed (redis_run ae p mx w cs r) = map allowed (memory_run mx (w + expiry_offset ae) cs m)"
  using assms
proof (induction cs arbitrary: calls now m r)
  case (Cons c cs)
  obtain u s where c: "c = (u, s)" by fastforce
  obtain k where k: "rate_limit_key p s = Inr k" using Cons.prems(2) by (simp add: rate_limit_key_def redis_key_def)
  have u: "same_windows ae p mx w calls u m r"
    unfolding same_windows_def
  proof (intro allI impI)
    fix b j
    assume "rate_limit_key p b = Inr j"
    then have "same_window ae mx w calls now (js_get m b) (redis_lookup ae now j r)"
      using Cons.prems(1) by (simp add: same_windows_def)
    then show "same_window ae mx w calls u (js_get m b) (redis_lookup ae u j r)"
      by (rule same_window_later) (use Cons.prems(8) c in simp)
  qed
  obtain a m' where mem: "memory_consume mx (w + expiry_offset ae) u s m = (a, m')" by fastforce
  obtain b rep r' where red: "redis_consume ae No_Fault p mx w u s r = (b, rep, r')" by (metis prod_cases3)
  have "calls < max_safe_integer" using Cons.prems(7) by simp
  from consume_same [OF u k Cons.prems(3-6) this mem red] have ab: "allowed a = allowed b"
    "same_windows ae p mx w (calls + 1) u m' r'" by simp_all
  have "map allowed (redis_run ae p mx w cs r') = map allowed (memory_run mx (w + expiry_offset ae) cs m')"
    using Cons.IH [OF ab(2) Cons.prems(2-5)] Cons.prems(6-8) c by simp
  with ab(1) mem red c show ?case by simp
qed simp

text \<open>After the script the key has an expiry, whatever it had before.\<close>

lemma pexpire_expires:
  assumes "redis_lookup ae now k r = Some x" "1 \<le> w"
  shows "redis_lookup ae now k (redis_pexpire ae now k w r) = Some (x\<lparr>item_expires := Some (now + w)\<rparr>)"
  using assms by (simp add: redis_pexpire_def) (simp add: redis_lookup_def item_gone_def)

lemma incr_lookup:
  assumes "redis_incr ae now k r = (Inr n, r1)"
  obtains x where "redis_lookup ae now k r1 = Some x"
    "item_expires x = (case redis_lookup ae now k r of None \<Rightarrow> None | Some y \<Rightarrow> item_expires y)"
    "\<And>t. item_expires x = Some t \<Longrightarrow> now \<le> t"
proof (cases "redis_lookup ae now k r")
  case None
  with assms have "redis_lookup ae now k r1 = Some \<lparr>item_value = js_decimal 1, item_expires = None\<rparr>"
    by (auto simp: redis_incr_def) (simp add: redis_lookup_def item_gone_def)
  with None that show ?thesis by simp
next
  case (Some y)
  have live: "\<not> item_gone ae now y" using Some by (auto simp: redis_lookup_def split: option.splits if_splits)
  have "r1 = js_set k (y\<lparr>item_value := js_decimal n\<rparr>) r"
    using assms Some by (auto simp: redis_incr_def split: option.splits if_splits)
  then have "redis_lookup ae now k r1 = Some (y\<lparr>item_value := js_decimal n\<rparr>)"
    using live by (simp add: redis_lookup_def item_gone_def)
  moreover have "now \<le> t" if "item_expires y = Some t" for t
    using live that by (auto simp: item_gone_def)
  ultimately show ?thesis using that Some by simp
qed

lemma script_expires:
  assumes "fst (consume_fixed_window_script ae now k w r) = Inr raw" "1 \<le> w"
  shows "\<exists>x t. redis_lookup ae now k (snd (consume_fixed_window_script ae now k w r)) = Some x \<and>
    item_expires x = Some t \<and> now \<le> t"
proof -
  obtain a r1 where i: "redis_incr ae now k r = (a, r1)" by fastforce
  then obtain n where n: "a = Inr n" using assms(1) by (cases a) (auto simp: consume_fixed_window_script_def)
  obtain x where x: "redis_lookup ae now k r1 = Some x" "\<And>t. item_expires x = Some t \<Longrightarrow> now \<le> t"
    using incr_lookup i n by metis
  define r2 where "r2 = (if n = 1 then redis_pexpire ae now k w r1 else r1)"
  obtain y where y: "redis_lookup ae now k r2 = Some y" "\<And>t. item_expires y = Some t \<Longrightarrow> now \<le> t"
    using x pexpire_expires [OF x(1) assms(2)] assms(2) by (cases "n = 1") (auto simp: r2_def)
  have s: "snd (consume_fixed_window_script ae now k w r) =
      (if redis_pttl ae now k r2 < 0 then redis_pexpire ae now k w r2 else r2)"
    using i n by (simp add: consume_fixed_window_script_def r2_def Let_def)
  show ?thesis
  proof (cases "item_expires y")
    case None
    then have "redis_pttl ae now k r2 < 0" using y(1) by (simp add: redis_pttl_def)
    then show ?thesis using s pexpire_expires [OF y(1) assms(2)] assms(2) by simp
  next
    case (Some t)
    then have "\<not> redis_pttl ae now k r2 < 0" using y by (simp add: redis_pttl_def)
    then show ?thesis using s y Some by simp
  qed
qed

section \<open>Properties\<close>

text \<open>
  C18: in any stretch of time no longer than the window, a subject is let through at most twice
  the maximum (fixed windows), whatever other subjects do; a refused call is told to wait at
  least one second and no longer than the window rounded up to seconds, and after that wait a
  call of the subject is let through.
\<close>
theorem memory_limiter_bound:
  assumes "1 \<le> mx" "1 \<le> w" "w \<le> 2 ^ 42" "sorted (map fst cs)" "t' \<le> t + w"
  shows "length (filter (allowed_in s t t') (zip cs (memory_run mx w cs []))) \<le> nat (2 * mx) \<and>
    (js_get m s = Some e \<and> reset_at e \<le> now + w \<and> fst (memory_consume mx w now s m) = a \<and> \<not> allowed a \<longrightarrow>
      1 \<le> retry_after_seconds a \<and> retry_after_seconds a \<le> max 1 \<lceil>of_int w / (1000 :: rat)\<rceil> \<and>
      (\<forall>later \<ge> now + 1000 * retry_after_seconds a. allowed (fst (memory_consume mx w later s m))))"
proof -
  have "length (filter (allowed_in s t t') (zip cs (memory_run mx w cs []))) \<le> nat (2 * mx)"
    using memory_run_bound [OF assms(4,5,1), of "[]" s] by (simp add: entries_ok_def)
  moreover have "1 \<le> retry_after_seconds a \<and> retry_after_seconds a \<le> max 1 \<lceil>of_int w / (1000 :: rat)\<rceil> \<and>
      (\<forall>later \<ge> now + 1000 * retry_after_seconds a. allowed (fst (memory_consume mx w later s m)))"
    if h: "js_get m s = Some e" "reset_at e \<le> now + w" "fst (memory_consume mx w now s m) = a" "\<not> allowed a"
  proof -
    have open_window: "now < reset_at e" "retry_after_seconds a = retry_after (reset_at e - now)"
      using h by (auto simp: memory_consume_def pass_def split: if_splits)
    define d where "d = reset_at e - now"
    have d: "0 \<le> d" "d \<le> w" "retry_after_seconds a = max 1 \<lceil>of_int d / (1000 :: rat)\<rceil>"
      using open_window h(2) retry_after_eq [of d] assms(3) by (simp_all add: d_def)
    have "(of_int d :: rat) \<le> of_int w" using d(2) by (simp only: of_int_le_iff)
    then have "\<lceil>of_int d / (1000 :: rat)\<rceil> \<le> \<lceil>of_int w / (1000 :: rat)\<rceil>" by (intro ceiling_mono divide_right_mono) auto
    moreover have "of_int d / (1000 :: rat) \<le> of_int (retry_after_seconds a)" unfolding d(3) by linarith
    then have "(of_int d :: rat) \<le> of_int (1000 * retry_after_seconds a)" by (simp add: divide_le_eq)
    then have "d \<le> 1000 * retry_after_seconds a" by (simp only: of_int_le_iff)
    then have "allowed (fst (memory_consume mx w later s m))" if "now + 1000 * retry_after_seconds a \<le> later" for later
      using that h(1) by (simp add: memory_consume_def pass_def d_def)
    ultimately show ?thesis using d(3) by auto
  qed
  ultimately show ?thesis by blast
qed

definition rate_calls :: "rate_call list" where
  "rate_calls = [(0, ''a''), (10, ''a''), (20, ''b''), (30, ''a''), (1000, ''a'')]"

lemma rate_calls_run: "map allowed (memory_run 2 1000 rate_calls []) = [True, True, True, False, True]"
  by (simp add: rate_calls_def memory_consume_def pass_def)

theorem memory_limiter_bound_witness:
  "length (filter (allowed_in ''a'' 0 1000) (zip rate_calls (memory_run 2 1000 rate_calls []))) \<le> 4 \<and>
   allowed (fst (memory_consume 2 1000 1030 ''a'' [(''a'', \<lparr>entry_count = 2, reset_at = 1000\<rparr>)]))"
proof -
  let ?m = "[(''a'', \<lparr>entry_count = 2, reset_at = 1000\<rparr>)] :: rate_limit_entries"
  have "sorted (map fst rate_calls)" by (simp add: rate_calls_def)
  moreover have "js_get ?m ''a'' = Some \<lparr>entry_count = 2, reset_at = 1000\<rparr>"
    "\<not> allowed (fst (memory_consume 2 1000 30 ''a'' ?m))"
    "retry_after_seconds (fst (memory_consume 2 1000 30 ''a'' ?m)) = 1"
    by (simp_all add: js_get_def memory_consume_def retry_after_eq)
  ultimately show ?thesis
    using memory_limiter_bound [of 2 1000 rate_calls 1000 0 "''a''" ?m "\<lparr>entry_count = 2, reset_at = 1000\<rparr>" 30]
    by simp
qed

text \<open>
  C19: while Redis answers, the limiter on Redis decides exactly as the in-memory one: for every
  sequence of calls by any subjects it lets the same calls through, with the counting and the
  expiry done by the Lua script, and the keys of different subjects do not collide (the window is
  one millisecond longer where Redis keeps an entry in the millisecond of its expiry).
\<close>
theorem redis_limiter_matches_memory:
  assumes "validate_prefix p = Inr ()" "1 \<le> mx" "1 \<le> w" "w < max_safe_integer"
    and "int (length cs) \<le> max_safe_integer" "sorted (map fst cs)"
  shows "map allowed (redis_run ae p mx w cs []) = map allowed (memory_run mx (w + expiry_offset ae) cs [])"
proof (cases cs)
  case (Cons c cs')
  have "same_windows ae p mx w 0 (fst c) [] []" by (simp add: same_windows_def same_window_def redis_lookup_def)
  then show ?thesis by (rule runs_same) (use assms Cons in auto)
qed simp

theorem redis_limiter_matches_memory_witness:
  "map allowed (redis_run True ''rl'' 2 1000 rate_calls []) = [True, True, True, False, True]"
proof -
  have "validate_prefix ''rl'' = Inr ()" by (simp add: validate_prefix_def is_prefix_char_def is_alpha_def code_def)
  from redis_limiter_matches_memory [OF this, of 2 1000 rate_calls True] rate_calls_run show ?thesis
    by (simp add: max_safe_integer_def expiry_offset_def rate_calls_def)
qed

text \<open>
  Whatever happens to Redis, the limiter fails open: a call that is not sent, whose reply is
  lost or is not the script's, is let through and reported; and a counter never lives for ever:
  after a call that Redis answers, its key has an expiry, also when an earlier call had left it
  without one.
\<close>
theorem redis_limiter_fails_open:
  assumes "rate_limit_key p s = Inr k"
  shows "(fault \<noteq> No_Fault \<longrightarrow> fst (redis_consume ae fault p mx w now s r) = pass \<and>
      fst (snd (redis_consume ae fault p mx w now s r)) = [''rate_limit_consume'']) \<and>
    (\<not> allowed (fst (redis_consume ae fault p mx w now s r)) \<longrightarrow> fault = No_Fault) \<and>
    (fst (consume_fixed_window_script ae now k w r) = Inr raw \<and> 1 \<le> w \<longrightarrow>
      (\<exists>x t. redis_lookup ae now k (snd (consume_fixed_window_script ae now k w r)) = Some x \<and> item_expires x = Some t \<and> now \<le> t))"
proof -
  have "fst (redis_consume ae fault p mx w now s r) = pass \<and>
      fst (snd (redis_consume ae fault p mx w now s r)) = [''rate_limit_consume'']" if "fault \<noteq> No_Fault"
    using that assms by (cases fault) (simp_all add: redis_consume_def redis_call_def)
  moreover have "\<exists>x t. redis_lookup ae now k (snd (consume_fixed_window_script ae now k w r)) = Some x \<and>
      item_expires x = Some t \<and> now \<le> t" if "fst (consume_fixed_window_script ae now k w r) = Inr raw" "1 \<le> w"
    using script_expires [OF that] .
  ultimately show ?thesis by (cases "fault = No_Fault") (simp_all add: pass_def)
qed

theorem redis_limiter_fails_open_witness:
  "fst (redis_consume True (Not_Sent Redis_Operation_Timeout_Error) ''rl'' 2 1000 0 ''a'' []) = pass"
proof -
  have "validate_prefix ''rl'' = Inr ()" by (simp add: validate_prefix_def is_prefix_char_def is_alpha_def code_def)
  then have "rate_limit_key ''rl'' ''a'' = Inr (''rl:'' @ encode_uri_component ''a'')"
    by (simp add: rate_limit_key_def redis_key_def)
  from redis_limiter_fails_open [OF this, of "Not_Sent Redis_Operation_Timeout_Error" True 2 1000 0 "[]"]
  show ?thesis by simp
qed

end
