(* ===== verification/Json_Parse.thy ===== *)
theory Json_Parse
  imports Json Js_Parse Prelude
begin

text \<open>
  \<open>JSON.parse\<close> for texts of code units below 256: the grammar of JSON by recursive descent, a
  member that is repeated replacing the earlier one.  The recursion carries fuel, one more than
  the length of the text, and every step consumes a character.  A flat object written by
  \<open>JSON.stringify\<close> reads back as itself.
\<close>

section \<open>The parser\<close>

definition is_json_space :: "char \<Rightarrow> bool" where
  "is_json_space c \<longleftrightarrow> code c \<in> {9, 10, 13, 32}"

definition skip_space :: "string \<Rightarrow> string" where
  "skip_space s = dropWhile is_json_space s"

definition is_number_char :: "char \<Rightarrow> bool" where
  "is_number_char c \<longleftrightarrow> is_digit c \<or> c \<in> set ''+-.eE''"

definition json_number_text :: "string \<Rightarrow> bool" where
  "json_number_text t \<longleftrightarrow>
     (let u = (if take 1 t = ''-'' then drop 1 t else t);
          ip = takeWhile is_digit u; r = dropWhile is_digit u
      in ip \<noteq> [] \<and> (hd ip = CHR ''0'' \<longrightarrow> length ip = 1) \<and>
         (take 1 r = ''.'' \<longrightarrow> takeWhile is_digit (drop 1 r) \<noteq> []) \<and> decimal_literal u \<noteq> None)"

definition starts_with :: "string \<Rightarrow> string \<Rightarrow> bool" where
  "starts_with p s \<longleftrightarrow> take (length p) s = p"

definition js_object :: "(string \<times> json) list \<Rightarrow> (string, json) js_map" where
  "js_object ms = fold (\<lambda>(k, v). js_set k v) ms []"

fun json_value :: "nat \<Rightarrow> string \<Rightarrow> (json \<times> string) option"
  and json_value_members :: "nat \<Rightarrow> string \<Rightarrow> ((string \<times> json) list \<times> string) option"
  and json_value_items :: "nat \<Rightarrow> string \<Rightarrow> (json list \<times> string) option" where
  "json_value 0 s = None"
| "json_value (Suc n) s =
     (case skip_space s of
        [] \<Rightarrow> None
      | c # r \<Rightarrow>
          if c = quote then map_option (\<lambda>(t, q). (JString t, q)) (json_read_body r)
          else if c = CHR ''{'' then
            (if take 1 (skip_space r) = ''}'' then Some (JObject [], drop 1 (skip_space r))
             else map_option (\<lambda>(ms, q). (JObject (js_object ms), q)) (json_value_members n r))
          else if c = CHR ''['' then
            (if take 1 (skip_space r) = '']'' then Some (JArray [], drop 1 (skip_space r))
             else map_option (\<lambda>(vs, q). (JArray vs, q)) (json_value_items n r))
          else if starts_with ''null'' (c # r) then Some (JNull, drop 4 (c # r))
          else if starts_with ''true'' (c # r) then Some (JBool True, drop 4 (c # r))
          else if starts_with ''false'' (c # r) then Some (JBool False, drop 5 (c # r))
          else (let t = takeWhile is_number_char (c # r)
                in if json_number_text t
                   then Some (JNumber (string_to_number t), dropWhile is_number_char (c # r))
                   else None))"
| "json_value_members 0 s = None"
| "json_value_members (Suc n) s =
     (case skip_space s of
        [] \<Rightarrow> None
      | c # r \<Rightarrow>
          if c \<noteq> quote then None
          else (case json_read_body r of
                  None \<Rightarrow> None
                | Some (k, r1) \<Rightarrow>
                    if take 1 (skip_space r1) \<noteq> '':'' then None
                    else (case json_value n (drop 1 (skip_space r1)) of
                            None \<Rightarrow> None
                          | Some (v, r2) \<Rightarrow>
                              if take 1 (skip_space r2) = ''}'' then Some ([(k, v)], drop 1 (skip_space r2))
                              else if take 1 (skip_space r2) = '','' then
                                map_option (\<lambda>(ms, q). ((k, v) # ms, q)) (json_value_members n (drop 1 (skip_space r2)))
                              else None)))"
| "json_value_items 0 s = None"
| "json_value_items (Suc n) s =
     (case json_value n s of
        None \<Rightarrow> None
      | Some (v, r) \<Rightarrow>
          if take 1 (skip_space r) = '']'' then Some ([v], drop 1 (skip_space r))
          else if take 1 (skip_space r) = '','' then
            map_option (\<lambda>(vs, q). (v # vs, q)) (json_value_items n (drop 1 (skip_space r)))
          else None)"

definition json_parse :: "string \<Rightarrow> json option" where
  "json_parse s =
     (case json_value (length s + 1) s of
        None \<Rightarrow> None
      | Some (v, r) \<Rightarrow> if skip_space r = [] then Some v else None)"

section \<open>Flat objects read back\<close>

fun json_atom :: "json \<Rightarrow> bool" where
  "json_atom (JString _) = True"
| "json_atom (JNumber x) = is_safe_integer x"
| "json_atom _ = False"

lemma skip_space_Cons [simp]: "\<not> is_json_space c \<Longrightarrow> skip_space (c # s) = c # s"
  by (simp add: skip_space_def)

lemma not_json_space [simp]:
  "\<not> is_json_space quote" "\<not> is_json_space (CHR ''{'')" "\<not> is_json_space (CHR ''}'')"
  "\<not> is_json_space (CHR '','')" "\<not> is_json_space (CHR '':'')" "\<not> is_json_space (CHR ''-'')"
  by (simp_all add: is_json_space_def) (simp_all add: code_def)

lemma digit_not_json_space: "is_digit c \<Longrightarrow> \<not> is_json_space c"
  by (auto simp: is_json_space_def is_digit_def code_def)

lemma js_decimal_number_chars: "\<forall>c \<in> set (js_decimal n). is_number_char c"
  using js_decimal_chars by (fastforce simp: is_number_char_def)

lemma nat_digits_leading: "nat_digits n = CHR ''0'' # r \<Longrightarrow> r = []"
proof (induction n arbitrary: r rule: nat_digits.induct)
  case (1 n)
  show ?case
  proof (cases "n < 10")
    case True
    with 1 show ?thesis by (simp add: nat_digits.simps [of n])
  next
    case False
    have ne: "nat_digits (n div 10) \<noteq> []" by (rule nat_digits_nonempty)
    with False "1.prems" obtain q where q: "nat_digits (n div 10) = CHR ''0'' # q"
      by (cases "nat_digits (n div 10)") (auto simp: nat_digits.simps [of n])
    with "1.IH" [OF False] have "nat_digits (n div 10) = ''0''" by simp
    then have "digits_value (nat_digits (n div 10)) = 0" by (simp add: digits_value_def)
    with False show ?thesis by simp
  qed
qed

lemma json_number_text_decimal: "json_number_text (js_decimal n)"
proof -
  have digits: "takeWhile is_digit (nat_digits m) = nat_digits m" "dropWhile is_digit (nat_digits m) = []" for m
    using nat_digits_all by (simp_all add: takeWhile_eq_all_conv)
  have "take 1 (nat_digits m) \<noteq> ''-''" for m
    using nat_digits_all [of m] not_digits by (cases "nat_digits m") auto
  moreover have "hd (nat_digits m) = CHR ''0'' \<longrightarrow> length (nat_digits m) = 1" for m
    using nat_digits_leading [of m] nat_digits_nonempty [of m] by (cases "nat_digits m") auto
  moreover have "decimal_literal (nat_digits m) \<noteq> None" for m
    using decimal_literal_digits [of "nat_digits m"] nat_digits_all nat_digits_nonempty by (simp add: list_all_iff)
  ultimately show ?thesis
    by (simp add: json_number_text_def js_decimal_def digits nat_digits_nonempty Let_def)
qed

lemma takeWhile_stop:
  "\<forall>c \<in> set s. P c \<Longrightarrow> \<not> P d \<Longrightarrow> takeWhile P (s @ d # r) = s \<and> dropWhile P (s @ d # r) = d # r"
  by (induction s) auto

lemma js_decimal_start: "\<exists>c r. js_decimal n = c # r \<and> (is_digit c \<or> c = CHR ''-'')"
  using js_decimal_chars [of _ n] by (cases "js_decimal n") (auto simp: js_decimal_def nat_digits_nonempty split: if_splits)

text \<open>An atom followed by a comma or a closing brace.\<close>

lemma json_value_atom:
  assumes "json_atom v" "d = CHR '','' \<or> d = CHR ''}''"
  shows "json_value (Suc n) (json_stringify sn v @ d # r) = Some (v, d # r)"
proof (cases v)
  case (JString s)
  then show ?thesis by (simp add: json_quote_def json_read_body_escape)
next
  case (JNumber x)
  with assms(1) obtain i where i: "x = js_int i" "\<bar>i\<bar> \<le> max_safe_integer" by (auto elim!: is_safe_integerE)
  obtain c q where c: "js_decimal i = c # q" "is_digit c \<or> c = CHR ''-''" using js_decimal_start by blast
  have d: "\<not> is_number_char d" using assms(2) by (auto simp: is_number_char_def is_digit_def)
  have tw: "takeWhile is_number_char (js_decimal i @ d # r) = js_decimal i"
    "dropWhile is_number_char (js_decimal i @ d # r) = d # r"
    using takeWhile_stop [OF js_decimal_number_chars d] by simp_all
  have sp: "skip_space (js_decimal i @ d # r) = js_decimal i @ d # r"
    using c digit_not_json_space by auto
  have ne: "c \<noteq> quote" "c \<noteq> CHR ''{''" "c \<noteq> CHR ''[''" "c \<noteq> CHR ''n''" "c \<noteq> CHR ''t''" "c \<noteq> CHR ''f''"
    using c(2) by (auto simp: is_digit_def quote_def)
  have "json_stringify sn v = js_decimal i" using JNumber i by (simp add: number_text_def)
  then show ?thesis
    using tw sp ne json_number_text_decimal [of i] string_to_number_decimal [OF i(2)] JNumber i(1)
    unfolding c(1) by (simp add: starts_with_def Let_def)
qed (use assms in simp_all)

lemma json_value_members_flat:
  assumes "ms \<noteq> []" "\<forall>(k, v) \<in> set ms. json_atom v" "length ms < n"
  shows "json_value_members n (js_join '','' (json_members sn ms) @ CHR ''}'' # r) = Some (ms, r)"
  using assms
proof (induction ms arbitrary: n)
  case (Cons m ms)
  obtain k v where m: "m = (k, v)" by fastforce
  obtain n' where n: "n = Suc (Suc n')" using Cons.prems(3) by (metis One_nat_def Suc_lessE length_Cons less_imp_Suc_add add_Suc_right)
  have v: "json_atom v" using Cons.prems(2) m by simp
  show ?case
  proof (cases ms)
    case Nil
    with v m n show ?thesis
      by (simp add: json_quote_def json_read_body_escape json_value_atom del: json_value.simps)
  next
    case (Cons m2 ms2)
    obtain k2 v2 where m2: "m2 = (k2, v2)" by fastforce
    have "json_value_members (Suc n') (js_join '','' (json_members sn ms) @ CHR ''}'' # r) = Some (ms, r)"
      using Cons.IH [of "Suc n'"] Cons.prems n Cons by simp
    with v m n Cons m2 show ?thesis
      by (simp add: json_quote_def json_read_body_escape json_value_atom del: json_value.simps json_value_members.simps(2)
          add: json_value_members.simps(2) [of "Suc n'"])
  qed
qed simp

lemma js_object_distinct:
  "distinct (map fst (xs @ ms)) \<Longrightarrow> fold (\<lambda>(k, v). js_set k v) ms xs = xs @ ms"
proof (induction ms arbitrary: xs)
  case (Cons m ms)
  obtain k v where m: "m = (k, v)" by fastforce
  have "js_set k v xs = xs @ [(k, v)]"
    using Cons.prems m unfolding js_set_def by (induction xs) auto
  with Cons.IH [of "xs @ [(k, v)]"] Cons.prems m show ?case by simp
qed simp

lemma length_json_members: "length ms \<le> length (js_join '','' (json_members sn ms))"
proof (induction ms)
  case (Cons m ms)
  obtain k v where m: "m = (k, v)" by fastforce
  show ?case using Cons m by (cases "json_members sn ms") (auto simp: json_quote_def)
qed simp

text \<open>\<open>JSON.parse(JSON.stringify(o))\<close> is \<open>o\<close>.\<close>

lemma json_parse_stringify:
  assumes "\<forall>(k, v) \<in> set ms. json_atom v" "distinct (map fst ms)"
  shows "json_parse (json_stringify sn (JObject ms)) = Some (JObject ms)"
proof (cases "ms = []")
  case True
  then show ?thesis by (simp add: json_parse_def) (simp add: quote_def skip_space_def)
next
  case False
  let ?t = "js_join '','' (json_members sn ms)"
  obtain k v ms' where ms: "ms = (k, v) # ms'" using False by (cases ms) auto
  have first: "\<exists>q. ?t = quote # q" by (cases "json_members sn ms'") (simp_all add: ms json_quote_def)
  then have q: "take 1 (skip_space (?t @ ''}'')) \<noteq> ''}''"
  proof -
    have "quote \<noteq> CHR ''}''" by (simp add: quote_def)
    with first show ?thesis by auto
  qed
  have "json_value_members (length (json_stringify sn (JObject ms))) (?t @ CHR ''}'' # []) = Some (ms, [])"
    by (rule json_value_members_flat [OF False assms(1)]) (use length_json_members [of ms sn] in simp)
  moreover have "js_object ms = ms" using js_object_distinct [of "[]" ms] assms(2) by (simp add: js_object_def)
  ultimately show ?thesis using q
    by (simp add: json_parse_def del: json_value_members.simps) (simp add: quote_def skip_space_def)
qed

text \<open>A member of an object.\<close>

definition json_field :: "string \<Rightarrow> json \<Rightarrow> json option" where
  "json_field k v = (case v of JObject ms \<Rightarrow> js_get ms k | _ \<Rightarrow> None)"

end
