(* ===== verification/Redis_Cache.thy ===== *)
theory Redis_Cache
  imports Redis Json_Parse Queries
begin

text \<open>
  \<^verbatim>\<open>src/src/infrastructure/cache/redis-transaction-cache.ts\<close> over the commands of \<open>Redis\<close>: the
  schema of a stored entry, reading with removal of entries that are not one, writing with a time
  to live.  Each Redis call may fail before it is sent or lose its reply (\<open>redis_fault\<close>).

  What the validation package accepts as a UUID and as an ISO timestamp, and how the runtime
  prints and reads a Date, are the parameters of \<open>cache_runtime\<close>.
\<close>

section \<open>Entries\<close>

record cache_runtime =
  is_uuid_text :: "string \<Rightarrow> bool"
  is_datetime_text :: "string \<Rightarrow> bool"
  to_iso_string :: "int \<Rightarrow> string"
  date_of_string :: "string \<Rightarrow> int"
  number_to_text :: "js_number \<Rightarrow> string"

record cached_transaction =
  cached_id :: string
  cached_amount :: int
  cached_currency :: string
  cached_description :: string
  cached_provider_transaction_id :: string
  cached_created_at :: string

definition cached_keys :: "string list" where
  "cached_keys = [''id'', ''amount'', ''currency'', ''description'', ''providerTransactionId'', ''status'', ''createdAt'']"

definition cached_ok :: "cache_runtime \<Rightarrow> cached_transaction \<Rightarrow> bool" where
  "cached_ok rt x \<longleftrightarrow>
     is_uuid_text rt (cached_id x) \<and>
     0 < cached_amount x \<and> cached_amount x \<le> max_safe_integer \<and>
     length (cached_currency x) = 3 \<and> list_all is_upper_letter (cached_currency x) \<and>
     1 \<le> length (cached_description x) \<and> length (cached_description x) \<le> 200 \<and>
     1 \<le> length (cached_provider_transaction_id x) \<and> length (cached_provider_transaction_id x) \<le> 200 \<and>
     is_datetime_text rt (cached_created_at x)"

text \<open>\<open>safeParse\<close>: an object with exactly these members, of these types and within these bounds.\<close>

definition cached_transaction_schema :: "cache_runtime \<Rightarrow> json \<Rightarrow> cached_transaction option" where
  "cached_transaction_schema rt v =
     (case v of
        JObject ms \<Rightarrow>
          (if \<not> list_all (\<lambda>(k, _). k \<in> set cached_keys) ms then None
           else (case (js_get ms ''id'', js_get ms ''amount'', js_get ms ''currency'', js_get ms ''description'',
                       js_get ms ''providerTransactionId'', js_get ms ''status'', js_get ms ''createdAt'') of
                   (Some (JString i), Some (JNumber a), Some (JString c), Some (JString d),
                    Some (JString p), Some (JString st), Some (JString cr)) \<Rightarrow>
                     (let x = \<lparr>cached_id = i, cached_amount = integer_of a, cached_currency = c,
                               cached_description = d, cached_provider_transaction_id = p, cached_created_at = cr\<rparr>
                      in if is_safe_integer a \<and> st = ''approved'' \<and> cached_ok rt x then Some x else None)
                 | _ \<Rightarrow> None))
      | _ \<Rightarrow> None)"

definition cached_of :: "cache_runtime \<Rightarrow> transaction \<Rightarrow> cached_transaction" where
  "cached_of rt t =
     \<lparr>cached_id = transaction_id t, cached_amount = amount t, cached_currency = currency t,
      cached_description = description t, cached_provider_transaction_id = provider_transaction_id t,
      cached_created_at = to_iso_string rt (created_at t)\<rparr>"

definition transaction_of_cached :: "cache_runtime \<Rightarrow> cached_transaction \<Rightarrow> transaction" where
  "transaction_of_cached rt x =
     \<lparr>amount = cached_amount x, currency = cached_currency x, description = cached_description x,
      transaction_id = cached_id x, provider_transaction_id = cached_provider_transaction_id x,
      transaction_status = Approved, created_at = date_of_string rt (cached_created_at x)\<rparr>"

definition cached_json :: "cached_transaction \<Rightarrow> json" where
  "cached_json x = JObject
     [(''id'', JString (cached_id x)), (''amount'', JInt (cached_amount x)),
      (''currency'', JString (cached_currency x)), (''description'', JString (cached_description x)),
      (''providerTransactionId'', JString (cached_provider_transaction_id x)),
      (''status'', JString ''approved''), (''createdAt'', JString (cached_created_at x))]"

section \<open>Operations\<close>

record redis_cache_config =
  cache_prefix :: string
  ttl_seconds :: int
  cache_rt :: cache_runtime
  cache_at_expiry :: bool

definition new_redis_transaction_cache :: "js_number \<Rightarrow> string \<Rightarrow> unit result" where
  "new_redis_transaction_cache ttl prefix =
     (if \<not> is_safe_integer ttl \<or> js_less ttl (js_int 1)
      then Inl (Plain_Error ''Transaction cache TTL must be a positive safe integer'')
      else r_bind (transaction_cache_key prefix ''validation'') (\<lambda>_. Inr ()))"

definition remove_invalid_entry :: "redis_fault \<Rightarrow> string \<Rightarrow> redis \<Rightarrow> redis" where
  "remove_invalid_entry fault key r = snd (redis_call fault (\<lambda>r. (Inr (Redis_Integer 1), redis_del key r)) r)"

definition decode_entry :: "cache_runtime \<Rightarrow> string \<Rightarrow> string \<Rightarrow> transaction option" where
  "decode_entry rt i raw =
     (case json_parse raw of
        None \<Rightarrow> None
      | Some v \<Rightarrow>
          (case cached_transaction_schema rt v of
             None \<Rightarrow> None
           | Some x \<Rightarrow> if cached_id x \<noteq> i then None else Some (transaction_of_cached rt x)))"

definition cache_read :: "redis_cache_config \<Rightarrow> int \<Rightarrow> redis_fault \<times> redis_fault \<Rightarrow> string \<Rightarrow> redis \<Rightarrow>
    transaction option result \<times> redis" where
  "cache_read cfg now faults i r =
     (case transaction_cache_key (cache_prefix cfg) i of
        Inl e \<Rightarrow> (Inl e, r)
      | Inr key \<Rightarrow>
          (case redis_call (fst faults) (\<lambda>r. (Inr (redis_get (cache_at_expiry cfg) now key r), r)) r of
             (Inl e, r') \<Rightarrow> (Inl e, r')
           | (Inr Redis_Null, r') \<Rightarrow> (Inr None, r')
           | (Inr (Redis_String raw), r') \<Rightarrow>
               (case decode_entry (cache_rt cfg) i raw of
                  None \<Rightarrow> (Inl Invalid_Transaction_Cache_Entry_Error, remove_invalid_entry (snd faults) key r')
                | Some t \<Rightarrow> (Inr (Some t), r'))
           | (Inr _, r') \<Rightarrow> (Inl Invalid_Transaction_Cache_Entry_Error, remove_invalid_entry (snd faults) key r')))"

definition cache_write :: "redis_cache_config \<Rightarrow> int \<Rightarrow> redis_fault \<Rightarrow> transaction \<Rightarrow> redis \<Rightarrow> unit result \<times> redis" where
  "cache_write cfg now fault t r =
     (let x = cached_of (cache_rt cfg) t
      in if \<not> cached_ok (cache_rt cfg) x then (Inl (Plain_Error ''ZodError''), r)
         else (case transaction_cache_key (cache_prefix cfg) (transaction_id t) of
                 Inl e \<Rightarrow> (Inl e, r)
               | Inr key \<Rightarrow>
                   (case redis_call fault (\<lambda>r. (Inr (Redis_String ''OK''), redis_set_ex now key
                       (json_stringify (number_to_text (cache_rt cfg)) (cached_json x)) (ttl_seconds cfg) r)) r of
                      (Inl e, r') \<Rightarrow> (Inl e, r')
                    | (Inr _, r') \<Rightarrow> (Inr (), r'))))"

text \<open>\<open>get\<close> and \<open>set\<close> report a failure and throw it on; the reports are the last component.\<close>

definition redis_cache_get :: "redis_cache_config \<Rightarrow> int \<Rightarrow> redis_fault \<times> redis_fault \<Rightarrow> string \<Rightarrow> redis \<Rightarrow>
    (transaction option result \<times> redis) \<times> string list" where
  "redis_cache_get cfg now faults i r =
     (let (a, r') = cache_read cfg now faults i r
      in ((a, r'), (case a of Inl _ \<Rightarrow> [''transaction_cache_read''] | Inr _ \<Rightarrow> [])))"

definition redis_cache_set :: "redis_cache_config \<Rightarrow> int \<Rightarrow> redis_fault \<Rightarrow> transaction \<Rightarrow> redis \<Rightarrow>
    (unit result \<times> redis) \<times> string list" where
  "redis_cache_set cfg now fault t r =
     (let (a, r') = cache_write cfg now fault t r
      in ((a, r'), (case a of Inl _ \<Rightarrow> [''transaction_cache_write''] | Inr _ \<Rightarrow> [])))"

text \<open>The times of the read and of the write, and what befalls their Redis calls.\<close>

definition redis_transaction_cache :: "redis_cache_config \<Rightarrow> int \<times> int \<Rightarrow> (redis_fault \<times> redis_fault) \<times> redis_fault \<Rightarrow>
    redis transaction_cache" where
  "redis_transaction_cache cfg now faults =
     \<lparr>cache_get = (\<lambda>i r. fst (redis_cache_get cfg (fst now) (fst faults) i r)),
      cache_set = (\<lambda>t r. fst (redis_cache_set cfg (snd now) (snd faults) t r))\<rparr>"

section \<open>What an entry holds\<close>

definition runtime_dates :: "cache_runtime \<Rightarrow> transaction \<Rightarrow> bool" where
  "runtime_dates rt t \<longleftrightarrow> date_of_string rt (to_iso_string rt (created_at t)) = created_at t"

definition redis_holds :: "redis_cache_config \<Rightarrow> redis \<Rightarrow> string \<Rightarrow> transaction option" where
  "redis_holds cfg r i =
     (case transaction_cache_key (cache_prefix cfg) i of
        Inl e \<Rightarrow> None
      | Inr key \<Rightarrow>
          (case js_get r key of
             None \<Rightarrow> None
           | Some x \<Rightarrow> decode_entry (cache_rt cfg) i (item_value x)))"

lemma cached_schema_json:
  assumes "cached_ok rt x"
  shows "cached_transaction_schema rt (cached_json x) = Some x"
  using assms by (simp add: cached_transaction_schema_def cached_json_def cached_keys_def js_get_def Let_def cached_ok_def)

text \<open>What is written for a transaction reads back as that transaction.\<close>

lemma decode_written:
  assumes ok: "cached_ok rt (cached_of rt t)" and dates: "runtime_dates rt t"
  shows "decode_entry rt i (json_stringify sn (cached_json (cached_of rt t))) =
    (if i = transaction_id t then Some t else None)"
proof -
  have "json_parse (json_stringify sn (cached_json (cached_of rt t))) = Some (cached_json (cached_of rt t))"
    unfolding cached_json_def using ok by (intro json_parse_stringify) (simp_all add: cached_ok_def)
  moreover have "cached_id (cached_of rt t) = transaction_id t" by (simp add: cached_of_def)
  moreover have "transaction_of_cached rt (cached_of rt t) = t"
    using dates by (cases t; cases "transaction_status t") (simp add: transaction_of_cached_def cached_of_def runtime_dates_def)
  ultimately show ?thesis by (simp add: decode_entry_def cached_schema_json [OF ok])
qed

lemma cache_read_law:
  assumes "cache_read cfg now faults i r = (a, r')"
  shows "(\<forall>t. a = Inr (Some t) \<longrightarrow> redis_holds cfg r i = Some t) \<and>
    (r' = r \<or> (\<exists>key. r' = redis_del key r))"
proof (cases "transaction_cache_key (cache_prefix cfg) i")
  case (Inl e)
  with assms show ?thesis by (auto simp: cache_read_def)
next
  case (Inr key)
  have rm: "remove_invalid_entry f key r = r \<or> remove_invalid_entry f key r = redis_del key r" for f
    by (cases f) (simp_all add: remove_invalid_entry_def redis_call_def)
  show ?thesis
  proof (cases "fst faults")
    case No_Fault
    show ?thesis
    proof (cases "redis_lookup (cache_at_expiry cfg) now key r")
      case None
      with assms Inr No_Fault show ?thesis by (auto simp: cache_read_def redis_call_def redis_get_def)
    next
      case (Some x)
      then have x: "js_get r key = Some x" by (auto simp: redis_lookup_def split: option.splits if_splits)
      show ?thesis
        using assms Inr No_Fault Some x rm [of "snd faults"]
        by (auto simp: cache_read_def redis_call_def redis_get_def redis_holds_def split: option.splits)
    qed
  qed (use assms Inr in \<open>auto simp: cache_read_def redis_call_def\<close>)
qed

lemma redis_holds_del: "redis_holds cfg (redis_del key r) i = Some t \<Longrightarrow> redis_holds cfg r i = Some t"
  by (auto simp: redis_holds_def redis_del_def split: sum.splits option.splits if_splits)

lemma cache_write_law:
  assumes "cache_write cfg now fault t r = (a, r')" "runtime_dates (cache_rt cfg) t"
    and "redis_holds cfg r' i = Some u"
  shows "redis_holds cfg r i = Some u \<or> i = transaction_id t \<and> u = t"
proof (cases "r' = r")
  case False
  with assms(1) obtain key where w: "cached_ok (cache_rt cfg) (cached_of (cache_rt cfg) t)"
    "transaction_cache_key (cache_prefix cfg) (transaction_id t) = Inr key"
    "r' = redis_set_ex now key (json_stringify (number_to_text (cache_rt cfg)) (cached_json (cached_of (cache_rt cfg) t)))
      (ttl_seconds cfg) r"
    by (cases fault) (auto simp: cache_write_def redis_call_def Let_def split: if_splits sum.splits)
  from assms(3) obtain k where k: "transaction_cache_key (cache_prefix cfg) i = Inr k"
    by (auto simp: redis_holds_def split: sum.splits)
  show ?thesis
  proof (cases "k = key")
    case True
    then have "i = transaction_id t"
      using k w(2) redis_key_inject by (auto simp: transaction_cache_key_def)
    with assms(3) w k True decode_written [OF w(1) assms(2)] show ?thesis
      by (simp add: redis_holds_def redis_set_ex_def)
  next
    case False
    with assms(3) w k show ?thesis by (simp add: redis_holds_def redis_set_ex_def)
  qed
qed (use assms(3) in simp)

interpretation redis_cache: read_cache
  "redis_transaction_cache cfg now faults" "\<lambda>_. True" "redis_holds cfg" "runtime_dates (cache_rt cfg)"
proof unfold_locales
  fix r r' :: redis and i a
  assume "cache_get (redis_transaction_cache cfg now faults) i r = (a, r')"
  then have "cache_read cfg (fst now) (fst faults) i r = (a, r')"
    by (simp add: redis_transaction_cache_def redis_cache_get_def Let_def split: prod.splits)
  from cache_read_law [OF this] show "True \<and> (\<forall>t. a = Inr (Some t) \<longrightarrow> redis_holds cfg r i = Some t) \<and>
      (\<forall>j u. redis_holds cfg r' j = Some u \<longrightarrow> redis_holds cfg r j = Some u)"
    using redis_holds_del by blast
next
  fix r r' :: redis and t :: transaction and a
  assume dates: "runtime_dates (cache_rt cfg) t"
    and "cache_set (redis_transaction_cache cfg now faults) t r = (a, r')"
  then have "cache_write cfg (snd now) (snd faults) t r = (a, r')"
    by (simp add: redis_transaction_cache_def redis_cache_set_def Let_def split: prod.splits)
  from cache_write_law [OF this dates] show "True \<and>
      (\<forall>j u. redis_holds cfg r' j = Some u \<longrightarrow> redis_holds cfg r j = Some u \<or> j = transaction_id t \<and> u = t)"
    by blast
qed

section \<open>Properties\<close>

text \<open>
  C20: the cache never changes what \<open>GetTransaction\<close> answers: with any contents of Redis that
  came from transactions of the database (entries may have expired, be garbage or belong to
  others), whichever Redis calls fail or lose their reply, the answer is the one of Postgres
  alone, and Redis again holds only transactions of the database.
\<close>
theorem get_transaction_cache_transparent:
  assumes "driver_ok drv" "db_ok db"
    and coherent: "\<And>j t. redis_holds cfg r j = Some t \<Longrightarrow> postgres_find_by_id drv j db = Inr (Some t)"
    and dates: "\<And>j t. js_get (transactions_table db) j = Some t \<Longrightarrow> runtime_dates (cache_rt cfg) t"
    and res: "get_transaction_execute (postgres_transaction_repository drv)
      (Some (redis_transaction_cache cfg now faults)) i db r = (a, r')"
  shows "a = uncached_answer (postgres_transaction_repository drv) i db \<and>
    (\<forall>j t. redis_holds cfg r' j = Some t \<longrightarrow> postgres_find_by_id drv j db = Inr (Some t))"
proof -
  have find: "find_by_id (postgres_transaction_repository drv) j db = postgres_find_by_id drv j db" for j
    by (simp add: postgres_transaction_repository_def)
  have own: "postgres_find_by_id drv (transaction_id t) db = Inr (Some t) \<and> runtime_dates (cache_rt cfg) t"
    if found: "postgres_find_by_id drv j db = Inr (Some t)" for j t
  proof -
    from found obtain u where u: "js_get (transactions_table db) (to_lower j) = Some u"
      by (auto simp: postgres_find_by_id_def split: if_splits option.splits)
    have row: "transaction_row_ok u" "transaction_id u = to_lower j" "to_lower (to_lower j) = to_lower j"
      using db_ok_transaction [OF assms(2) u] by simp_all
    have m: "map_transaction drv (transaction_row_of drv u) = Inr u"
      using map_transaction_row [OF assms(1) row(1)] .
    have "u = t" using found u m by (auto simp: postgres_find_by_id_def split: if_splits)
    moreover have "is_uuid (to_lower j)" using row by (simp add: transaction_row_ok_def)
    ultimately show ?thesis using u m row dates [OF u] by (simp add: postgres_find_by_id_def)
  qed
  have coh: "redis_cache.coherent cfg (postgres_transaction_repository drv) db r"
    using coherent by (simp add: redis_cache.coherent_def find)
  from redis_cache.get_transaction_transparent [OF coh _ res] own show ?thesis
    by (auto simp: redis_cache.coherent_def find)
qed

text \<open>A runtime for the witnesses: dates as decimal numerals.\<close>

definition plain_runtime :: cache_runtime where
  "plain_runtime = \<lparr>is_uuid_text = is_uuid, is_datetime_text = (\<lambda>s. s \<noteq> []), to_iso_string = js_decimal,
     date_of_string = decimal_integer, number_to_text = (\<lambda>_. [])\<rparr>"

definition plain_cache :: redis_cache_config where
  "plain_cache = \<lparr>cache_prefix = ''tx'', ttl_seconds = 60, cache_rt = plain_runtime, cache_at_expiry = False\<rparr>"

lemma plain_runtime_dates: "runtime_dates plain_runtime t"
  by (simp add: runtime_dates_def plain_runtime_def)

theorem get_transaction_cache_transparent_witness:
  "fst (get_transaction_execute (postgres_transaction_repository text_driver)
     (Some (redis_transaction_cache plain_cache (0, 5) ((Not_Sent Redis_Operation_Timeout_Error, No_Fault), No_Fault)))
     (transaction_id pg_transaction) pg_two []) =
   uncached_answer (postgres_transaction_repository text_driver) (transaction_id pg_transaction) pg_two"
proof -
  let ?e = "get_transaction_execute (postgres_transaction_repository text_driver)
     (Some (redis_transaction_cache plain_cache (0, 5) ((Not_Sent Redis_Operation_Timeout_Error, No_Fault), No_Fault)))
     (transaction_id pg_transaction) pg_two []"
  have empty: "redis_holds plain_cache [] j \<noteq> Some t" for j t
    by (simp add: redis_holds_def split: sum.splits)
  have dates: "runtime_dates (cache_rt plain_cache) t" if "js_get (transactions_table pg_two) j = Some t" for j t
    using that plain_runtime_dates [of t]
    by (auto simp: pg_two_def js_get_def plain_cache_def pg_transaction_def pg_transaction2_def max_safe_integer_def
        split: if_splits)
  have eq: "?e = (fst ?e, snd ?e)" by simp
  show ?thesis
    by (rule conjunct1 [OF get_transaction_cache_transparent [OF text_driver_ok pg_two_ok _ dates eq]])
      (simp_all add: empty)
qed



end
