(* ===== verification/Metrics.thy ===== *)
theory Metrics
  imports Js_String Js_Number Json Prelude
begin

text \<open>
  \<^verbatim>\<open>src/src/infrastructure/observability/metrics.ts\<close>: the counters and the latency histograms of
  \<open>ApplicationMetrics\<close> and their text exposition.  The methods that only increment a counter are
  the constructors of \<open>metric_event\<close>, so that other components hand over events.  The collation
  of \<open>localeCompare\<close> and the text of a number that is not a safe integer are parameters.
\<close>

section \<open>Labels\<close>

type_synonym labels = "(string \<times> string) list"

definition histogram_buckets :: "js_number list" where
  "histogram_buckets = map to_double [5 / 1000, 1 / 100, 25 / 1000, 5 / 100, 1 / 10, 25 / 100, 5 / 10, 1, 25 / 10, 5, 10]"

definition allowed_http_methods :: "string list" where
  "allowed_http_methods = [''DELETE'', ''GET'', ''HEAD'', ''OPTIONS'', ''PATCH'', ''POST'', ''PUT'']"

definition allowed_http_routes :: "string list" where
  "allowed_http_routes =
     [''/health'', ''/health/live'', ''/health/ready'', ''/metrics'', ''/transactions'', ''/transactions/:id'', ''unmatched'']"

datatype failure_category = Invalid_Response | Network | Rate_Limited | Rejected | Server | Timeout | Unknown

fun category_text :: "failure_category \<Rightarrow> string" where
  "category_text Invalid_Response = ''invalid_response''"
| "category_text Network = ''network''"
| "category_text Rate_Limited = ''rate_limited''"
| "category_text Rejected = ''rejected''"
| "category_text Server = ''server''"
| "category_text Timeout = ''timeout''"
| "category_text Unknown = ''unknown''"

definition newline :: char where "newline = CHR 0x0A"

text \<open>Replacing all occurrences of one character.\<close>

definition replace_all :: "char \<Rightarrow> string \<Rightarrow> string \<Rightarrow> string" where
  "replace_all c t s = concat (map (\<lambda>d. if d = c then t else [d]) s)"

definition escape_label :: "string \<Rightarrow> string" where
  "escape_label v =
     replace_all quote [backslash, quote]
       (replace_all newline [backslash, CHR ''n''] (replace_all backslash [backslash, backslash] v))"

definition sorted_entries :: "(string \<Rightarrow> string \<Rightarrow> int) \<Rightarrow> labels \<Rightarrow> labels" where
  "sorted_entries locale_compare ls = js_sort (\<lambda>l r. locale_compare (fst l) (fst r)) ls"

definition label_key :: "(string \<Rightarrow> string \<Rightarrow> int) \<Rightarrow> labels \<Rightarrow> string" where
  "label_key lc ls = js_join [CHR 0x00] (map (\<lambda>(n, v). n @ ''='' @ v) (sorted_entries lc ls))"

definition render_labels :: "(string \<Rightarrow> string \<Rightarrow> int) \<Rightarrow> labels \<Rightarrow> string" where
  "render_labels lc ls =
     (let entries = sorted_entries lc ls
      in if entries = [] then []
         else ''{'' @ js_join '','' (map (\<lambda>(n, v). n @ ''='' @ [quote] @ escape_label v @ [quote]) entries) @ ''}'')"

definition status_class :: "int \<Rightarrow> string" where
  "status_class status = js_decimal (integer_of (math_floor (js_div (js_int status) (js_int 100)))) @ ''xx''"

section \<open>State\<close>

record counter =
  counter_name :: string
  counter_labels :: labels
  counter_value :: int

record histogram =
  histogram_labels :: labels
  histogram_count :: int
  histogram_sum :: js_number
  buckets :: "int list"

record application_metrics =
  counters :: "(string, counter) js_map"
  http_durations :: "(string, histogram) js_map"

definition new_metrics :: application_metrics where
  "new_metrics = \<lparr>counters = [], http_durations = []\<rparr>"

definition counter_key :: "(string \<Rightarrow> string \<Rightarrow> int) \<Rightarrow> string \<Rightarrow> labels \<Rightarrow> string" where
  "counter_key lc name ls = name @ [CHR 0x01] @ label_key lc ls"

definition increment :: "(string \<Rightarrow> string \<Rightarrow> int) \<Rightarrow> string \<Rightarrow> labels \<Rightarrow> application_metrics \<Rightarrow> application_metrics" where
  "increment lc name ls m =
     (let key = counter_key lc name ls
      in case js_get (counters m) key of
           None \<Rightarrow> m\<lparr>counters := js_set key \<lparr>counter_name = name, counter_labels = ls, counter_value = 1\<rparr> (counters m)\<rparr>
         | Some c \<Rightarrow> m\<lparr>counters := js_set key (c\<lparr>counter_value := counter_value c + 1\<rparr>) (counters m)\<rparr>)"

definition metric_value :: "(string \<Rightarrow> string \<Rightarrow> int) \<Rightarrow> string \<Rightarrow> labels \<Rightarrow> application_metrics \<Rightarrow> int" where
  "metric_value lc name ls m =
     (case js_get (counters m) (counter_key lc name ls) of None \<Rightarrow> 0 | Some c \<Rightarrow> counter_value c)"

section \<open>Recording\<close>

definition safe_method :: "string \<Rightarrow> string" where
  "safe_method meth = (if meth \<in> set allowed_http_methods then meth else ''OTHER'')"

definition safe_route :: "string \<Rightarrow> string" where
  "safe_route route = (if route \<in> set allowed_http_routes then route else ''unmatched'')"

fun is_integer_number :: "js_number \<Rightarrow> bool" where
  "is_integer_number (Num q) = (of_int \<lfloor>q\<rfloor> = q)"
| "is_integer_number _ = False"

definition safe_status :: "js_number \<Rightarrow> int" where
  "safe_status status =
     (if is_integer_number status \<and> 100 \<le> integer_of status \<and> integer_of status \<le> 599 then integer_of status else 500)"

definition safe_seconds :: "js_number \<Rightarrow> js_number" where
  "safe_seconds seconds = (if is_finite seconds \<and> \<not> js_less seconds (js_int 0) then seconds else js_int 0)"

definition observe :: "js_number \<Rightarrow> histogram \<Rightarrow> histogram" where
  "observe seconds h =
     h\<lparr>histogram_count := histogram_count h + 1,
       histogram_sum := js_add (histogram_sum h) seconds,
       buckets := map (\<lambda>(b, n). if \<not> js_less b seconds then n + 1 else n) (zip histogram_buckets (buckets h))\<rparr>"

definition record_http :: "(string \<Rightarrow> string \<Rightarrow> int) \<Rightarrow> string \<Rightarrow> string \<Rightarrow> js_number \<Rightarrow> js_number \<Rightarrow>
    application_metrics \<Rightarrow> application_metrics" where
  "record_http lc meth route status seconds m =
     (let sm = safe_method meth; sr = safe_route route; ss = safe_status status; sec = safe_seconds seconds;
          m1 = increment lc ''http_requests_total''
                 [(''method'', sm), (''route'', sr), (''status'', js_decimal ss)] m;
          m2 = (if 400 \<le> ss
                then increment lc ''http_errors_total'' [(''route'', sr), (''class'', status_class ss)] m1 else m1);
          ls = [(''method'', sm), (''route'', sr), (''status_class'', status_class ss)];
          key = label_key lc ls;
          h = (case js_get (http_durations m2) key of
                 None \<Rightarrow> \<lparr>histogram_labels = ls, histogram_count = 0, histogram_sum = js_int 0,
                          buckets = map (\<lambda>_. 0) histogram_buckets\<rparr>
               | Some h \<Rightarrow> h)
      in m2\<lparr>http_durations := js_set key (observe sec h) (http_durations m2)\<rparr>)"

datatype metric_event =
    Record_Http string string js_number js_number
  | Provider_Attempt
  | Provider_Failure failure_category
  | Provider_Timeout
  | Provider_Retry
  | Circuit_Opened
  | Cache_Hit
  | Cache_Miss
  | Cache_Error string
  | Rate_Limit_Rejected
  | Redis_Error string
  | Database_Error string

fun counter_of :: "metric_event \<Rightarrow> string \<times> labels" where
  "counter_of (Record_Http meth route status seconds) =
     (''http_requests_total'', [(''method'', safe_method meth), (''route'', safe_route route), (''status'', js_decimal (safe_status status))])"
| "counter_of Provider_Attempt = (''provider_requests_total'', [])"
| "counter_of (Provider_Failure c) = (''provider_failures_total'', [(''category'', category_text c)])"
| "counter_of Provider_Timeout = (''provider_timeouts_total'', [])"
| "counter_of Provider_Retry = (''provider_retries_total'', [])"
| "counter_of Circuit_Opened = (''circuit_open_total'', [])"
| "counter_of Cache_Hit = (''cache_hit_total'', [])"
| "counter_of Cache_Miss = (''cache_miss_total'', [])"
| "counter_of (Cache_Error opn) = (''cache_error_total'', [(''operation'', opn)])"
| "counter_of Rate_Limit_Rejected = (''rate_limit_rejected_total'', [])"
| "counter_of (Redis_Error opn) = (''redis_errors_total'', [(''operation'', opn)])"
| "counter_of (Database_Error opn) = (''database_errors_total'', [(''operation'', opn)])"

definition record_event :: "(string \<Rightarrow> string \<Rightarrow> int) \<Rightarrow> metric_event \<Rightarrow> application_metrics \<Rightarrow> application_metrics" where
  "record_event lc ev m =
     (case ev of
        Record_Http meth route status seconds \<Rightarrow> record_http lc meth route status seconds m
      | _ \<Rightarrow> increment lc (fst (counter_of ev)) (snd (counter_of ev)) m)"

definition record_events :: "(string \<Rightarrow> string \<Rightarrow> int) \<Rightarrow> metric_event list \<Rightarrow> application_metrics \<Rightarrow> application_metrics" where
  "record_events lc evs m = fold (record_event lc) evs m"

section \<open>Exposition\<close>

definition header_lines :: "string list" where
  "header_lines =
     [''# HELP http_requests_total Total HTTP responses.'',
      ''# TYPE http_requests_total counter'',
      ''# HELP http_errors_total Total HTTP error responses by status class.'',
      ''# TYPE http_errors_total counter'',
      ''# HELP http_request_duration_seconds HTTP response latency in seconds.'',
      ''# TYPE http_request_duration_seconds histogram'']"

text \<open>\<open>[...new Set(names)].sort()\<close>: the default order of \<open>sort\<close> is by code units.\<close>

definition additional_counter_names :: "(string \<Rightarrow> string \<Rightarrow> int) \<Rightarrow> application_metrics \<Rightarrow> string list" where
  "additional_counter_names code_order m =
     js_sort code_order (rev (remdups (rev (filter (\<lambda>n. n \<noteq> ''http_requests_total'' \<and> n \<noteq> ''http_errors_total'')
       (map counter_name (js_values (counters m)))))))"

definition counter_line :: "(string \<Rightarrow> string \<Rightarrow> int) \<Rightarrow> counter \<Rightarrow> string" where
  "counter_line lc c = counter_name c @ render_labels lc (counter_labels c) @ '' '' @ js_decimal (counter_value c)"

text \<open>\<open>String(x)\<close> of a number.\<close>

definition number_string :: "(js_number \<Rightarrow> string) \<Rightarrow> js_number \<Rightarrow> string" where
  "number_string sn x =
     (case x of
        NaN \<Rightarrow> ''NaN''
      | Infinity \<Rightarrow> ''Infinity''
      | Neg_Infinity \<Rightarrow> ''-Infinity''
      | Num _ \<Rightarrow> if is_safe_integer x then js_decimal (integer_of x) else sn x)"

definition histogram_lines :: "(string \<Rightarrow> string \<Rightarrow> int) \<Rightarrow> (js_number \<Rightarrow> string) \<Rightarrow> histogram \<Rightarrow> string list" where
  "histogram_lines lc sn h =
     map (\<lambda>(b, n). ''http_request_duration_seconds_bucket'' @
           render_labels lc (histogram_labels h @ [(''le'', number_string sn b)]) @ '' '' @ js_decimal n)
         (zip histogram_buckets (buckets h)) @
     [''http_request_duration_seconds_bucket'' @
        render_labels lc (histogram_labels h @ [(''le'', ''+Inf'')]) @ '' '' @ js_decimal (histogram_count h),
      ''http_request_duration_seconds_sum'' @ render_labels lc (histogram_labels h) @ '' '' @ number_string sn (histogram_sum h),
      ''http_request_duration_seconds_count'' @ render_labels lc (histogram_labels h) @ '' '' @ js_decimal (histogram_count h)]"

definition metric_lines :: "(string \<Rightarrow> string \<Rightarrow> int) \<Rightarrow> (string \<Rightarrow> string \<Rightarrow> int) \<Rightarrow> (js_number \<Rightarrow> string) \<Rightarrow>
    application_metrics \<Rightarrow> string list" where
  "metric_lines lc code_order sn m =
     header_lines @
     map (\<lambda>n. ''# TYPE '' @ n @ '' counter'') (additional_counter_names code_order m) @
     map (counter_line lc)
       (js_sort (\<lambda>l r. lc (counter_name l @ label_key lc (counter_labels l)) (counter_name r @ label_key lc (counter_labels r)))
         (js_values (counters m))) @
     concat (map (histogram_lines lc sn)
       (js_sort (\<lambda>l r. lc (label_key lc (histogram_labels l)) (label_key lc (histogram_labels r)))
         (js_values (http_durations m))))"

definition render :: "(string \<Rightarrow> string \<Rightarrow> int) \<Rightarrow> (string \<Rightarrow> string \<Rightarrow> int) \<Rightarrow> (js_number \<Rightarrow> string) \<Rightarrow>
    application_metrics \<Rightarrow> string" where
  "render lc code_order sn m = js_join [newline] (metric_lines lc code_order sn m) @ [newline]"

section \<open>Counting\<close>

text \<open>The increments an event makes, and the value of the counter of a key.\<close>

definition increments_of :: "metric_event \<Rightarrow> (string \<times> labels) list" where
  "increments_of ev =
     counter_of ev #
     (case ev of
        Record_Http meth route status seconds \<Rightarrow>
          if 400 \<le> safe_status status
          then [(''http_errors_total'', [(''route'', safe_route route), (''class'', status_class (safe_status status))])]
          else []
      | _ \<Rightarrow> [])"

definition value_at :: "string \<Rightarrow> application_metrics \<Rightarrow> int" where
  "value_at k m = (case js_get (counters m) k of None \<Rightarrow> 0 | Some c \<Rightarrow> counter_value c)"

definition increments_at :: "(string \<Rightarrow> string \<Rightarrow> int) \<Rightarrow> string \<Rightarrow> (string \<times> labels) list \<Rightarrow> nat" where
  "increments_at lc k incs = length (filter (\<lambda>(n, ls). counter_key lc n ls = k) incs)"

lemma increments_at_append [simp]: "increments_at lc k (a @ b) = increments_at lc k a + increments_at lc k b"
  by (simp add: increments_at_def)

lemma value_at_increment:
  "value_at k (increment lc n ls m) = value_at k m + int (increments_at lc k [(n, ls)])"
  by (auto simp: value_at_def increment_def increments_at_def Let_def split: option.splits)

lemma http_durations_increment [simp]: "http_durations (increment lc n ls m) = http_durations m"
  by (simp add: increment_def Let_def split: option.splits)

lemma counters_http [simp]: "counters (m\<lparr>http_durations := d\<rparr>) = counters m"
  by simp

lemma value_at_http [simp]: "value_at k (m\<lparr>http_durations := d\<rparr>) = value_at k m"
  by (simp add: value_at_def)

lemma value_at_record:
  "value_at k (record_event lc ev m) = value_at k m + int (increments_at lc k (increments_of ev))"
  by (cases ev) (auto simp: record_event_def record_http_def increments_of_def value_at_increment Let_def
      increments_at_def)

lemma record_events_snoc [simp]: "record_events lc (evs @ [ev]) m = record_event lc ev (record_events lc evs m)"
  by (simp add: record_events_def)

lemma value_at_events:
  "value_at k (record_events lc evs new_metrics) = int (increments_at lc k (concat (map increments_of evs)))"
proof (induction evs rule: rev_induct)
  case Nil
  then show ?case by (simp add: record_events_def new_metrics_def value_at_def increments_at_def)
next
  case (snoc ev evs)
  then show ?case by (simp add: value_at_record)
qed

section \<open>Histograms\<close>

text \<open>What was observed under a key.\<close>

definition histogram_labels_of :: "string \<Rightarrow> string \<Rightarrow> js_number \<Rightarrow> labels" where
  "histogram_labels_of meth route status =
     [(''method'', safe_method meth), (''route'', safe_route route), (''status_class'', status_class (safe_status status))]"

definition observations :: "(string \<Rightarrow> string \<Rightarrow> int) \<Rightarrow> string \<Rightarrow> metric_event list \<Rightarrow> js_number list" where
  "observations lc k evs = concat (map (\<lambda>ev.
     case ev of
       Record_Http meth route status seconds \<Rightarrow>
         if label_key lc (histogram_labels_of meth route status) = k then [safe_seconds seconds] else []
     | _ \<Rightarrow> []) evs)"

definition upto_bound :: "js_number list \<Rightarrow> js_number \<Rightarrow> int" where
  "upto_bound secs b = int (length (filter (\<lambda>s. \<not> js_less b s) secs))"

definition histogram_exact :: "js_number list \<Rightarrow> histogram option \<Rightarrow> bool" where
  "histogram_exact secs h \<longleftrightarrow>
     (case h of
        None \<Rightarrow> secs = []
      | Some h \<Rightarrow> secs \<noteq> [] \<and> histogram_count h = int (length secs) \<and> histogram_sum h = foldl js_add (js_int 0) secs \<and>
          buckets h = map (upto_bound secs) histogram_buckets)"

lemma js_get_durations_record:
  "js_get (http_durations (record_event lc ev m)) k =
    (case ev of
       Record_Http meth route status seconds \<Rightarrow>
         if label_key lc (histogram_labels_of meth route status) = k
         then Some (observe (safe_seconds seconds)
           (case js_get (http_durations m) k of
              None \<Rightarrow> \<lparr>histogram_labels = histogram_labels_of meth route status, histogram_count = 0,
                histogram_sum = js_int 0, buckets = map (\<lambda>_. 0) histogram_buckets\<rparr>
            | Some h \<Rightarrow> h))
         else js_get (http_durations m) k
     | _ \<Rightarrow> js_get (http_durations m) k)"
  by (cases ev) (auto simp: record_event_def record_http_def histogram_labels_of_def Let_def cong: option.case_cong)

lemma buckets_observe:
  "map (\<lambda>(b, n). if \<not> js_less b s then n + 1 else n) (zip bs (map (upto_bound secs) bs)) = map (upto_bound (secs @ [s])) bs"
  by (induction bs) (simp_all add: upto_bound_def)

lemma upto_bound_Nil [simp]: "upto_bound [] = (\<lambda>_. 0)"
  by (rule ext) (simp add: upto_bound_def)

lemma observe_exact:
  assumes "histogram_count h = int (length secs)" "histogram_sum h = foldl js_add (js_int 0) secs"
    and "buckets h = map (upto_bound secs) histogram_buckets"
  shows "histogram_exact (secs @ [s]) (Some (observe s h))"
  using assms by (simp add: histogram_exact_def observe_def buckets_observe)

lemma histogram_events:
  "histogram_exact (observations lc k evs) (js_get (http_durations (record_events lc evs new_metrics)) k)"
proof (induction evs rule: rev_induct)
  case Nil
  then show ?case by (simp add: record_events_def new_metrics_def observations_def histogram_exact_def)
next
  case (snoc ev evs)
  let ?h = "js_get (http_durations (record_events lc evs new_metrics)) k"
  show ?case
  proof (cases "\<exists>meth route status seconds. ev = Record_Http meth route status seconds \<and>
      label_key lc (histogram_labels_of meth route status) = k")
    case False
    then have "observations lc k (evs @ [ev]) = observations lc k evs"
      by (cases ev) (auto simp: observations_def)
    moreover have "js_get (http_durations (record_events lc (evs @ [ev]) new_metrics)) k = ?h"
      using False by (cases ev) (auto simp: js_get_durations_record)
    ultimately show ?thesis using snoc by simp
  next
    case True
    then obtain meth route status seconds where ev: "ev = Record_Http meth route status seconds"
      "label_key lc (histogram_labels_of meth route status) = k" by blast
    have obs: "observations lc k (evs @ [ev]) = observations lc k evs @ [safe_seconds seconds]"
      using ev by (simp add: observations_def)
    show ?thesis
    proof (cases ?h)
      case None
      then have "observations lc k evs = []" using snoc by (simp add: histogram_exact_def)
      with obs ev None show ?thesis
        by (simp add: js_get_durations_record observe_exact [of _ "[]", simplified])
    next
      case (Some h)
      with snoc have "histogram_count h = int (length (observations lc k evs))"
        "histogram_sum h = foldl js_add (js_int 0) (observations lc k evs)"
        "buckets h = map (upto_bound (observations lc k evs)) histogram_buckets" by (simp_all add: histogram_exact_def)
      with obs ev Some observe_exact show ?thesis by (simp add: js_get_durations_record)
    qed
  qed
qed

text \<open>The boundaries ascend, so the buckets are cumulative.\<close>

lemma to_double_ascending:
  assumes "0 \<le> x" "x \<le> y" "y \<le> 10"
  shows "\<exists>a b. to_double x = Num a \<and> to_double y = Num b \<and> a \<le> b"
  using to_double_small [of x 10] to_double_small [of y 10] round_double_mono [OF assms(1,2)] assms by simp

lemma to_double_sorted:
  assumes "sorted qs" "\<forall>x \<in> set qs. 0 \<le> x \<and> x \<le> 10"
  shows "sorted_wrt (\<lambda>x y. \<exists>p q. to_double x = Num p \<and> to_double y = Num q \<and> p \<le> q) qs"
  using assms by (induction qs) (use to_double_ascending in auto)

lemma histogram_buckets_ascending:
  "sorted_wrt (\<lambda>a b. \<exists>p q. a = Num p \<and> b = Num q \<and> p \<le> q) histogram_buckets"
  unfolding histogram_buckets_def sorted_wrt_map by (rule to_double_sorted) simp_all

lemma upto_bound_mono: "p \<le> q \<Longrightarrow> upto_bound secs (Num p) \<le> upto_bound secs (Num q)"
proof -
  assume "p \<le> q"
  then have "\<not> js_less (Num p) s \<Longrightarrow> \<not> js_less (Num q) s" for s by (cases s) auto
  then have "length (filter (\<lambda>s. \<not> js_less (Num p) s) secs) \<le> length (filter (\<lambda>s. \<not> js_less (Num q) s) secs)"
    by (induction secs) auto
  then show ?thesis by (simp add: upto_bound_def)
qed

lemma upto_bound_sorted: "sorted (map (upto_bound secs) histogram_buckets)"
  unfolding sorted_wrt_map
  by (rule sorted_wrt_mono_rel [OF _ histogram_buckets_ascending]) (auto intro: upto_bound_mono)

section \<open>Bounded series\<close>

lemma status_class_div:
  assumes "100 \<le> s" "s \<le> 599"
  shows "status_class s = js_decimal (s div 100) @ ''xx''"
proof -
  define k where "k = s div 100"
  have k: "1 \<le> k" "k \<le> 5" "100 * k \<le> s" "s \<le> 100 * k + 99" using assms by (auto simp: k_def)
  let ?q = "of_int s / 100 :: rat"
  have "(of_int (100 * k) :: rat) \<le> of_int s" "(of_int s :: rat) \<le> of_int (100 * k + 99)"
    using k by (simp_all only: of_int_le_iff)
  then have q: "of_int k \<le> ?q" "?q \<le> of_int k + 99 / 100" by simp_all
  have exact: "round_double (of_int m / 128) = of_int m / 128" if "\<bar>m\<bar> < 2 ^ 53" for m
    using round_double_exact [OF that, of "- 7"] by (simp add: power_int_def field_simps)
  have "round_double (of_int k) = of_int k" using k by (intro round_double_of_int) simp
  moreover have "round_double (of_int k) \<le> round_double ?q" using k q by (intro round_double_mono) auto
  ultimately have lower: "of_int k \<le> round_double ?q" by simp
  have up: "?q \<le> of_int (128 * k + 127) / 128" using q by simp
  have "round_double ?q \<le> of_int (128 * k + 127) / 128"
    using round_double_mono [of ?q, OF _ up] exact [of "128 * k + 127"] assms k by simp
  then have "\<lfloor>round_double ?q\<rfloor> = k" using lower by (simp add: floor_eq_iff)
  moreover have "js_div (js_int s) (js_int 100) = Num (round_double ?q)"
    using to_double_small [of ?q "k + 1"] q k by (simp add: js_int_def)
  ultimately show ?thesis by (simp add: status_class_def k_def)
qed

definition safe_methods :: "string list" where
  "safe_methods = allowed_http_methods @ [''OTHER'']"

definition operation_texts :: "string list" where
  "operation_texts = [''get'', ''set'', ''cache_get'', ''cache_set'', ''rate_limit'', ''readiness'']"

definition http_statuses :: "int list" where "http_statuses = [100..599]"
definition status_classes :: "int list" where "status_classes = [1..5]"

lemma set_http_statuses: "s \<in> set http_statuses \<longleftrightarrow> 100 \<le> s \<and> s \<le> 599"
  by (simp only: http_statuses_def set_upto atLeastAtMost_iff)

lemma set_status_classes: "s \<in> set status_classes \<longleftrightarrow> 1 \<le> s \<and> s \<le> 5"
  by (simp only: status_classes_def set_upto atLeastAtMost_iff)

lemma length_statuses: "length http_statuses = 500" "length status_classes = 5"
  by (simp_all only: http_statuses_def status_classes_def length_upto)

text \<open>Every series a counter or a histogram can be about.\<close>

definition http_series :: "(string \<times> labels) list" where
  "http_series = map (\<lambda>(m, r, s).
     (''http_requests_total'', [(''method'', m), (''route'', r), (''status'', js_decimal s)]))
     (List.product safe_methods (List.product allowed_http_routes http_statuses))"

definition error_series :: "(string \<times> labels) list" where
  "error_series = map (\<lambda>(r, c). (''http_errors_total'', [(''route'', r), (''class'', js_decimal c @ ''xx'')]))
     (List.product allowed_http_routes status_classes)"

definition plain_series :: "(string \<times> labels) list" where
  "plain_series = map (\<lambda>n. (n, [])) [''provider_requests_total'', ''provider_timeouts_total'', ''provider_retries_total'',
     ''circuit_open_total'', ''cache_hit_total'', ''cache_miss_total'', ''rate_limit_rejected_total'']"

definition failure_series :: "(string \<times> labels) list" where
  "failure_series = map (\<lambda>c. (''provider_failures_total'', [(''category'', category_text c)]))
     [Invalid_Response, Network, Rate_Limited, Rejected, Server, Timeout, Unknown]"

definition operation_series :: "(string \<times> labels) list" where
  "operation_series = map (\<lambda>(n, opn). (n, [(''operation'', opn)]))
     (List.product [''cache_error_total'', ''redis_errors_total'', ''database_errors_total''] operation_texts)"

definition metric_series :: "(string \<times> labels) list" where
  "metric_series = http_series @ error_series @ plain_series @ failure_series @ operation_series"

definition histogram_series :: "labels list" where
  "histogram_series = map (\<lambda>(m, r, c). [(''method'', m), (''route'', r), (''status_class'', js_decimal c @ ''xx'')])
     (List.product safe_methods (List.product allowed_http_routes status_classes))"

text \<open>The operations are of the types the code declares.\<close>

fun event_ok :: "metric_event \<Rightarrow> bool" where
  "event_ok (Cache_Error opn) = (opn \<in> set operation_texts)"
| "event_ok (Redis_Error opn) = (opn \<in> set operation_texts)"
| "event_ok (Database_Error opn) = (opn \<in> set operation_texts)"
| "event_ok _ = True"

lemma safe_method_in: "safe_method m \<in> set safe_methods"
  by (auto simp: safe_method_def safe_methods_def)

lemma safe_route_in: "safe_route r \<in> set allowed_http_routes"
  by (auto simp: safe_route_def allowed_http_routes_def)

lemma safe_status_range: "100 \<le> safe_status s \<and> safe_status s \<le> 599"
  by (simp add: safe_status_def)

lemma status_class_in: "\<exists>c \<in> set status_classes. status_class (safe_status s) = js_decimal c @ ''xx''"
  using safe_status_range [of s] status_class_div [of "safe_status s"]
  by (intro bexI [of _ "safe_status s div 100"]) (auto simp: set_status_classes)

lemma http_series_mem:
  "m \<in> set safe_methods \<Longrightarrow> r \<in> set allowed_http_routes \<Longrightarrow> s \<in> set http_statuses \<Longrightarrow>
    (''http_requests_total'', [(''method'', m), (''route'', r), (''status'', js_decimal s)]) \<in> set http_series"
  unfolding http_series_def set_map by (rule image_eqI [of _ _ "(m, r, s)"]) simp_all

lemma error_series_mem:
  "r \<in> set allowed_http_routes \<Longrightarrow> c \<in> set status_classes \<Longrightarrow>
    (''http_errors_total'', [(''route'', r), (''class'', js_decimal c @ ''xx'')]) \<in> set error_series"
  unfolding error_series_def set_map by (rule image_eqI [of _ _ "(r, c)"]) simp_all

lemma histogram_series_mem:
  "m \<in> set safe_methods \<Longrightarrow> r \<in> set allowed_http_routes \<Longrightarrow> c \<in> set status_classes \<Longrightarrow>
    [(''method'', m), (''route'', r), (''status_class'', js_decimal c @ ''xx'')] \<in> set histogram_series"
  unfolding histogram_series_def set_map by (rule image_eqI [of _ _ "(m, r, c)"]) simp_all

lemma operation_series_mem:
  "n \<in> set [''cache_error_total'', ''redis_errors_total'', ''database_errors_total''] \<Longrightarrow> opn \<in> set operation_texts \<Longrightarrow>
    (n, [(''operation'', opn)]) \<in> set operation_series"
  unfolding operation_series_def set_map by (rule image_eqI [of _ _ "(n, opn)"]) auto

lemma failure_series_mem: "(''provider_failures_total'', [(''category'', category_text c)]) \<in> set failure_series"
  unfolding failure_series_def set_map by (rule image_eqI [of _ _ c]) (cases c; simp)+

lemma plain_series_mem:
  "(''provider_requests_total'', []) \<in> set plain_series" "(''provider_timeouts_total'', []) \<in> set plain_series"
  "(''provider_retries_total'', []) \<in> set plain_series" "(''circuit_open_total'', []) \<in> set plain_series"
  "(''cache_hit_total'', []) \<in> set plain_series" "(''cache_miss_total'', []) \<in> set plain_series"
  "(''rate_limit_rejected_total'', []) \<in> set plain_series"
  by (simp_all add: plain_series_def)

lemma set_metric_series: "set metric_series = set http_series \<union> set error_series \<union> set plain_series \<union>
    set failure_series \<union> set operation_series"
  by (auto simp: metric_series_def)

lemma increments_in_series:
  assumes "event_ok ev" "x \<in> set (increments_of ev)"
  shows "x \<in> set metric_series"
proof (cases ev)
  case (Record_Http meth route status seconds)
  obtain c where c: "c \<in> set status_classes" "status_class (safe_status status) = js_decimal c @ ''xx''"
    using status_class_in by blast
  have "safe_status status \<in> set http_statuses" using safe_status_range by (simp add: set_http_statuses)
  then show ?thesis
    using assms(2) Record_Http c http_series_mem [OF safe_method_in safe_route_in]
      error_series_mem [OF safe_route_in c(1)]
    by (auto simp: increments_of_def set_metric_series split: if_splits)
next
  case (Provider_Failure c)
  with assms(2) failure_series_mem [of c] show ?thesis by (simp add: increments_of_def set_metric_series)
qed (use assms plain_series_mem operation_series_mem in \<open>auto simp: increments_of_def set_metric_series\<close>)

definition series_ok :: "(string \<Rightarrow> string \<Rightarrow> int) \<Rightarrow> application_metrics \<Rightarrow> bool" where
  "series_ok lc m \<longleftrightarrow>
     js_map_ok (counters m) \<and> js_map_ok (http_durations m) \<and>
     fst ` set (counters m) \<subseteq> (\<lambda>(n, ls). counter_key lc n ls) ` set metric_series \<and>
     fst ` set (http_durations m) \<subseteq> label_key lc ` set histogram_series"

lemma set_js_set: "fst ` set (js_set k v m) = insert k (fst ` set m)"
proof -
  have "dom (map_of (js_set k v m)) = insert k (dom (map_of m))"
    by (simp only: js_set_def update_conv' dom_fun_upd) simp
  then show ?thesis by (simp only: dom_map_of_conv_image_fst)
qed

lemma increment_series_ok:
  assumes "series_ok lc m" "(n, ls) \<in> set metric_series"
  shows "series_ok lc (increment lc n ls m)"
  using assms by (force simp: series_ok_def increment_def Let_def set_js_set split: option.splits)

lemma record_series_ok:
  assumes "series_ok lc m" "event_ok ev"
  shows "series_ok lc (record_event lc ev m)"
proof -
  have inc: "x \<in> set metric_series" if "x \<in> set (increments_of ev)" for x
    using increments_in_series [OF assms(2) that] .
  show ?thesis
  proof (cases ev)
    case (Record_Http meth route status seconds)
    let ?ls = "histogram_labels_of meth route status"
    obtain c where "c \<in> set status_classes" "status_class (safe_status status) = js_decimal c @ ''xx''"
      using status_class_in by blast
    then have "?ls \<in> set histogram_series"
      using histogram_series_mem [OF safe_method_in safe_route_in] by (simp add: histogram_labels_of_def)
    then have keyed: "series_ok lc (x\<lparr>http_durations := js_set (label_key lc ?ls) h (http_durations x)\<rparr>)"
      if "series_ok lc x" for x h
      using that by (auto simp: series_ok_def set_js_set)
    let ?http = "[(''method'', safe_method meth), (''route'', safe_route route), (''status'', js_decimal (safe_status status))]"
    let ?err = "[(''route'', safe_route route), (''class'', status_class (safe_status status))]"
    let ?m1 = "increment lc ''http_requests_total'' ?http m"
    have m1: "series_ok lc ?m1"
      by (rule increment_series_ok [OF assms(1) inc]) (simp add: Record_Http increments_of_def)
    have m2: "series_ok lc (if 400 \<le> safe_status status then increment lc ''http_errors_total'' ?err ?m1 else ?m1)"
    proof (cases "400 \<le> safe_status status")
      case True
      have "series_ok lc (increment lc ''http_errors_total'' ?err ?m1)"
        by (rule increment_series_ok [OF m1 inc]) (simp add: Record_Http increments_of_def True)
      with True show ?thesis by simp
    qed (use m1 in simp)
    show ?thesis
      unfolding Record_Http record_event_def metric_event.case record_http_def Let_def histogram_labels_of_def [symmetric]
      by (rule keyed [OF m2])
  qed (use assms inc in \<open>auto simp: record_event_def increments_of_def intro!: increment_series_ok\<close>)
qed

lemma events_series_ok:
  "list_all event_ok evs \<Longrightarrow> series_ok lc (record_events lc evs new_metrics)"
proof (induction evs rule: rev_induct)
  case Nil
  then show ?case by (simp add: record_events_def new_metrics_def series_ok_def)
next
  case (snoc ev evs)
  then show ?case by (simp add: record_series_ok)
qed

lemma distinct_length_image:
  assumes "distinct ks" "set ks \<subseteq> f ` set xs"
  shows "length ks \<le> length xs"
proof -
  have "length ks = card (set ks)" using assms(1) by (simp add: distinct_card)
  also have "\<dots> \<le> card (f ` set xs)" using assms(2) by (intro card_mono) auto
  also have "\<dots> \<le> card (set xs)" by (rule card_image_le) simp
  also have "\<dots> \<le> length xs" by (rule card_length)
  finally show ?thesis .
qed

lemma length_metric_series: "length metric_series = 28067"
  by (simp add: metric_series_def http_series_def error_series_def plain_series_def failure_series_def
      operation_series_def length_product allowed_http_routes_def safe_methods_def allowed_http_methods_def
      operation_texts_def length_statuses)

lemma length_histogram_series: "length histogram_series = 280"
  by (simp add: histogram_series_def length_product allowed_http_routes_def safe_methods_def allowed_http_methods_def
      length_statuses)

section \<open>Properties\<close>



text \<open>
  No request can make the metrics grow without bound: whatever methods, paths, statuses and
  durations arrive, there are at most 28067 counters and 280 histograms.
\<close>
theorem metrics_bounded:
  assumes "list_all event_ok evs"
  shows "length (counters (record_events lc evs new_metrics)) \<le> 28067 \<and>
    length (http_durations (record_events lc evs new_metrics)) \<le> 280"
proof -
  note ok = events_series_ok [OF assms, of lc]
  then have "length (map fst (counters (record_events lc evs new_metrics))) \<le> length metric_series"
    unfolding series_ok_def js_map_ok_def
    by (intro distinct_length_image [of _ "\<lambda>(n, ls). counter_key lc n ls"]) auto
  moreover from ok have "length (map fst (http_durations (record_events lc evs new_metrics))) \<le> length histogram_series"
    unfolding series_ok_def js_map_ok_def
    by (intro distinct_length_image [of _ "label_key lc"]) auto
  ultimately show ?thesis by (simp add: length_metric_series length_histogram_series)
qed

theorem metrics_bounded_witness:
  "length (counters (record_events (\<lambda>_ _. 0) [Record_Http ''BREW'' ''/pot/1'' (js_int 418) NaN] new_metrics)) \<le> 28067"
  using metrics_bounded [of "[Record_Http ''BREW'' ''/pot/1'' (js_int 418) NaN]" "\<lambda>_ _. 0"] by simp

end
