(* ===== verification/Logger.thy ===== *)
theory Logger
  imports Json_Parse Metrics Queries
begin

text \<open>
  \<^verbatim>\<open>src/src/http/security/log-redaction.ts\<close>, \<^verbatim>\<open>src/src/infrastructure/observability/logger.ts\<close> and
  the adapters of \<^verbatim>\<open>src/src/infrastructure/observability/observed-adapters.ts\<close>.  A component that
  counts and logs returns the list of its \<open>effect\<close>s; the request identifier of
  \<^verbatim>\<open>src/src/infrastructure/observability/request-context.ts\<close> is an argument.
\<close>

section \<open>Redaction\<close>

fun contains_text :: "string \<Rightarrow> string \<Rightarrow> bool" where
  "contains_text p [] = (p = [])"
| "contains_text p (c # s) = (starts_with p (c # s) \<or> contains_text p s)"

text \<open>The alternatives of the regular expression, its optional separators written out.\<close>

definition sensitive_patterns :: "string list" where
  "sensitive_patterns =
     [''authorization'', ''apikey'', ''api-key'', ''api_key'', ''secret'', ''password'', ''credential'',
      ''databaseurl'', ''database-url'', ''database_url'', ''redisurl'', ''redis-url'', ''redis_url'',
      ''idempotencykey'', ''idempotency-key'', ''idempotency_key'', ''body'', ''payload'']"

definition sensitive_field :: "string \<Rightarrow> bool" where
  "sensitive_field key \<longleftrightarrow> list_ex (\<lambda>p. contains_text p (to_lower key)) sensitive_patterns"

definition redacted :: json where
  "redacted = JString ''[REDACTED]''"

fun redact :: "nat \<Rightarrow> json \<Rightarrow> json" where
  "redact depth (JArray vs) = (if depth > 5 then JArray vs else JArray (map (redact (depth + 1)) vs))"
| "redact depth (JObject ms) =
     (if depth > 5 then JObject ms
      else JObject (map (\<lambda>(k, v). (k, if sensitive_field k then redacted else redact (depth + 1) v)) ms))"
| "redact depth v = v"

definition redact_sensitive_log_fields :: "json \<Rightarrow> json" where
  "redact_sensitive_log_fields v = redact 0 v"

text \<open>A member with a sensitive name that still shows its value, in an object \<open>n\<close> levels down.\<close>

fun shows_secret :: "nat \<Rightarrow> json \<Rightarrow> bool" where
  "shows_secret n (JArray vs) = (case n of 0 \<Rightarrow> False | Suc m \<Rightarrow> list_ex (shows_secret m) vs)"
| "shows_secret n (JObject ms) =
     (case n of
        0 \<Rightarrow> list_ex (\<lambda>(k, v). sensitive_field k \<and> v \<noteq> redacted) ms
      | Suc m \<Rightarrow> list_ex (\<lambda>(k, v). shows_secret m v) ms)"
| "shows_secret n _ = False"

lemma shows_secret_redacted [simp]: "\<not> shows_secret n redacted"
  by (simp add: redacted_def)

lemma redact_hides: "n + depth \<le> 5 \<Longrightarrow> \<not> shows_secret n (redact depth v)"
proof (induction n arbitrary: depth v)
  case 0
  then show ?case by (cases v) (auto simp: list_ex_iff)
next
  case (Suc n)
  then have "n + (depth + 1) \<le> 5" "\<not> depth > 5" by simp_all
  with Suc.IH show ?case by (cases v) (auto simp: list_ex_iff split: if_split_asm)
qed

text \<open>Names stay, so a redacted record has the keys it had.\<close>

lemma redact_keys: "redact d (JObject ms) = JObject ms' \<Longrightarrow> map fst ms' = map fst ms"
  by (auto split: if_splits simp: comp_def case_prod_beta)

section \<open>The logger\<close>

datatype log_level = Log_Info | Log_Warn | Log_Error

fun level_text :: "log_level \<Rightarrow> string" where
  "level_text Log_Info = ''info''"
| "level_text Log_Warn = ''warn''"
| "level_text Log_Error = ''error''"

text \<open>\<open>None\<close> is \<open>undefined\<close>.\<close>

type_synonym log_fields = "(string \<times> json option) list"

definition allowed_fields :: "string list" where
  "allowed_fields =
     [''requestId'', ''method'', ''route'', ''status'', ''durationMs'', ''errorCode'', ''operation'', ''attempt'',
      ''delayMs'', ''activeRequests'', ''gracePeriodMs'', ''signal'', ''state'']"

fun safe_fields :: "log_fields \<Rightarrow> (string \<times> json) list" where
  "safe_fields [] = []"
| "safe_fields ((name, v) # fs) =
     (case v of
        Some x \<Rightarrow> if name \<in> set allowed_fields then (name, x) # safe_fields fs else safe_fields fs
      | None \<Rightarrow> safe_fields fs)"

definition log_entry :: "string \<Rightarrow> log_level \<Rightarrow> string \<Rightarrow> log_fields \<Rightarrow> json" where
  "log_entry timestamp level event fs =
     redact_sensitive_log_fields
       (JObject ([(''timestamp'', JString timestamp), (''level'', JString (level_text level)), (''event'', JString event)] @
         safe_fields fs))"

definition log_line :: "(js_number \<Rightarrow> string) \<Rightarrow> string \<Rightarrow> log_level \<Rightarrow> string \<Rightarrow> log_fields \<Rightarrow> string" where
  "log_line sn timestamp level event fs = json_stringify sn (log_entry timestamp level event fs)"

text \<open>An effect of a component: a metric, or a log entry.\<close>

datatype effect = Metric metric_event | Log log_level string log_fields

definition request_field :: "string option \<Rightarrow> string \<times> json option" where
  "request_field rid = (''requestId'', map_option JString rid)"

lemma safe_fields_allowed: "(k, v) \<in> set (safe_fields fs) \<Longrightarrow> k \<in> set allowed_fields"
  by (induction fs rule: safe_fields.induct) (auto split: option.splits if_splits)

text \<open>A JSON text has no control characters.\<close>

definition plain_text :: "string \<Rightarrow> bool" where
  "plain_text s \<longleftrightarrow> (\<forall>c \<in> set s. 32 \<le> code c)"

lemma plain_text_simps [simp]:
  "plain_text []" "plain_text (c # s) \<longleftrightarrow> 32 \<le> code c \<and> plain_text s" "plain_text (s @ t) \<longleftrightarrow> plain_text s \<and> plain_text t"
  by (auto simp: plain_text_def)

lemma code_hex_digit: "d < 16 \<Longrightarrow> 32 \<le> code (hex_digit d)"
  by (simp add: hex_digit_def)

lemma plain_escape_char: "plain_text (json_escape_char c)"
proof -
  have "code c div 16 < 16" using less_mult_imp_div_less [of "code c" 16 16] code_less [of c] by simp
  then have "32 \<le> code (hex_digit (code c div 16))" "32 \<le> code (hex_digit (code c mod 16))"
    by (simp_all add: code_hex_digit)
  then show ?thesis by (auto simp: json_escape_char_def letter_codes)
qed

lemma plain_quote: "plain_text (json_quote s)"
proof -
  have "plain_text (json_escape s)" by (induction s) (simp_all add: json_escape_def plain_escape_char)
  then show ?thesis by (simp add: json_quote_def)
qed

lemma plain_join: "plain_text sep \<Longrightarrow> \<forall>s \<in> set ss. plain_text s \<Longrightarrow> plain_text (js_join sep ss)"
  by (induction sep ss rule: js_join.induct) auto

lemma plain_decimal: "plain_text (js_decimal n)"
  using js_decimal_chars [of _ n] by (force simp: plain_text_def is_digit_code code_def)

lemma plain_stringify_all:
  "(\<forall>x. plain_text (sn x)) \<longrightarrow> plain_text (json_stringify sn v)"
  "(\<forall>x. plain_text (sn x)) \<longrightarrow> (\<forall>s \<in> set (json_members sn ms). plain_text s)"
  "(\<forall>x. plain_text (sn x)) \<longrightarrow> (\<forall>s \<in> set (json_items sn vs). plain_text s)"
proof (induction sn v and sn ms and sn vs rule: json_stringify_json_members_json_items.induct)
  case (3 sn x)
  then show ?case using plain_decimal by (simp add: number_text_def) (simp add: code_def)
next
  case (5 sn vs)
  then show ?case by (auto intro!: plain_join) (simp_all add: code_def)
next
  case (6 sn ms)
  then show ?case by (auto intro!: plain_join) (simp_all add: code_def)
next
  case (8 sn k v ms)
  then show ?case by (auto simp: plain_quote) (simp_all add: code_def)
qed (auto simp: plain_quote code_def)

lemma plain_stringify: "(\<And>x. plain_text (sn x)) \<Longrightarrow> plain_text (json_stringify sn v)"
  using plain_stringify_all(1) by blast

section \<open>Observed adapters\<close>

text \<open>
  The effects made so far are part of the state, so that those of the cache inside come before
  those of its observer.
\<close>

definition observed_get :: "('c \<times> effect list) transaction_cache \<Rightarrow> string option \<Rightarrow> string \<Rightarrow> 'c \<times> effect list \<Rightarrow>
    transaction option result \<times> 'c \<times> effect list" where
  "observed_get C rid i st =
     (case cache_get C i st of
        (Inr None, c, es) \<Rightarrow> (Inr None, c, es @ [Metric Cache_Miss, Log Log_Info ''cache.miss'' [request_field rid]])
      | (Inr (Some t), c, es) \<Rightarrow> (Inr (Some t), c, es @ [Metric Cache_Hit, Log Log_Info ''cache.hit'' [request_field rid]])
      | (Inl e, c, es) \<Rightarrow> (Inl e, c, es @ [Metric (Cache_Error ''get''),
          Log Log_Warn ''cache.error'' [request_field rid, (''operation'', Some (JString ''get''))]]))"

definition observed_set :: "('c \<times> effect list) transaction_cache \<Rightarrow> string option \<Rightarrow> transaction \<Rightarrow> 'c \<times> effect list \<Rightarrow>
    unit result \<times> 'c \<times> effect list" where
  "observed_set C rid t st =
     (case cache_set C t st of
        (Inr u, c, es) \<Rightarrow> (Inr u, c, es)
      | (Inl e, c, es) \<Rightarrow> (Inl e, c, es @ [Metric (Cache_Error ''set''),
          Log Log_Warn ''cache.error'' [request_field rid, (''operation'', Some (JString ''set''))]]))"

definition observed_transaction_cache :: "('c \<times> effect list) transaction_cache \<Rightarrow> string option \<Rightarrow>
    ('c \<times> effect list) transaction_cache" where
  "observed_transaction_cache C rid = \<lparr>cache_get = observed_get C rid, cache_set = observed_set C rid\<rparr>"

definition observed_consume :: "('r \<times> effect list \<Rightarrow> rate_limit_result \<times> 'r \<times> effect list) \<Rightarrow> 'r \<times> effect list \<Rightarrow>
    rate_limit_result \<times> 'r \<times> effect list" where
  "observed_consume consume st =
     (case consume st of (a, r, es) \<Rightarrow> (a, r, if \<not> allowed a then es @ [Metric Rate_Limit_Rejected] else es))"

text \<open>Watching a cache keeps its contract; what it holds does not depend on the effects.\<close>

locale watched_cache = inner: read_cache C "\<lambda>st. cinv (fst st)" "\<lambda>st. holds (fst st)" storable
  for C :: "('c \<times> effect list) transaction_cache" and cinv :: "'c \<Rightarrow> bool"
    and holds :: "'c \<Rightarrow> string \<Rightarrow> transaction option" and storable :: "transaction \<Rightarrow> bool"
begin

lemma observed_get_law:
  assumes "cinv (fst st)" "cache_get (observed_transaction_cache C rid) i st = (r, st')"
  shows "cinv (fst st') \<and> (\<forall>t. r = Inr (Some t) \<longrightarrow> holds (fst st) i = Some t) \<and>
    (\<forall>j u. holds (fst st') j = Some u \<longrightarrow> holds (fst st) j = Some u)"
proof -
  obtain a c es where g: "cache_get C i st = (a, c, es)" by (cases "cache_get C i st") fastforce
  from inner.get_law [OF assms(1) g] assms(2) g show ?thesis
    by (auto simp: observed_transaction_cache_def observed_get_def split: sum.splits option.splits)
qed

lemma observed_set_law:
  assumes "cinv (fst st)" "storable t" "cache_set (observed_transaction_cache C rid) t st = (r, st')"
  shows "cinv (fst st') \<and>
    (\<forall>j u. holds (fst st') j = Some u \<longrightarrow> holds (fst st) j = Some u \<or> j = transaction_id t \<and> u = t)"
proof -
  obtain a c es where g: "cache_set C t st = (a, c, es)" by (cases "cache_set C t st") fastforce
  from assms(3) g have "fst st' = c"
    by (auto simp: observed_transaction_cache_def observed_set_def split: sum.splits)
  with inner.set_law [OF assms(1,2) g] show ?thesis by simp
qed

end

sublocale watched_cache \<subseteq> observed: read_cache "observed_transaction_cache C rid" "\<lambda>st. cinv (fst st)"
  "\<lambda>st. holds (fst st)" storable for rid
  by unfold_locales (rule observed_get_law observed_set_law; assumption)+

section \<open>Properties\<close>

text \<open>
  C23: every log entry is one line, whatever the values logged (a request identifier, an error
  code): it has no control character, and at the top it has only the three fixed members and the
  allowed ones; no member with a sensitive name shows its value down to five levels of nesting.
\<close>
theorem log_line_safe:
  assumes "\<And>x. plain_text (sn x)"
  shows "plain_text (log_line sn timestamp level event fs) \<and>
    (\<exists>ms. log_entry timestamp level event fs = JObject ms \<and>
      set (map fst ms) \<subseteq> {''timestamp'', ''level'', ''event''} \<union> set allowed_fields) \<and>
    (n \<le> 5 \<longrightarrow> \<not> shows_secret n (log_entry timestamp level event fs))"
proof -
  obtain ms where ms: "log_entry timestamp level event fs = JObject ms"
    by (simp add: log_entry_def redact_sensitive_log_fields_def)
  then have "map fst ms = [''timestamp'', ''level'', ''event''] @ map fst (safe_fields fs)"
    unfolding log_entry_def redact_sensitive_log_fields_def using redact_keys by fastforce
  then have "set (map fst ms) \<subseteq> {''timestamp'', ''level'', ''event''} \<union> set allowed_fields"
    using safe_fields_allowed by fastforce
  moreover have "\<not> shows_secret n (log_entry timestamp level event fs)" if "n \<le> 5"
    unfolding log_entry_def redact_sensitive_log_fields_def using that by (intro redact_hides) simp
  moreover have "plain_text (log_line sn timestamp level event fs)"
    unfolding log_line_def using assms by (rule plain_stringify)
  ultimately show ?thesis using ms by blast
qed

theorem log_line_safe_witness:
  "\<not> shows_secret 1 (log_entry [] Log_Warn ''x'' [(''state'', Some (JObject [(''apiKey'', JString ''s3cret'')]))])"
  using log_line_safe [of "\<lambda>_. []" "[]" Log_Warn "''x''" "[(''state'', Some (JObject [(''apiKey'', JString ''s3cret'')]))]" 1]
  by simp

text \<open>
  Redaction stops below depth five: a password six objects down is written out.
\<close>
theorem redaction_stops:
  "shows_secret 6 (redact_sensitive_log_fields
     (JObject [(''a'', JObject [(''b'', JObject [(''c'', JObject [(''d'', JObject [(''e'',
        JObject [(''f'', JObject [(''password'', JString ''s3cret'')])])])])])])]))"
  by code_simp

end
