(* ===== verification/Http_Provider.thy ===== *)
theory Http_Provider
  imports Domain Failure_Policy Json_Parse Metrics Create_Transaction
begin

text \<open>
  \<^verbatim>\<open>src/src/infrastructure/providers/http-payment-provider.ts\<close>: the request it sends, the
  validation of the response, and the error each outcome is turned into, with the metrics events
  and the life of the timer.  What the fetch does is an input: it rejects, or it resolves to a
  response whose \<open>json()\<close> in turn rejects or yields a value.
\<close>

section \<open>The request\<close>

record http_request =
  request_url :: string
  request_method :: string
  request_headers :: "(string \<times> string) list"
  request_body :: string

definition transaction_json :: "transaction_input \<Rightarrow> json" where
  "transaction_json t = JObject
     [(''amount'', JInt (amount t)), (''currency'', JString (currency t)), (''description'', JString (description t))]"

definition provider_request :: "(js_number \<Rightarrow> string) \<Rightarrow> string \<Rightarrow> string option \<Rightarrow> transaction_input \<Rightarrow> string \<Rightarrow> http_request" where
  "provider_request sn url request_id t key =
     \<lparr>request_url = url, request_method = ''POST'',
      request_headers = [(''Content-Type'', ''application/json''), (''Idempotency-Key'', key)] @
        (case request_id of None \<Rightarrow> [] | Some r \<Rightarrow> [(''X-Request-Id'', r)]),
      request_body = json_stringify sn (transaction_json t)\<rparr>"

section \<open>The response\<close>

record provider_response =
  response_status :: int
  response_json :: "json result"

definition response_ok :: "provider_response \<Rightarrow> bool" where
  "response_ok r \<longleftrightarrow> 200 \<le> response_status r \<and> response_status r \<le> 299"

text \<open>The strict schema: exactly a non-empty \<open>providerTransactionId\<close> and the decision \<open>approved\<close>.\<close>

definition provider_response_schema :: "json \<Rightarrow> provider_result option" where
  "provider_response_schema v =
     (case v of
        JObject ms \<Rightarrow>
          (if \<not> list_all (\<lambda>(k, _). k = ''providerTransactionId'' \<or> k = ''decision'') ms then None
           else (case (js_get ms ''providerTransactionId'', js_get ms ''decision'') of
                   (Some (JString i), Some (JString d)) \<Rightarrow>
                     if 1 \<le> length i \<and> d = ''approved''
                     then Some \<lparr>result_provider_transaction_id = i, decision = Approved\<rparr> else None
                 | _ \<Rightarrow> None))
      | _ \<Rightarrow> None)"

text \<open>The body of the \<open>try\<close>.\<close>

definition interpret_response :: "provider_response \<Rightarrow> provider_result result" where
  "interpret_response r =
     (if response_status r = 429 then Inl Provider_Rate_Limited_Error
      else if response_status r \<ge> 500 then Inl (Provider_Server_Error (response_status r))
      else if \<not> response_ok r then Inl (Provider_Rejected_Error (Some (response_status r)))
      else (case response_json r of
              Inl _ \<Rightarrow> Inl Provider_Invalid_Response_Error
            | Inr body \<Rightarrow>
                (case provider_response_schema body of
                   None \<Rightarrow> Inl Provider_Invalid_Response_Error
                 | Some p \<Rightarrow> Inr p)))"

fun provider_failure_category :: "error \<Rightarrow> failure_category" where
  "provider_failure_category Provider_Rate_Limited_Error = Rate_Limited"
| "provider_failure_category (Provider_Rejected_Error _) = Rejected"
| "provider_failure_category (Provider_Server_Error _) = Server"
| "provider_failure_category Provider_Invalid_Response_Error = Invalid_Response"
| "provider_failure_category _ = Unknown"

fun thrown_here :: "error \<Rightarrow> bool" where
  "thrown_here Provider_Invalid_Response_Error = True"
| "thrown_here Provider_Rate_Limited_Error = True"
| "thrown_here (Provider_Rejected_Error _) = True"
| "thrown_here (Provider_Server_Error _) = True"
| "thrown_here _ = False"

text \<open>The \<open>catch\<close>: what is thrown on, and the events.\<close>

definition rethrown :: "error \<Rightarrow> error \<times> metric_event list" where
  "rethrown e =
     (if thrown_here e then (e, [Provider_Failure (provider_failure_category e)])
      else if e = Abort_Error then (Provider_Timeout_Error, [Metrics.Provider_Timeout, Provider_Failure Timeout])
      else (Provider_Network_Error, [Provider_Failure Network]))"

datatype timer_event = Timer_Set int | Timer_Cancelled

definition new_http_payment_provider :: "js_number \<Rightarrow> unit result" where
  "new_http_payment_provider timeout_ms =
     (if \<not> is_safe_integer timeout_ms \<or> js_less timeout_ms (js_int 1)
      then Inl (Plain_Error ''Provider timeout must be a positive safe integer'') else Inr ())"

text \<open>One call, from \<open>process\<close> to its end: the request goes to \<open>fetch\<close> once.\<close>

definition http_process :: "(js_number \<Rightarrow> string) \<Rightarrow> string \<Rightarrow> int \<Rightarrow> (http_request \<Rightarrow> provider_response result) \<Rightarrow> string option \<Rightarrow>
    transaction_input \<Rightarrow> string \<Rightarrow> provider_result result \<times> metric_event list \<times> timer_event list" where
  "http_process sn url timeout_ms fetch request_id t key =
     (case r_bind (fetch (provider_request sn url request_id t key)) interpret_response of
        Inr p \<Rightarrow> (Inr p, [Provider_Attempt], [Timer_Set timeout_ms, Timer_Cancelled])
      | Inl e \<Rightarrow> (Inl (fst (rethrown e)), Provider_Attempt # snd (rethrown e), [Timer_Set timeout_ms, Timer_Cancelled]))"

section \<open>Properties\<close>

text \<open>Errors a fetch itself may reject with: none of the provider's own.\<close>

definition fetch_error :: "error \<Rightarrow> bool" where
  "fetch_error e \<longleftrightarrow> \<not> thrown_here e"

lemma interpret_response_errors:
  "interpret_response r = Inl e \<Longrightarrow> thrown_here e"
  by (auto simp: interpret_response_def split: if_splits sum.splits option.splits)


definition approved_response :: provider_response where
  "approved_response = \<lparr>response_status = 200, response_json = Inr (JObject
     [(''providerTransactionId'', JString ''p1''), (''decision'', JString ''approved'')])\<rparr>"

definition demo_call :: "(http_request \<Rightarrow> provider_response result) \<Rightarrow> provider_result result \<times> metric_event list \<times> timer_event list" where
  "demo_call fetch = http_process (\<lambda>_. []) ''http://provider'' 3000 fetch None
     \<lparr>amount = 100, currency = ''BRL'', description = ''x''\<rparr> ''k1''"


text \<open>
  A timeout that strikes while the body is being read is not reported as one: the inner
  handler turns every rejection of \<open>json()\<close>, the abort included, into an invalid response, which
  is not retried and counts under another category, although the same abort a moment earlier is
  a retryable timeout.
\<close>
theorem timeout_while_reading:
  "http_process sn url timeout_ms (\<lambda>_. Inr \<lparr>response_status = 200, response_json = Inl Abort_Error\<rparr>) request_id t key =
     (Inl Provider_Invalid_Response_Error, [Provider_Attempt, Provider_Failure Invalid_Response],
      [Timer_Set timeout_ms, Timer_Cancelled]) \<and>
   \<not> retryable (classify_provider_failure Provider_Invalid_Response_Error) \<and>
   fst (http_process sn url timeout_ms (\<lambda>_. Inl Abort_Error) request_id t key) = Inl Provider_Timeout_Error \<and>
   retryable (classify_provider_failure Provider_Timeout_Error)"
  by (simp add: http_process_def interpret_response_def response_ok_def rethrown_def)

end
