(* ===== verification/Resilient_Provider.thy ===== *)
theory Resilient_Provider
  imports Circuit_Breaker Retry_Policy Logger
begin

text \<open>
  \<^verbatim>\<open>src/src/infrastructure/providers/resilient-payment-provider.ts\<close>: one permit of the circuit
  breaker per call of \<open>process\<close>, a loop of attempts with a delay between them, one report to
  the breaker at the end.  \<open>process\<close> gives up control at two places, while the inner provider
  works and while it sleeps, so its code is cut there into phases: \<open>begin_process\<close>,
  \<open>attempt_ended\<close> and \<open>woken\<close>.  \<open>resilient_process\<close> runs one call of \<open>process\<close> from phase to
  phase; \<open>resilient_step\<close> interleaves the phases of any number of calls on one breaker.
\<close>

section \<open>The phases\<close>

datatype resilient_phase =
    Attempting circuit_permit nat
  | Sleeping circuit_permit nat js_number
  | Settled "provider_result result"

datatype breaker_report = Report_Success | Report_Failure | Report_Non_Failure

datatype resilient_event =
    Called transaction_input string int
  | Slept js_number
  | Reported breaker_report circuit_permit
  | Effect effect

text \<open>
  What the surroundings do at one attempt: how the inner provider answers and after how many
  milliseconds, the readings of the clocks, the random number, how the sleep ends, and what
  other callers do to the breaker meanwhile.
\<close>

record attempt_env =
  inner_answer :: "provider_result result"
  call_ms :: int
  started_at :: js_number
  timeout_logged_at :: js_number
  logged_at :: js_number
  breaker_clock :: int
  random_next :: js_number
  sleep_result :: "unit result"
  during_call :: "circuit_breaker \<Rightarrow> circuit_breaker"
  during_sleep :: "circuit_breaker \<Rightarrow> circuit_breaker"

definition duration_ms :: "js_number \<Rightarrow> attempt_env \<Rightarrow> string \<times> json option" where
  "duration_ms reading env = (''durationMs'', Some (JNumber (math_max (js_int 0) (js_sub reading (started_at env)))))"

definition attempt_log :: "log_level \<Rightarrow> string \<Rightarrow> string option \<Rightarrow> nat \<Rightarrow> log_fields \<Rightarrow> resilient_event" where
  "attempt_log level event request_id attempt fs =
     Effect (Log level event (request_field request_id # (''attempt'', Some (JInt (int attempt))) # fs))"

text \<open>The loop condition.\<close>

definition next_attempt :: "retry_policy_config \<Rightarrow> circuit_permit \<Rightarrow> nat \<Rightarrow> resilient_phase" where
  "next_attempt config permit attempt =
     (if js_less (js_int (int attempt)) (max_attempts config) \<or> js_int (int attempt) = max_attempts config
      then Attempting permit attempt
      else Settled (Inl (Plain_Error ''Retry policy completed without a result'')))"

definition begin_process :: "retry_policy_config \<Rightarrow> string option \<Rightarrow> int \<Rightarrow> circuit_breaker \<Rightarrow>
    resilient_phase \<times> resilient_event list \<times> circuit_breaker" where
  "begin_process config request_id now b =
     (case acquire now b of
        (None, b') \<Rightarrow>
          (Settled (Inl Provider_Circuit_Open_Error),
           [Effect (Log Log_Warn ''provider.circuit_rejected'' [request_field request_id])], b')
      | (Some permit, b') \<Rightarrow> (next_attempt config permit 1, [], b'))"

fun apply_report :: "int \<Rightarrow> breaker_report \<Rightarrow> circuit_permit \<Rightarrow> circuit_breaker \<Rightarrow> circuit_breaker" where
  "apply_report now Report_Success permit b = record_success permit b"
| "apply_report now Report_Failure permit b = record_failure now permit b"
| "apply_report now Report_Non_Failure permit b = record_non_failure permit b"

definition failure_report :: "error \<Rightarrow> breaker_report" where
  "failure_report e =
     (if counts_toward_circuit_breaker (classify_provider_failure e) then Report_Failure else Report_Non_Failure)"

text \<open>The \<open>catch\<close> block; a \<open>delayAfter\<close> that throws leaves it, and the permit is never reported.\<close>

definition attempt_failed :: "retry_policy_config \<Rightarrow> string option \<Rightarrow> attempt_env \<Rightarrow> circuit_permit \<Rightarrow> nat \<Rightarrow> error \<Rightarrow> circuit_breaker \<Rightarrow>
    resilient_phase \<times> resilient_event list \<times> circuit_breaker" where
  "attempt_failed config request_id env permit attempt e b =
     (let timeout_log = (if e = Provider_Timeout_Error
            then [attempt_log Log_Warn ''provider.timeout'' request_id attempt [duration_ms (timeout_logged_at env) env]]
            else []) in
      if should_retry config e attempt
      then (case delay_after config (js_int (int attempt)) (random_next env) of
              Inl err \<Rightarrow> (Settled (Inl err), timeout_log, b)
            | Inr delay \<Rightarrow>
                (Sleeping permit attempt delay,
                 timeout_log @ [Effect (Metric Provider_Retry),
                   attempt_log Log_Warn ''provider.retry'' request_id attempt
                     [(''delayMs'', Some (JNumber delay)), duration_ms (logged_at env) env]], b))
      else (Settled (Inl e),
            timeout_log @ [Reported (failure_report e) permit,
              attempt_log Log_Warn ''provider.failure'' request_id attempt [duration_ms (logged_at env) env]],
            apply_report (breaker_clock env) (failure_report e) permit b))"

definition attempt_ended :: "retry_policy_config \<Rightarrow> string option \<Rightarrow> attempt_env \<Rightarrow> circuit_permit \<Rightarrow> nat \<Rightarrow> circuit_breaker \<Rightarrow>
    resilient_phase \<times> resilient_event list \<times> circuit_breaker" where
  "attempt_ended config request_id env permit attempt b =
     (case inner_answer env of
        Inr r \<Rightarrow>
          (Settled (Inr r),
           [Reported Report_Success permit,
            attempt_log Log_Info ''provider.request'' request_id attempt [duration_ms (logged_at env) env]],
           record_success permit b)
      | Inl e \<Rightarrow> attempt_failed config request_id env permit attempt e b)"

definition woken :: "retry_policy_config \<Rightarrow> unit result \<Rightarrow> circuit_permit \<Rightarrow> nat \<Rightarrow> resilient_phase" where
  "woken config slept permit attempt =
     (case slept of Inl e \<Rightarrow> Settled (Inl e) | Inr _ \<Rightarrow> next_attempt config permit (attempt + 1))"

section \<open>One call of \<open>process\<close>\<close>

text \<open>\<open>fuel\<close> bounds the number of phases; \<open>envs\<close> gives the surroundings of each attempt.\<close>

fun resilient_run :: "retry_policy_config \<Rightarrow> string option \<Rightarrow> (nat \<Rightarrow> attempt_env) \<Rightarrow> transaction_input \<Rightarrow> string \<Rightarrow> nat \<Rightarrow>
    resilient_phase \<Rightarrow> circuit_breaker \<Rightarrow> (provider_result result \<times> resilient_event list \<times> circuit_breaker) option" where
  "resilient_run config rid envs t key fuel (Settled a) b = Some (a, [], b)"
| "resilient_run config rid envs t key 0 (Attempting permit k) b = None"
| "resilient_run config rid envs t key 0 (Sleeping permit k delay) b = None"
| "resilient_run config rid envs t key (Suc fuel) (Attempting permit k) b =
     (case attempt_ended config rid (envs k) permit k (during_call (envs k) b) of
        (ph, evs, b') \<Rightarrow>
          map_option (\<lambda>(a, evs', b''). (a, Called t key (call_ms (envs k)) # evs @ evs', b''))
            (resilient_run config rid envs t key fuel ph b'))"
| "resilient_run config rid envs t key (Suc fuel) (Sleeping permit k delay) b =
     map_option (\<lambda>(a, evs, b'). (a, Slept delay # evs, b'))
       (resilient_run config rid envs t key fuel (woken config (sleep_result (envs k)) permit k) (during_sleep (envs k) b))"

definition resilient_process :: "retry_policy_config \<Rightarrow> string option \<Rightarrow> (nat \<Rightarrow> attempt_env) \<Rightarrow> int \<Rightarrow> transaction_input \<Rightarrow> string \<Rightarrow> nat \<Rightarrow>
    circuit_breaker \<Rightarrow> (provider_result result \<times> resilient_event list \<times> circuit_breaker) option" where
  "resilient_process config rid envs now t key fuel b =
     (case begin_process config rid now b of
        (ph, evs, b') \<Rightarrow>
          map_option (\<lambda>(a, evs', b''). (a, evs @ evs', b'')) (resilient_run config rid envs t key fuel ph b'))"

text \<open>What a trace shows.\<close>

fun call_of :: "resilient_event \<Rightarrow> (transaction_input \<times> string) list" where
  "call_of (Called t key ms) = [(t, key)]"
| "call_of _ = []"

fun delay_of :: "resilient_event \<Rightarrow> js_number list" where
  "delay_of (Slept d) = [d]"
| "delay_of _ = []"

fun report_of :: "resilient_event \<Rightarrow> (breaker_report \<times> circuit_permit) list" where
  "report_of (Reported r p) = [(r, p)]"
| "report_of _ = []"

fun time_of :: "resilient_event \<Rightarrow> int" where
  "time_of (Called t key ms) = ms"
| "time_of (Slept d) = integer_of d"
| "time_of _ = 0"

definition calls :: "resilient_event list \<Rightarrow> (transaction_input \<times> string) list" where
  "calls evs = concat (map call_of evs)"

definition delays :: "resilient_event list \<Rightarrow> js_number list" where
  "delays evs = concat (map delay_of evs)"

definition reports :: "resilient_event list \<Rightarrow> (breaker_report \<times> circuit_permit) list" where
  "reports evs = concat (map report_of evs)"

definition total_time :: "resilient_event list \<Rightarrow> int" where
  "total_time evs = sum_list (map time_of evs)"

lemma trace_simps [simp]:
  "calls [] = []" "calls (e # evs) = call_of e @ calls evs" "calls (evs @ evs') = calls evs @ calls evs'"
  "delays [] = []" "delays (e # evs) = delay_of e @ delays evs" "delays (evs @ evs') = delays evs @ delays evs'"
  "reports [] = []" "reports (e # evs) = report_of e @ reports evs" "reports (evs @ evs') = reports evs @ reports evs'"
  "total_time [] = 0" "total_time (e # evs) = time_of e + total_time evs"
  "total_time (evs @ evs') = total_time evs + total_time evs'"
  by (simp_all add: calls_def delays_def reports_def total_time_def)

section \<open>Every call returns\<close>

definition env_ok :: "int \<Rightarrow> attempt_env \<Rightarrow> bool" where
  "env_ok timeout env \<longleftrightarrow>
     (\<exists>r. random_next env = Num r \<and> 0 \<le> r \<and> r \<le> 1) \<and> sleep_result env = Inr () \<and> 0 \<le> call_ms env \<and> call_ms env \<le> timeout"

definition report_for :: "provider_result result \<Rightarrow> breaker_report" where
  "report_for a = (case a of Inr _ \<Rightarrow> Report_Success | Inl e \<Rightarrow> failure_report e)"

definition quiet :: "(nat \<Rightarrow> attempt_env) \<Rightarrow> bool" where
  "quiet envs \<longleftrightarrow> (\<forall>q. during_call (envs q) = id \<and> during_sleep (envs q) = id)"

text \<open>What a run from attempt \<open>k\<close> on has done when its answer is that of attempt \<open>i\<close>.\<close>

definition attempts_ok :: "(nat \<Rightarrow> attempt_env) \<Rightarrow> int \<Rightarrow> int \<Rightarrow> int \<Rightarrow> int \<Rightarrow> rat \<Rightarrow> circuit_permit \<Rightarrow> nat \<Rightarrow> nat \<Rightarrow>
    circuit_breaker \<Rightarrow> provider_result result \<Rightarrow> resilient_event list \<Rightarrow> circuit_breaker \<Rightarrow> bool" where
  "attempts_ok envs n tm b m j permit k i br a evs br' \<longleftrightarrow>
     k \<le> i \<and> int i \<le> n \<and> a = inner_answer (envs i) \<and>
     length (calls evs) = Suc (i - k) \<and> length (delays evs) = i - k \<and>
     (\<forall>d \<in> set (delays evs). \<exists>x. d = js_int x \<and> 0 \<le> x \<and> x \<le> m) \<and>
     total_time evs \<le> (n - int k + 1) * tm + (\<Sum>q\<leftarrow>[int k..n - 1]. worst_delay b m j q) \<and>
     (\<forall>q. k \<le> q \<and> q < i \<longrightarrow> (\<exists>e. inner_answer (envs q) = Inl e \<and> retryable (classify_provider_failure e))) \<and>
     (\<forall>e. a = Inl e \<longrightarrow> int i = n \<or> \<not> retryable (classify_provider_failure e)) \<and>
     reports evs = [(report_for a, permit)] \<and>
     (quiet envs \<longrightarrow> br' = apply_report (breaker_clock (envs i)) (report_for a) permit br)"

lemma should_retry_iff:
  "retry_config_ok config n tm b m j \<Longrightarrow>
    should_retry config e k \<longleftrightarrow> int k < n \<and> retryable (classify_provider_failure e)"
  by (auto simp: should_retry_def retry_config_ok_def)

lemma next_attempt_eq:
  "retry_config_ok config n tm b m j \<Longrightarrow> int k \<le> n \<Longrightarrow> next_attempt config permit k = Attempting permit k"
  by (auto simp: next_attempt_def retry_config_ok_def)

lemma attempt_log_trace [simp]:
  "calls [attempt_log l e r k fs] = []" "delays [attempt_log l e r k fs] = []"
  "reports [attempt_log l e r k fs] = []" "total_time [attempt_log l e r k fs] = 0"
  "call_of (attempt_log l e r k fs) = []" "delay_of (attempt_log l e r k fs) = []"
  "report_of (attempt_log l e r k fs) = []" "time_of (attempt_log l e r k fs) = 0"
  by (simp_all add: attempt_log_def)

text \<open>One attempt: it settles the call, or the next phase is a sleep and there is an attempt left.\<close>

lemma attempt_ended_cases:
  assumes ok: "retry_config_ok config n tm b m j" and k: "1 \<le> k" "int k \<le> n"
    and e: "attempt_ended config rid env permit k br = (ph, evs, br')"
  shows "calls evs = [] \<and> delays evs = [] \<and> total_time evs = 0 \<and>
    ((\<exists>a. ph = Settled a \<and> (env_ok tm env \<longrightarrow> a = inner_answer env \<and> reports evs = [(report_for a, permit)] \<and>
        br' = apply_report (breaker_clock env) (report_for a) permit br \<and>
        (\<forall>x. a = Inl x \<longrightarrow> int k = n \<or> \<not> retryable (classify_provider_failure x)))) \<or>
     (\<exists>d x. ph = Sleeping permit k d \<and> int k < n \<and> reports evs = [] \<and> br' = br \<and>
        inner_answer env = Inl x \<and> retryable (classify_provider_failure x) \<and>
        (env_ok tm env \<longrightarrow> (\<exists>i. d = js_int i \<and> 0 \<le> i \<and> i \<le> m \<and> i \<le> worst_delay b m j (int k)))))"
proof (cases "inner_answer env")
  case (Inr r)
  with e show ?thesis by (auto simp: attempt_ended_def report_for_def)
next
  case (Inl x)
  show ?thesis
  proof (cases "int k < n \<and> retryable (classify_provider_failure x)")
    case False
    with Inl e ok k show ?thesis
      by (auto simp: attempt_ended_def attempt_failed_def Let_def should_retry_iff report_for_def split: if_splits)
  next
    case True
    have f: "0 \<le> b" "b \<le> m" "m \<le> max_safe_integer" "0 \<le> j" "j \<le> 1" "n \<le> 10"
      using ok by (simp_all add: retry_config_ok_def)
    have d: "\<exists>i. delay_after config (js_int (int k)) (random_next env) = Inr (js_int i) \<and>
        0 \<le> i \<and> i \<le> m \<and> i \<le> worst_delay b m j (int k)" if "env_ok tm env"
    proof -
      from that obtain r where r: "random_next env = Num r" "0 \<le> r" "r \<le> 1" by (auto simp: env_ok_def)
      have "delay_after config (js_int (int k)) (Num r) = Inr (js_int (delay_int b m j (nat (int k - 1)) r))"
        using delay_after_eq [OF ok _ _ r(2,3), of "int k"] k f(6) by simp
      moreover have "nat (int k - 1) \<le> 9" using k f(6) by linarith
      ultimately show ?thesis
        using delay_int_bounds(2,3) [OF f(1-3) _ f(4,5) r(2,3)] delay_int_mono [OF f(1,4) r(2,3)] r(1)
        by (auto simp: worst_delay_def)
    qed
    with True Inl e ok show ?thesis
      by (auto simp: attempt_ended_def attempt_failed_def Let_def should_retry_iff split: if_splits sum.splits)
  qed
qed

lemma upto_Cons: "k \<le> n \<Longrightarrow> [k..n] = k # [k + 1..n :: int]"
  by (simp add: upto.simps)

lemma attempts_ok_settled:
  assumes "retry_config_ok config n tm b m j" "1 \<le> k" "int k \<le> n" "env_ok tm (envs k)"
    and "reports evs = [(report_for (inner_answer (envs k)), permit)]"
    and "\<forall>x. inner_answer (envs k) = Inl x \<longrightarrow> int k = n \<or> \<not> retryable (classify_provider_failure x)"
    and "calls evs = [(t, key)]" "delays evs = []" "total_time evs = call_ms (envs k)"
    and "br' = apply_report (breaker_clock (envs k)) (report_for (inner_answer (envs k))) permit (during_call (envs k) br)"
  shows "attempts_ok envs n tm b m j permit k k br (inner_answer (envs k)) evs br'"
proof -
  have "0 \<le> (\<Sum>q\<leftarrow>[int k..n - 1]. worst_delay b m j q)"
    using assms(1-3) by (intro sum_list_nonneg) (auto simp: retry_config_ok_def intro!: worst_delay_nonneg [OF assms(1)])
  moreover have "1 * tm \<le> (n - int k + 1) * tm"
    using assms(1,3) by (intro mult_right_mono) (auto simp: retry_config_ok_def)
  ultimately have "call_ms (envs k) \<le> (n - int k + 1) * tm + (\<Sum>q\<leftarrow>[int k..n - 1]. worst_delay b m j q)"
    using assms(4) unfolding env_ok_def by linarith
  with assms show ?thesis by (auto simp: attempts_ok_def quiet_def)
qed

lemma attempts_ok_retry:
  assumes rest: "attempts_ok envs n tm b m j permit (Suc k) i (during_sleep (envs k) (during_call (envs k) br)) a evs br'"
    and k: "int k < n" and x: "inner_answer (envs k) = Inl x" "retryable (classify_provider_failure x)"
    and env: "env_ok tm (envs k)" and d: "0 \<le> w" "w \<le> m" "w \<le> worst_delay b m j (int k)"
    and "calls evs0 = [(t, key)]" "delays evs0 = []" "reports evs0 = []" "total_time evs0 = call_ms (envs k)"
  shows "attempts_ok envs n tm b m j permit k i br a (evs0 @ Slept (js_int w) # evs) br'"
proof -
  have i: "Suc k \<le> i" using rest by (simp add: attempts_ok_def)
  then have len: "Suc (i - k) = Suc (Suc (i - Suc k))" by simp
  have "total_time evs \<le> (n - int (Suc k) + 1) * tm + (\<Sum>q\<leftarrow>[int k + 1..n - 1]. worst_delay b m j q)"
    using rest by (simp add: attempts_ok_def add.commute)
  then have tt: "call_ms (envs k) + (w + total_time evs) \<le> (n - int k + 1) * tm + (\<Sum>q\<leftarrow>[int k..n - 1]. worst_delay b m j q)"
    using env d(3) k by (simp add: env_ok_def upto_Cons algebra_simps)
  have ret: "\<exists>e. inner_answer (envs q) = Inl e \<and> retryable (classify_provider_failure e)" if "k \<le> q" "q < i" for q
    using rest x that by (cases "q = k") (auto simp: attempts_ok_def)
  have "quiet envs \<Longrightarrow> br' = apply_report (breaker_clock (envs i)) (report_for a) permit br"
    using rest by (simp add: attempts_ok_def quiet_def)
  with rest assms(9-12) tt ret d(1,2) i len show ?thesis unfolding attempts_ok_def by auto
qed

lemma resilient_run_returns:
  assumes ok: "retry_config_ok config n tm b m j"
  shows "1 \<le> k \<Longrightarrow> int k \<le> n \<Longrightarrow> 2 * nat (n - int k) + 1 \<le> fuel \<Longrightarrow>
    \<exists>a evs br'. resilient_run config rid envs t key fuel (Attempting permit k) br = Some (a, evs, br') \<and>
      length (calls evs) \<le> nat (n - int k) + 1 \<and> set (calls evs) \<subseteq> {(t, key)} \<and>
      ((\<forall>q. env_ok tm (envs q)) \<longrightarrow> (\<exists>i. attempts_ok envs n tm b m j permit k i br a evs br'))"
proof (induction "nat (n - int k)" arbitrary: k fuel br rule: less_induct)
  case less
  obtain f where f: "fuel = Suc f" using less.prems(3) by (cases fuel) auto
  obtain ph evs br' where e: "attempt_ended config rid (envs k) permit k (during_call (envs k) br) = (ph, evs, br')"
    by (metis prod_cases3)
  note c = attempt_ended_cases [OF ok less.prems(1,2) e]
  show ?case
  proof (cases ph)
    case (Settled a)
    with c e f show ?thesis
      by (auto simp del: split_paired_Ex intro!: exI [of _ k] attempts_ok_settled [OF ok less.prems(1,2)])
  next
    case (Attempting p q)
    with c show ?thesis by auto
  next
    case (Sleeping p q delay)
    with c obtain x where s: "ph = Sleeping permit k delay" "int k < n" "reports evs = []" "calls evs = []" "delays evs = []"
      "total_time evs = 0" "inner_answer (envs k) = Inl x" "retryable (classify_provider_failure x)"
      "br' = during_call (envs k) br"
      and d: "env_ok tm (envs k) \<longrightarrow> (\<exists>i. delay = js_int i \<and> 0 \<le> i \<and> i \<le> m \<and> i \<le> worst_delay b m j (int k))"
      by auto
    obtain g where g: "f = Suc g" using less.prems(3) s(2) f by (cases f) auto
    show ?thesis
    proof (cases "sleep_result (envs k)")
      case (Inl err)
      then have "\<not> env_ok tm (envs k)" by (simp add: env_ok_def)
      with Inl e f g s show ?thesis by (auto simp: woken_def)
    next
      case (Inr u)
      have nx: "woken config (sleep_result (envs k)) permit k = Attempting permit (Suc k)"
        using Inr next_attempt_eq [OF ok, of "Suc k"] s(2) by (simp add: woken_def)
      have "nat (n - int (Suc k)) < nat (n - int k)" "1 \<le> Suc k" "int (Suc k) \<le> n" "2 * nat (n - int (Suc k)) + 1 \<le> g"
        using s(2) less.prems(3) f g by auto
      from less.hyps [OF this, of "during_sleep (envs k) br'"] obtain a evs' br''
        where r: "resilient_run config rid envs t key g (Attempting permit (Suc k)) (during_sleep (envs k) br') = Some (a, evs', br'')"
          "length (calls evs') \<le> nat (n - int (Suc k)) + 1" "set (calls evs') \<subseteq> {(t, key)}"
          "(\<forall>q. env_ok tm (envs q)) \<longrightarrow> (\<exists>i. attempts_ok envs n tm b m j permit (Suc k) i (during_sleep (envs k) br') a evs' br'')" by blast
      let ?evs = "(Called t key (call_ms (envs k)) # evs) @ Slept delay # evs'"
      have run: "resilient_run config rid envs t key fuel (Attempting permit k) br = Some (a, ?evs, br'')"
        using e f g s(1) nx r(1) by simp
      have "\<exists>i. attempts_ok envs n tm b m j permit k i br a ?evs br''" if env: "\<forall>q. env_ok tm (envs q)"
      proof -
        from env d obtain w where w: "delay = js_int w" "0 \<le> w" "w \<le> m" "w \<le> worst_delay b m j (int k)" by auto
        from env r(4) obtain i where
          "attempts_ok envs n tm b m j permit (Suc k) i (during_sleep (envs k) br') a evs' br''" by blast
        then have i: "attempts_ok envs n tm b m j permit (Suc k) i (during_sleep (envs k) (during_call (envs k) br)) a evs' br''"
          by (simp only: s(9))
        have "attempts_ok envs n tm b m j permit k i br a ?evs br''"
          unfolding w(1) using env s by (intro attempts_ok_retry [OF i s(2,7,8) _ w(2-4)]) auto
        then show ?thesis ..
      qed
      with run r(2,3) s(2,4) show ?thesis by auto
    qed
  qed
qed

section \<open>Properties\<close>

text \<open>
  C25: every call of \<open>process\<close> returns, whatever the provider answers and however others use the
  breaker: two phases per attempt are enough fuel.  It calls the provider at most \<open>maxAttempts\<close>
  times, each time with the transaction and the idempotency key it was given.  When no attempt
  outlasts its timeout, all the calls and delays together take no longer than the retry window
  the start-up computed, and every delay is an integer of at most \<open>maxDelayMs\<close>.
\<close>
theorem resilient_process_returns:
  assumes "validate_retry_policy_config config = Inr ()"
  shows "\<exists>a evs b'. resilient_process config rid envs now t key (2 * nat (integer_of (max_attempts config))) b = Some (a, evs, b') \<and>
    int (length (calls evs)) \<le> integer_of (max_attempts config) \<and> set (calls evs) \<subseteq> {(t, key)} \<and>
    ((\<forall>q. env_ok (integer_of (attempt_timeout_ms config)) (envs q)) \<longrightarrow>
       total_time evs \<le> config_window config \<and> length (delays evs) = length (calls evs) - 1 \<and>
       (\<forall>d \<in> set (delays evs). \<exists>x. d = js_int x \<and> 0 \<le> x \<and> x \<le> integer_of (max_delay_ms config)))"
proof -
  obtain n tm b0 m j where ok: "retry_config_ok config n tm b0 m j"
    using validate_retry_policy_config_Inr [OF assms] .
  then have f: "integer_of (max_attempts config) = n" "integer_of (attempt_timeout_ms config) = tm"
    "integer_of (max_delay_ms config) = m" "1 \<le> n"
    by (simp_all add: retry_config_ok_def)
  obtain p b1 where a: "acquire now b = (p, b1)" by fastforce
  show ?thesis
  proof (cases p)
    case None
    have "0 \<le> config_window config"
      unfolding config_window_eq [OF ok] exact_window_def using ok
      by (intro add_nonneg_nonneg sum_list_nonneg) (auto simp: retry_config_ok_def intro!: worst_delay_nonneg [OF ok])
    with None a f show ?thesis by (simp add: resilient_process_def begin_process_def)
  next
    case (Some permit)
    have "2 * nat (n - int 1) + 1 \<le> 2 * nat n" "(1::nat) \<le> 1" "int 1 \<le> n" using f(4) by auto
    from resilient_run_returns [OF ok this(2,3,1), of rid envs t key permit b1] obtain r evs b'
      where r: "resilient_run config rid envs t key (2 * nat n) (Attempting permit 1) b1 = Some (r, evs, b')"
        "length (calls evs) \<le> nat (n - int 1) + 1" "set (calls evs) \<subseteq> {(t, key)}"
        "(\<forall>q. env_ok tm (envs q)) \<longrightarrow> (\<exists>i. attempts_ok envs n tm b0 m j permit 1 i b1 r evs b')" by blast
    have nx: "next_attempt config permit 1 = Attempting permit 1" using next_attempt_eq [OF ok, of 1] f(4) by simp
    have run: "resilient_process config rid envs now t key (2 * nat n) b = Some (r, evs, b')"
      using Some a r(1) nx by (simp add: resilient_process_def begin_process_def)
    have "total_time evs \<le> config_window config \<and> length (delays evs) = length (calls evs) - 1 \<and>
        (\<forall>d \<in> set (delays evs). \<exists>x. d = js_int x \<and> 0 \<le> x \<and> x \<le> m)" if "\<forall>q. env_ok tm (envs q)"
      using r(4) that unfolding attempts_ok_def config_window_eq [OF ok] exact_window_def by auto
    with run r(2,3) f show ?thesis by auto
  qed
qed

text \<open>A run that got a permit, in surroundings that keep their promises.\<close>

lemma resilient_process_run:
  assumes v: "validate_retry_policy_config config = Inr ()"
    and env: "\<forall>q. env_ok (integer_of (attempt_timeout_ms config)) (envs q)" and a: "acquire now b = (Some permit, b1)"
  obtains n tm b0 m j i r evs b' where "retry_config_ok config n tm b0 m j"
    "resilient_process config rid envs now t key (2 * nat (integer_of (max_attempts config))) b = Some (r, evs, b')"
    "attempts_ok envs n tm b0 m j permit 1 i b1 r evs b'"
proof -
  obtain n tm b0 m j where ok: "retry_config_ok config n tm b0 m j"
    using validate_retry_policy_config_Inr [OF v] .
  then have f: "integer_of (max_attempts config) = n" "integer_of (attempt_timeout_ms config) = tm" "1 \<le> n"
    by (simp_all add: retry_config_ok_def)
  have "2 * nat (n - int 1) + 1 \<le> 2 * nat n" "(1::nat) \<le> 1" "int 1 \<le> n" using f(3) by auto
  from resilient_run_returns [OF ok this(2,3,1), of rid envs t key permit b1] env f(2) obtain r evs b' i
    where r: "resilient_run config rid envs t key (2 * nat n) (Attempting permit 1) b1 = Some (r, evs, b')"
      "attempts_ok envs n tm b0 m j permit 1 i b1 r evs b'" by blast
  have "next_attempt config permit 1 = Attempting permit 1" using next_attempt_eq [OF ok, of 1] f(3) by simp
  with a r(1) f(1) have "resilient_process config rid envs now t key (2 * nat (integer_of (max_attempts config))) b = Some (r, evs, b')"
    by (simp add: resilient_process_def begin_process_def)
  from that [OF ok this r(2)] show thesis .
qed

definition demo_attempt :: "provider_result result \<Rightarrow> attempt_env" where
  "demo_attempt a = \<lparr>inner_answer = a, call_ms = 3000, started_at = js_int 0, timeout_logged_at = js_int 3000,
     logged_at = js_int 3000, breaker_clock = 0, random_next = Num (1 / 2), sleep_result = Inr (),
     during_call = id, during_sleep = id\<rparr>"

definition demo_approval :: provider_result where
  "demo_approval = \<lparr>result_provider_transaction_id = ''p1'', decision = Approved\<rparr>"

definition demo_envs :: "nat \<Rightarrow> attempt_env" where
  "demo_envs q = demo_attempt (if q = 1 then Inl Provider_Timeout_Error else Inr demo_approval)"

definition demo_request :: transaction_input where
  "demo_request = \<lparr>amount = 100, currency = ''BRL'', description = ''x''\<rparr>"

definition closed_breaker :: circuit_breaker where
  "closed_breaker = \<lparr>threshold = 3, open_ms = 10000, current_state = Closed, consecutive_failures = 2, opened_at_ms = 0,
     half_open_probe_in_flight = False, generation = 4, observed = []\<rparr>"

lemma demo_envs_ok: "\<forall>q. env_ok (integer_of (attempt_timeout_ms default_retry)) (demo_envs q)"
  by (auto simp: env_ok_def demo_envs_def demo_attempt_def default_retry_def intro: exI [of _ "1 / 2"])

lemma demo_acquire:
  "acquire 0 closed_breaker = (Some \<lparr>permit_mode = Closed_Permit, permit_generation = 4\<rparr>, closed_breaker)"
  by (simp add: acquire_def advance_to_half_open_when_ready_def closed_breaker_def)

theorem resilient_process_returns_witness:
  "\<exists>a evs b'. resilient_process default_retry None demo_envs 0 demo_request ''k1'' 6 closed_breaker = Some (a, evs, b') \<and>
    length (calls evs) \<le> 3 \<and> total_time evs \<le> 10800"
proof -
  have "2 * nat (integer_of (max_attempts default_retry)) = 6" "integer_of (max_attempts default_retry) = 3"
    by (simp_all add: default_retry_def)
  with resilient_process_returns [OF default_retry_valid, of None demo_envs 0 demo_request "''k1''" closed_breaker]
    demo_envs_ok show ?thesis by (auto simp: default_window)
qed



section \<open>Any number of calls on one breaker\<close>

text \<open>
  The calls in progress are numbered in the order they begin.  Between two phases of a call the
  others make theirs.
\<close>

record resilient_system =
  shared_breaker :: circuit_breaker
  phases :: "resilient_phase list"

datatype resilient_input =
    Begin_Call int
  | Attempt_Ends nat attempt_env
  | Wakes nat "unit result"

definition resilient_step :: "retry_policy_config \<Rightarrow> string option \<Rightarrow> resilient_input \<Rightarrow> resilient_system \<Rightarrow> resilient_system" where
  "resilient_step config rid ev y =
     (case ev of
        Begin_Call now \<Rightarrow>
          (case begin_process config rid now (shared_breaker y) of
             (ph, _, b) \<Rightarrow> \<lparr>shared_breaker = b, phases = phases y @ [ph]\<rparr>)
      | Attempt_Ends i env \<Rightarrow>
          (if length (phases y) \<le> i then y
           else case phases y ! i of
             Attempting permit k \<Rightarrow>
               (case attempt_ended config rid env permit k (shared_breaker y) of
                  (ph, _, b) \<Rightarrow> \<lparr>shared_breaker = b, phases = (phases y)[i := ph]\<rparr>)
           | _ \<Rightarrow> y)
      | Wakes i slept \<Rightarrow>
          (if length (phases y) \<le> i then y
           else case phases y ! i of
             Sleeping permit k _ \<Rightarrow> \<lparr>shared_breaker = shared_breaker y, phases = (phases y)[i := woken config slept permit k]\<rparr>
           | _ \<Rightarrow> y))"

text \<open>The random numbers lie between 0 and 1, and a sleep does not fail.\<close>

fun resilient_input_ok :: "int \<Rightarrow> resilient_input \<Rightarrow> bool" where
  "resilient_input_ok timeout (Begin_Call now) = True"
| "resilient_input_ok timeout (Attempt_Ends i env) = env_ok timeout env"
| "resilient_input_ok timeout (Wakes i slept) = (slept = Inr ())"

inductive resilient_reachable :: "retry_policy_config \<Rightarrow> circuit_breaker_config \<Rightarrow> string option \<Rightarrow> resilient_system \<Rightarrow> bool"
  for config breaker_config rid where
  initial: "new_circuit_breaker breaker_config = Inr b \<Longrightarrow>
    resilient_reachable config breaker_config rid \<lparr>shared_breaker = b, phases = []\<rparr>"
| event: "resilient_reachable config breaker_config rid y \<Longrightarrow>
    resilient_input_ok (integer_of (attempt_timeout_ms config)) ev \<Longrightarrow>
    resilient_reachable config breaker_config rid (resilient_step config rid ev y)"

fun held_permit :: "resilient_phase \<Rightarrow> circuit_permit multiset" where
  "held_permit (Attempting p k) = {#p#}"
| "held_permit (Sleeping p k d) = {#p#}"
| "held_permit (Settled a) = {#}"

definition held :: "resilient_system \<Rightarrow> circuit_permit multiset" where
  "held y = sum_list (map held_permit (phases y))"

text \<open>A phase of a call keeps to the number of attempts.\<close>

fun phase_ok :: "int \<Rightarrow> resilient_phase \<Rightarrow> bool" where
  "phase_ok n (Attempting p k) \<longleftrightarrow> 1 \<le> k \<and> int k \<le> n"
| "phase_ok n (Sleeping p k d) \<longleftrightarrow> 1 \<le> k \<and> int k < n"
| "phase_ok n (Settled a) \<longleftrightarrow> True"

definition resilient_inv :: "circuit_breaker_config \<Rightarrow> int \<Rightarrow> resilient_system \<Rightarrow> bool" where
  "resilient_inv breaker_config n y \<longleftrightarrow>
     breaker_reachable breaker_config \<lparr>breaker = shared_breaker y, permits = held y\<rparr> \<and> list_all (phase_ok n) (phases y)"

text \<open>The permits of the other calls.\<close>

definition others :: "resilient_system \<Rightarrow> nat \<Rightarrow> circuit_permit multiset" where
  "others y i = sum_list (map held_permit (take i (phases y))) + sum_list (map held_permit (drop (Suc i) (phases y)))"

lemma held_split: "i < length (phases y) \<Longrightarrow> held y = held_permit (phases y ! i) + others y i"
  unfolding held_def others_def
  by (subst id_take_nth_drop [of i "phases y"]) (simp_all only: map_append list.map sum_list_append sum_list.Cons ac_simps)

lemma held_update:
  "i < length (phases y) \<Longrightarrow> held \<lparr>shared_breaker = b, phases = (phases y)[i := ph]\<rparr> = held_permit ph + others y i"
  by (simp add: held_def others_def upd_conv_take_nth_drop ac_simps)

lemma held_append: "held \<lparr>shared_breaker = b, phases = phases y @ [ph]\<rparr> = held y + held_permit ph"
  by (simp add: held_def)

lemma resilient_begin_inv:
  assumes ok: "retry_config_ok config n tm b0 m j" and inv: "resilient_inv breaker_config n y"
  shows "resilient_inv breaker_config n (resilient_step config rid (Begin_Call now) y)"
proof -
  let ?s = "\<lparr>breaker = shared_breaker y, permits = held y\<rparr>"
  have r: "breaker_reachable breaker_config ?s" and l: "list_all (phase_ok n) (phases y)"
    using inv by (simp_all add: resilient_inv_def)
  obtain p b where a: "acquire now (shared_breaker y) = (p, b)" by fastforce
  show ?thesis
  proof (cases p)
    case None
    then have "breaker_step ?s \<lparr>breaker = b, permits = held y\<rparr>" using a breaker_step.refuse [of now ?s b] by simp
    with r have "breaker_reachable breaker_config \<lparr>breaker = b, permits = held y\<rparr>" by (rule breaker_reachable.step)
    with None a l show ?thesis by (simp add: resilient_step_def begin_process_def resilient_inv_def held_append)
  next
    case (Some permit)
    have nx: "next_attempt config permit 1 = Attempting permit 1" "1 \<le> n"
      using next_attempt_eq [OF ok, of 1] ok by (simp_all add: retry_config_ok_def)
    have "breaker_step ?s \<lparr>breaker = b, permits = add_mset permit (held y)\<rparr>"
      using Some a breaker_step.grant [of now ?s permit b] by simp
    with r have "breaker_reachable breaker_config \<lparr>breaker = b, permits = add_mset permit (held y)\<rparr>"
      by (rule breaker_reachable.step)
    with Some a l nx show ?thesis by (simp add: resilient_step_def begin_process_def resilient_inv_def held_append)
  qed
qed

lemma apply_report_step:
  "p \<in># permits s \<Longrightarrow> breaker_step s \<lparr>breaker = apply_report now r p (breaker s), permits = permits s - {#p#}\<rparr>"
  by (cases r) (auto intro: breaker_step.intros)

lemma resilient_ended_inv:
  assumes ok: "retry_config_ok config n tm b0 m j" and inv: "resilient_inv breaker_config n y"
    and env: "env_ok tm env"
  shows "resilient_inv breaker_config n (resilient_step config rid (Attempt_Ends i env) y)"
proof (cases "i < length (phases y)")
  case True
  show ?thesis
  proof (cases "phases y ! i")
    case (Attempting permit k)
    have r: "breaker_reachable breaker_config \<lparr>breaker = shared_breaker y, permits = held y\<rparr>"
      and l: "list_all (phase_ok n) (phases y)" using inv by (simp_all add: resilient_inv_def)
    have k: "1 \<le> k" "int k \<le> n" using l True Attempting by (auto simp: list_all_length)
    have h: "held y = add_mset permit (others y i)" using held_split [OF True] Attempting by simp
    obtain ph evs b where e: "attempt_ended config rid env permit k (shared_breaker y) = (ph, evs, b)"
      by (metis prod_cases3)
    have step: "resilient_step config rid (Attempt_Ends i env) y = \<lparr>shared_breaker = b, phases = (phases y)[i := ph]\<rparr>"
      using True Attempting e by (simp add: resilient_step_def)
    have upd: "list_all (phase_ok n) ((phases y)[i := ph])" if "phase_ok n ph"
      using l that by (auto simp: list_all_iff dest!: set_update_subset_insert [THEN subsetD])
    from attempt_ended_cases [OF ok k e] env consider
        (settled) a where "ph = Settled a" "b = apply_report (breaker_clock env) (report_for a) permit (shared_breaker y)"
      | (sleeping) d where "ph = Sleeping permit k d" "int k < n" "b = shared_breaker y" by blast
    then show ?thesis
    proof cases
      case settled
      have "breaker_step \<lparr>breaker = shared_breaker y, permits = held y\<rparr> \<lparr>breaker = b, permits = others y i\<rparr>"
        using apply_report_step [of permit "\<lparr>breaker = shared_breaker y, permits = held y\<rparr>" "breaker_clock env" "report_for a"]
        by (simp add: h settled(2))
      with r have "breaker_reachable breaker_config \<lparr>breaker = b, permits = others y i\<rparr>" by (rule breaker_reachable.step)
      with step settled(1) upd True show ?thesis by (simp add: resilient_inv_def held_update)
    next
      case sleeping
      with step upd True r h k show ?thesis by (simp add: resilient_inv_def held_update)
    qed
  qed (use True inv in \<open>simp_all add: resilient_step_def\<close>)
qed (use inv in \<open>simp add: resilient_step_def\<close>)

lemma resilient_wakes_inv:
  assumes ok: "retry_config_ok config n tm b0 m j" and inv: "resilient_inv breaker_config n y"
  shows "resilient_inv breaker_config n (resilient_step config rid (Wakes i (Inr ())) y)"
proof (cases "i < length (phases y)")
  case True
  show ?thesis
  proof (cases "phases y ! i")
    case (Sleeping permit k d)
    have l: "list_all (phase_ok n) (phases y)" using inv by (simp add: resilient_inv_def)
    then have k: "1 \<le> k" "int (Suc k) \<le> n" using True Sleeping by (auto simp: list_all_length)
    have upd: "list_all (phase_ok n) ((phases y)[i := ph])" if "phase_ok n ph" for ph
      using l that by (auto simp: list_all_iff dest!: set_update_subset_insert [THEN subsetD])
    have w: "woken config (Inr ()) permit k = Attempting permit (Suc k)"
      using next_attempt_eq [OF ok k(2)] by (simp add: woken_def)
    show ?thesis
      using True Sleeping inv w k upd [of "Attempting permit (Suc k)"] held_split [OF True]
      by (simp add: resilient_step_def resilient_inv_def held_update)
  qed (use True inv in \<open>simp_all add: resilient_step_def\<close>)
qed (use inv in \<open>simp add: resilient_step_def\<close>)

lemma resilient_reachable_inv:
  assumes "retry_config_ok config n tm b0 m j" and "resilient_reachable config breaker_config rid y"
  shows "resilient_inv breaker_config n y"
  using assms(2)
proof (induction rule: resilient_reachable.induct)
  case (initial b)
  then show ?case by (simp add: resilient_inv_def held_def breaker_reachable.init)
next
  case (event y ev)
  have "integer_of (attempt_timeout_ms config) = tm" using assms(1) by (simp add: retry_config_ok_def)
  with event show ?case
    by (cases ev) (simp_all add: resilient_begin_inv [OF assms(1)] resilient_ended_inv [OF assms(1)]
        resilient_wakes_inv [OF assms(1)])
qed


definition probe_config :: circuit_breaker_config where
  "probe_config = \<lparr>failure_threshold = js_int 1, open_duration_ms = js_int 10\<rparr>"

definition probe_run :: "resilient_input list" where
  "probe_run = [Begin_Call 0, Attempt_Ends 0 (demo_attempt (Inl Provider_Invalid_Response_Error)), Begin_Call 10, Begin_Call 11]"

definition probe_start :: resilient_system where
  "probe_start = \<lparr>shared_breaker = \<lparr>threshold = 1, open_ms = 10, current_state = Closed, consecutive_failures = 0,
     opened_at_ms = 0, half_open_probe_in_flight = False, generation = 0, observed = []\<rparr>, phases = []\<rparr>"

definition probe_end :: resilient_system where
  "probe_end = \<lparr>shared_breaker = \<lparr>threshold = 1, open_ms = 10, current_state = Half_Open, consecutive_failures = 0,
     opened_at_ms = 0, half_open_probe_in_flight = True, generation = 1, observed = [Opened]\<rparr>,
     phases = [Settled (Inl Provider_Invalid_Response_Error),
       Attempting \<lparr>permit_mode = Half_Open_Permit, permit_generation = 1\<rparr> 1, Settled (Inl Provider_Circuit_Open_Error)]\<rparr>"

lemma resilient_reachable_fold:
  "list_all (resilient_input_ok (integer_of (attempt_timeout_ms config))) evs \<Longrightarrow>
    resilient_reachable config breaker_config rid y \<Longrightarrow>
    resilient_reachable config breaker_config rid (fold (resilient_step config rid) evs y)"
  by (induction evs arbitrary: y) (simp_all add: resilient_reachable.event)

lemma probe_end_reachable: "resilient_reachable default_retry probe_config None probe_end"
proof -
  have "new_circuit_breaker probe_config = Inr (shared_breaker probe_start)"
    by (simp add: new_circuit_breaker_def validate_circuit_breaker_config_def probe_config_def probe_start_def max_safe_integer_def)
  from resilient_reachable.initial [OF this] have s: "resilient_reachable default_retry probe_config None probe_start"
    by (simp add: probe_start_def)
  have ok: "list_all (resilient_input_ok (integer_of (attempt_timeout_ms default_retry))) probe_run"
    by (auto simp: probe_run_def env_ok_def demo_attempt_def default_retry_def intro: exI [of _ "1 / 2"])
  have "fold (resilient_step default_retry None) probe_run probe_start = probe_end"
    by (simp add: probe_run_def probe_start_def probe_end_def resilient_step_def begin_process_def acquire_def
        advance_to_half_open_when_ready_def next_attempt_def default_retry_def attempt_ended_def attempt_failed_def
        demo_attempt_def should_retry_def failure_report_def record_failure_def is_current_def open_circuit_def Let_def)
  with resilient_reachable_fold [OF ok s] show ?thesis by simp
qed


end
