(* ===== verification/Lifecycle.thy ===== *)
theory Lifecycle
  imports Js_Number Domain Logger
begin

text \<open>
  \<^verbatim>\<open>src/src/infrastructure/operability/lifecycle.ts\<close>: the tracker of requests in flight and the
  shutdown coordinator.  The coordinator is a state machine over the tracker: its awaits are its
  phases, and its events are the signals, the requests that begin and end meanwhile, the answers
  of the resources, the timers and the passing of time.
\<close>

section \<open>The request tracker\<close>

text \<open>
  \<open>begin\<close> returns a closure with its own \<open>released\<close> flag: here the position of the flag in
  \<open>released\<close>.  \<open>waits\<close> are the promises of \<open>waitForDrain\<close> (\<open>None\<close> while pending) and
  \<open>drain_waiters\<close> the set of the pending ones that wait for the drain.
\<close>

record tracker =
  active :: int
  shutting_down :: bool
  released :: "bool list"
  drain_waiters :: "nat list"
  waits :: "bool option list"

definition new_tracker :: tracker where
  "new_tracker = \<lparr>active = 0, shutting_down = False, released = [], drain_waiters = [], waits = []\<rparr>"

definition tracker_begin :: "tracker \<Rightarrow> nat option \<times> tracker" where
  "tracker_begin k =
     (if shutting_down k then (None, k)
      else (Some (length (released k)), k\<lparr>active := active k + 1, released := released k @ [False]\<rparr>))"

text \<open>\<open>finish\<close>: settles a wait once and takes it out of the waiters.\<close>

definition finish_wait :: "bool \<Rightarrow> nat \<Rightarrow> tracker \<Rightarrow> tracker" where
  "finish_wait drained w k =
     (if waits k ! w \<noteq> None then k
      else k\<lparr>drain_waiters := removeAll w (drain_waiters k), waits := (waits k)[w := Some drained]\<rparr>)"

definition tracker_release :: "nat \<Rightarrow> tracker \<Rightarrow> tracker" where
  "tracker_release h k =
     (if released k ! h then k
      else (let k1 = k\<lparr>active := active k - 1, released := (released k)[h := True]\<rparr> in
            if active k1 = 0 then (fold (finish_wait True) (drain_waiters k1) k1)\<lparr>drain_waiters := []\<rparr> else k1))"

definition start_shutdown :: "tracker \<Rightarrow> tracker" where
  "start_shutdown k = k\<lparr>shutting_down := True\<rparr>"

definition wait_for_drain :: "tracker \<Rightarrow> nat \<times> tracker" where
  "wait_for_drain k =
     (length (waits k),
      if active k = 0 then k\<lparr>waits := waits k @ [Some True]\<rparr>
      else k\<lparr>waits := waits k @ [None], drain_waiters := drain_waiters k @ [length (waits k)]\<rparr>)"

definition tracker_ok :: "tracker \<Rightarrow> bool" where
  "tracker_ok k \<longleftrightarrow>
     active k = int (length (filter Not (released k))) \<and>
     distinct (drain_waiters k) \<and>
     set (drain_waiters k) = {w. w < length (waits k) \<and> waits k ! w = None} \<and>
     (active k = 0 \<longrightarrow> drain_waiters k = [])"

lemma tracker_ok_new: "tracker_ok new_tracker"
  by (simp add: tracker_ok_def new_tracker_def)

lemma tracker_ok_begin: "tracker_ok k \<Longrightarrow> tracker_ok (snd (tracker_begin k))"
  by (auto simp: tracker_ok_def tracker_begin_def)

lemma tracker_ok_shutdown: "tracker_ok k \<Longrightarrow> tracker_ok (start_shutdown k)"
  by (simp add: tracker_ok_def start_shutdown_def)

lemma finish_wait_fields [simp]:
  "active (finish_wait d w k) = active k" "shutting_down (finish_wait d w k) = shutting_down k"
  "released (finish_wait d w k) = released k" "length (waits (finish_wait d w k)) = length (waits k)"
  by (simp_all add: finish_wait_def)

lemma tracker_ok_finish: "tracker_ok k \<Longrightarrow> w < length (waits k) \<Longrightarrow> tracker_ok (finish_wait d w k)"
  by (auto simp: tracker_ok_def finish_wait_def distinct_removeAll nth_list_update)

lemma fold_finish_wait:
  "set ws \<subseteq> {w. w < length (waits k)} \<Longrightarrow>
    active (fold (finish_wait d) ws k) = active k \<and> shutting_down (fold (finish_wait d) ws k) = shutting_down k \<and>
    released (fold (finish_wait d) ws k) = released k \<and> length (waits (fold (finish_wait d) ws k)) = length (waits k) \<and>
    (\<forall>w < length (waits k). waits (fold (finish_wait d) ws k) ! w =
       (if w \<in> set ws \<and> waits k ! w = None then Some d else waits k ! w))"
  by (induction ws arbitrary: k) (auto simp: finish_wait_def nth_list_update)

text \<open>A release counts once; the last one resolves every wait with \<open>true\<close>.\<close>

lemma release_count:
  "h < length rs \<Longrightarrow> \<not> rs ! h \<Longrightarrow> Suc (length (filter Not (rs[h := True]))) = length (filter Not rs)"
  by (induction rs arbitrary: h) (auto simp: nth_Cons split: nat.splits)

lemma tracker_release_ok:
  assumes ok: "tracker_ok k" and h: "h < length (released k)"
  shows "tracker_ok (tracker_release h k)" "shutting_down (tracker_release h k) = shutting_down k"
    "length (released (tracker_release h k)) = length (released k)" "length (waits (tracker_release h k)) = length (waits k)"
    "\<And>w. w < length (waits k) \<Longrightarrow> waits (tracker_release h k) ! w =
      (if waits k ! w = None \<and> active (tracker_release h k) = 0 then Some True else waits k ! w)"
proof -
  let ?k1 = "k\<lparr>active := active k - 1, released := (released k)[h := True]\<rparr>"
  have sub: "set (drain_waiters k) \<subseteq> {w. w < length (waits ?k1)}" using ok by (auto simp: tracker_ok_def)
  note f = fold_finish_wait [OF sub, of True]
  have pend: "w \<in> set (drain_waiters k) \<longleftrightarrow> w < length (waits k) \<and> waits k ! w = None" for w
    using ok by (auto simp: tracker_ok_def)
  have nz: "active k = 0 \<Longrightarrow> waits k ! w \<noteq> None" if "w < length (waits k)" for w
    using ok pend that by (auto simp: tracker_ok_def)
  have cnt: "active k - 1 = int (length (filter Not ((released k)[h := True])))" if "\<not> released k ! h"
    using release_count [OF h that] ok by (simp add: tracker_ok_def flip: of_nat_Suc)
  show "tracker_ok (tracker_release h k)"
    using ok f cnt pend by (auto simp: tracker_release_def tracker_ok_def Let_def)
  show "shutting_down (tracker_release h k) = shutting_down k"
    "length (released (tracker_release h k)) = length (released k)" "length (waits (tracker_release h k)) = length (waits k)"
    using f by (auto simp: tracker_release_def Let_def)
  show "waits (tracker_release h k) ! w =
      (if waits k ! w = None \<and> active (tracker_release h k) = 0 then Some True else waits k ! w)"
    if w: "w < length (waits k)" for w
  proof (cases "released k ! h")
    case True
    then have "tracker_release h k = k" by (simp add: tracker_release_def)
    with nz [OF w] show ?thesis by (cases "active k = 0") simp_all
  next
    case False
    show ?thesis
    proof (cases "active k - 1 = 0")
      case True
      with False f w pend [of w] show ?thesis by (simp add: tracker_release_def Let_def)
    next
      case zero: False
      with False show ?thesis by (simp add: tracker_release_def Let_def)
    qed
  qed
qed

text \<open>A request that begins and ends leaves the count as it was.\<close>

lemma tracker_begin_release:
  assumes ok: "tracker_ok k" and b: "tracker_begin k = (Some h, k1)"
  shows "tracker_ok (tracker_release h k1) \<and> active (tracker_release h k1) = active k \<and>
    shutting_down (tracker_release h k1) = shutting_down k"
proof -
  from b have h: "h = length (released k)" "k1 = k\<lparr>active := active k + 1, released := released k @ [False]\<rparr>"
    by (auto simp: tracker_begin_def split: if_splits)
  have ok1: "tracker_ok k1" using tracker_ok_begin [OF ok] b by simp
  then have sub: "set (drain_waiters k1) \<subseteq> {w. w < length (waits k1)}" by (auto simp: tracker_ok_def)
  have "active (tracker_release h k1) = active k"
    using fold_finish_wait [of "drain_waiters k1" "k1\<lparr>active := active k1 - 1, released := (released k1)[h := True]\<rparr>" True] sub
    by (simp add: tracker_release_def Let_def h)
  with tracker_release_ok [OF ok1, of h] h show ?thesis by simp
qed

lemma wait_for_drain_ok:
  assumes "tracker_ok k"
  shows "tracker_ok (snd (wait_for_drain k))"
    "waits (snd (wait_for_drain k)) ! fst (wait_for_drain k) = (if active k = 0 then Some True else None)"
    "fst (wait_for_drain k) < length (waits (snd (wait_for_drain k)))"
proof -
  have d: "set (drain_waiters k) = {w. w < length (waits k) \<and> waits k ! w = None}" using assms by (simp add: tracker_ok_def)
  have n: "{w. w < Suc (length (waits k)) \<and> (waits k @ [x]) ! w = None} =
      (if x = None then insert (length (waits k)) (set (drain_waiters k)) else set (drain_waiters k))" for x
    unfolding d by (auto simp: nth_append less_Suc_eq)
  have "length (waits k) \<notin> set (drain_waiters k)" unfolding d by simp
  then show "tracker_ok (snd (wait_for_drain k))"
  proof (cases "active k = 0")
    case True
    then have e: "drain_waiters k = []" using assms by (simp add: tracker_ok_def)
    with n [of "Some True"] have "{w. w < Suc (length (waits k)) \<and> (waits k @ [Some True]) ! w = None} = {}" by simp
    with assms True e show ?thesis by (auto simp: wait_for_drain_def tracker_ok_def)
  next
    case False
    with assms \<open>length (waits k) \<notin> set (drain_waiters k)\<close> show ?thesis
      unfolding wait_for_drain_def tracker_ok_def by (simp only: snd_conv if_False) (simp add: n [simplified] del: Collect_empty_eq)
  qed
qed (simp_all add: wait_for_drain_def)

section \<open>The coordinator\<close>

record shutdown_config =
  grace_ms :: int
  close_timeout_ms :: int

definition new_shutdown_coordinator :: "js_number \<Rightarrow> js_number \<Rightarrow> shutdown_config result" where
  "new_shutdown_coordinator grace_period_ms resource_close_timeout_ms =
     (if \<not> is_safe_integer grace_period_ms \<or> js_less grace_period_ms (js_int 1)
      then Inl (Plain_Error ''Shutdown grace period must be a positive safe integer'')
      else if \<not> is_safe_integer resource_close_timeout_ms \<or> js_less resource_close_timeout_ms (js_int 1)
      then Inl (Plain_Error ''Resource close timeout must be a positive safe integer'')
      else Inr \<lparr>grace_ms = integer_of grace_period_ms, close_timeout_ms = integer_of resource_close_timeout_ms\<rparr>)"

text \<open>The calls on the resources, the phases of \<open>performShutdown\<close>, and how a \<open>safeCall\<close> ends.\<close>

datatype resource_call = Stop_Http bool | Close_Redis | Close_Postgres

datatype shutdown_phase = Running | Draining | Forcing_Http | Awaiting_Http | Closing_Redis | Closing_Postgres | Stopped

datatype call_outcome = Call_Completed | Call_Failed | Call_Timed_Out

text \<open>
  \<open>http_deadline\<close> and \<open>http_stopped\<close> belong to the graceful \<open>stopHttp\<close>, which runs beside the
  drain; \<open>deadline\<close> is that of the wait or call in progress.  \<open>resource_calls\<close> and \<open>shutdown_log\<close>
  list what was done.
\<close>

record shutdown_state =
  request_tracker :: tracker
  clock_ms :: int
  shutdown_phase :: shutdown_phase
  drain_wait :: nat
  http_deadline :: int
  http_stopped :: bool
  deadline :: int
  resource_calls :: "resource_call list"
  shutdown_log :: "effect list"

definition new_shutdown_state :: "int \<Rightarrow> shutdown_state" where
  "new_shutdown_state t = \<lparr>request_tracker = new_tracker, clock_ms = t, shutdown_phase = Running, drain_wait = 0,
     http_deadline = t, http_stopped = False, deadline = t, resource_calls = [], shutdown_log = []\<rparr>"

definition safe_call_log :: "string \<Rightarrow> call_outcome \<Rightarrow> effect list" where
  "safe_call_log operation out =
     (case out of
        Call_Completed \<Rightarrow> []
      | Call_Failed \<Rightarrow> [Log Log_Error ''shutdown.resource_close_failed'' [(''operation'', Some (JString operation))]]
      | Call_Timed_Out \<Rightarrow> [Log Log_Error ''shutdown.resource_close_timed_out'' [(''operation'', Some (JString operation))]])"

definition log_shutdown :: "effect list \<Rightarrow> shutdown_state \<Rightarrow> shutdown_state" where
  "log_shutdown es s = s\<lparr>shutdown_log := shutdown_log s @ es\<rparr>"

text \<open>A \<open>safeCall\<close> that is awaited: the action starts and its timer is set.\<close>

definition start_call :: "shutdown_config \<Rightarrow> resource_call \<Rightarrow> shutdown_phase \<Rightarrow> shutdown_state \<Rightarrow> shutdown_state" where
  "start_call c call ph s = s\<lparr>shutdown_phase := ph, deadline := clock_ms s + close_timeout_ms c,
     resource_calls := resource_calls s @ [call]\<rparr>"

definition after_drain :: "shutdown_config \<Rightarrow> bool \<Rightarrow> shutdown_state \<Rightarrow> shutdown_state" where
  "after_drain c drained s =
     (if \<not> drained
      then start_call c (Stop_Http True) Forcing_Http
             (log_shutdown [Log Log_Warn ''shutdown.grace_period_expired''
                [(''activeRequests'', Some (JInt (active (request_tracker s))))]] s)
      else if http_stopped s then start_call c Close_Redis Closing_Redis s
      else s\<lparr>shutdown_phase := Awaiting_Http, deadline := http_deadline s\<rparr>)"

text \<open>Goes on when the wait of the drain is settled.\<close>

definition resume_drain :: "shutdown_config \<Rightarrow> shutdown_state \<Rightarrow> shutdown_state" where
  "resume_drain c s =
     (if shutdown_phase s \<noteq> Draining then s
      else case waits (request_tracker s) ! drain_wait s of None \<Rightarrow> s | Some drained \<Rightarrow> after_drain c drained s)"

definition shutdown :: "shutdown_config \<Rightarrow> string \<Rightarrow> shutdown_state \<Rightarrow> shutdown_state" where
  "shutdown c signal s =
     (if shutdown_phase s \<noteq> Running then s
      else
        (let k = start_shutdown (request_tracker s); (w, k') = wait_for_drain k in
         resume_drain c
           (log_shutdown [Log Log_Info ''shutdown.started''
              [(''signal'', Some (JString signal)), (''activeRequests'', Some (JInt (active k))),
               (''gracePeriodMs'', Some (JInt (grace_ms c)))]]
             s\<lparr>request_tracker := k', drain_wait := w, shutdown_phase := Draining,
               http_deadline := clock_ms s + grace_ms c, deadline := clock_ms s + grace_ms c,
               resource_calls := resource_calls s @ [Stop_Http False]\<rparr>)))"

definition http_stop_ended :: "shutdown_config \<Rightarrow> call_outcome \<Rightarrow> shutdown_state \<Rightarrow> shutdown_state" where
  "http_stop_ended c out s =
     (if shutdown_phase s = Running \<or> http_stopped s then s
      else
        (let s1 = log_shutdown (safe_call_log ''http_stop'' out) s\<lparr>http_stopped := True\<rparr> in
         if shutdown_phase s = Awaiting_Http then start_call c Close_Redis Closing_Redis s1 else s1))"

definition call_ended :: "shutdown_config \<Rightarrow> call_outcome \<Rightarrow> shutdown_state \<Rightarrow> shutdown_state" where
  "call_ended c out s =
     (case shutdown_phase s of
        Forcing_Http \<Rightarrow> start_call c Close_Redis Closing_Redis (log_shutdown (safe_call_log ''http_force_stop'' out) s)
      | Closing_Redis \<Rightarrow> start_call c Close_Postgres Closing_Postgres (log_shutdown (safe_call_log ''redis_close'' out) s)
      | Closing_Postgres \<Rightarrow>
          (log_shutdown (safe_call_log ''postgres_close'' out @
             [Log Log_Info ''shutdown.completed'' [(''activeRequests'', Some (JInt (active (request_tracker s))))]]) s)
            \<lparr>shutdown_phase := Stopped\<rparr>
      | _ \<Rightarrow> s)"

section \<open>The process with its signals, requests and timers\<close>

datatype shutdown_event =
    Tick int
  | Signal string
  | Request_Begins
  | Request_Ends nat
  | Drain_Timer
  | Http_Stops call_outcome
  | Call_Ends call_outcome

definition shutdown_step :: "shutdown_config \<Rightarrow> shutdown_event \<Rightarrow> shutdown_state \<Rightarrow> shutdown_state" where
  "shutdown_step c ev s =
     (case ev of
        Tick t \<Rightarrow> s\<lparr>clock_ms := t\<rparr>
      | Signal signal \<Rightarrow> shutdown c signal s
      | Request_Begins \<Rightarrow> s\<lparr>request_tracker := snd (tracker_begin (request_tracker s))\<rparr>
      | Request_Ends h \<Rightarrow> resume_drain c (s\<lparr>request_tracker := tracker_release h (request_tracker s)\<rparr>)
      | Drain_Timer \<Rightarrow>
          (if shutdown_phase s = Draining
           then resume_drain c (s\<lparr>request_tracker := finish_wait False (drain_wait s) (request_tracker s)\<rparr>) else s)
      | Http_Stops out \<Rightarrow> http_stop_ended c out s
      | Call_Ends out \<Rightarrow> call_ended c out s)"

text \<open>
  Which events may happen: time does not pass a timer that is set without the timer firing, a timer
  fires when it is due, only requests that began end.
\<close>

definition http_pending :: "shutdown_state \<Rightarrow> bool" where
  "http_pending s \<longleftrightarrow> shutdown_phase s \<noteq> Running \<and> \<not> http_stopped s"

definition timer_set :: "shutdown_state \<Rightarrow> bool" where
  "timer_set s \<longleftrightarrow> shutdown_phase s \<noteq> Running \<and> shutdown_phase s \<noteq> Stopped"

fun shutdown_event_ok :: "shutdown_event \<Rightarrow> shutdown_state \<Rightarrow> bool" where
  "shutdown_event_ok (Tick t) s \<longleftrightarrow> clock_ms s \<le> t \<and> (timer_set s \<longrightarrow> t \<le> deadline s) \<and>
     (http_pending s \<longrightarrow> t \<le> http_deadline s)"
| "shutdown_event_ok (Request_Ends h) s \<longleftrightarrow> h < length (released (request_tracker s))"
| "shutdown_event_ok Drain_Timer s \<longleftrightarrow> deadline s \<le> clock_ms s"
| "shutdown_event_ok (Http_Stops out) s \<longleftrightarrow> (out = Call_Timed_Out \<longrightarrow> http_deadline s \<le> clock_ms s)"
| "shutdown_event_ok (Call_Ends out) s \<longleftrightarrow> (out = Call_Timed_Out \<longrightarrow> deadline s \<le> clock_ms s)"
| "shutdown_event_ok _ s \<longleftrightarrow> True"

inductive shutdown_reachable :: "shutdown_config \<Rightarrow> int \<Rightarrow> shutdown_state \<Rightarrow> bool" for c t0 where
  initial: "shutdown_reachable c t0 (new_shutdown_state t0)"
| event: "shutdown_reachable c t0 s \<Longrightarrow> shutdown_event_ok ev s \<Longrightarrow> shutdown_reachable c t0 (shutdown_step c ev s)"

section \<open>The invariant of the shutdown\<close>

text \<open>The calls made when a phase has been reached, with or without the forced stop.\<close>

fun calls_before :: "shutdown_phase \<Rightarrow> bool \<Rightarrow> resource_call list" where
  "calls_before Running forced = []"
| "calls_before Draining forced = [Stop_Http False]"
| "calls_before Awaiting_Http forced = [Stop_Http False]"
| "calls_before Forcing_Http forced = [Stop_Http False, Stop_Http True]"
| "calls_before Closing_Redis forced = Stop_Http False # (if forced then [Stop_Http True] else []) @ [Close_Redis]"
| "calls_before Closing_Postgres forced = Stop_Http False # (if forced then [Stop_Http True] else []) @ [Close_Redis, Close_Postgres]"
| "calls_before Stopped forced = Stop_Http False # (if forced then [Stop_Http True] else []) @ [Close_Redis, Close_Postgres]"

text \<open>The latest time the timer of a phase may be due, after the deadline of the drain.\<close>

fun deadline_slack :: "shutdown_phase \<Rightarrow> int" where
  "deadline_slack Forcing_Http = 1"
| "deadline_slack Closing_Redis = 2"
| "deadline_slack Closing_Postgres = 3"
| "deadline_slack _ = 0"

definition forced_stop :: "shutdown_state \<Rightarrow> bool" where
  "forced_stop s \<longleftrightarrow> Stop_Http True \<in> set (resource_calls s)"

definition past_drain :: "shutdown_phase \<Rightarrow> bool" where
  "past_drain ph \<longleftrightarrow> ph \<in> {Awaiting_Http, Closing_Redis, Closing_Postgres, Stopped}"

definition shutdown_inv :: "shutdown_config \<Rightarrow> shutdown_state \<Rightarrow> bool" where
  "shutdown_inv c s \<longleftrightarrow>
     tracker_ok (request_tracker s) \<and>
     (shutting_down (request_tracker s) \<longleftrightarrow> shutdown_phase s \<noteq> Running) \<and>
     (\<exists>forced. resource_calls s = calls_before (shutdown_phase s) forced) \<and>
     (shutdown_phase s = Draining \<longrightarrow> drain_wait s < length (waits (request_tracker s)) \<and>
        waits (request_tracker s) ! drain_wait s = None \<and> deadline s = http_deadline s) \<and>
     (shutdown_phase s = Awaiting_Http \<longrightarrow> \<not> http_stopped s \<and> deadline s = http_deadline s) \<and>
     (past_drain (shutdown_phase s) \<and> \<not> forced_stop s \<longrightarrow> active (request_tracker s) = 0) \<and>
     (past_drain (shutdown_phase s) \<and> shutdown_phase s \<noteq> Awaiting_Http \<and> \<not> forced_stop s \<longrightarrow> http_stopped s) \<and>
     (timer_set s \<longrightarrow> clock_ms s \<le> deadline s \<and> deadline s \<le> http_deadline s + deadline_slack (shutdown_phase s) * close_timeout_ms c) \<and>
     (http_pending s \<longrightarrow> clock_ms s \<le> http_deadline s)"

lemmas shutdown_simps = shutdown_inv_def timer_set_def http_pending_def past_drain_def forced_stop_def

lemma active_zero_release:
  assumes "tracker_ok k" "h < length (released k)" "active k = 0"
  shows "tracker_release h k = k"
proof -
  have "filter Not (released k) = []" using assms by (simp add: tracker_ok_def)
  then have "released k ! h" using assms(2) by (metis filter_empty_conv nth_mem)
  then show ?thesis by (simp add: tracker_release_def)
qed

lemma tracker_shutting_begin: "shutting_down k \<Longrightarrow> tracker_begin k = (None, k)"
  by (simp add: tracker_begin_def)

lemma inv_tick:
  "shutdown_inv c s \<Longrightarrow> shutdown_event_ok (Tick t) s \<Longrightarrow> shutdown_inv c (s\<lparr>clock_ms := t\<rparr>)"
  by (auto simp: shutdown_simps)

lemma inv_begins:
  assumes "shutdown_inv c s"
  shows "shutdown_inv c (s\<lparr>request_tracker := snd (tracker_begin (request_tracker s))\<rparr>)"
proof (cases "shutting_down (request_tracker s)")
  case True
  then show ?thesis using assms by (simp add: tracker_begin_def)
next
  case False
  then have "shutting_down (snd (tracker_begin (request_tracker s))) = False" by (simp add: tracker_begin_def)
  with False assms tracker_ok_begin [of "request_tracker s"] show ?thesis by (auto simp: shutdown_simps)
qed

text \<open>The drain is over: with every request done, or with the grace period at its end.\<close>

lemma inv_after_drain:
  assumes "tracker_ok (request_tracker s)" "shutting_down (request_tracker s)" "shutdown_phase s = Draining"
    and "resource_calls s = [Stop_Http False]" "0 \<le> close_timeout_ms c"
    and "deadline s = http_deadline s" "clock_ms s \<le> http_deadline s"
    and "drained \<Longrightarrow> active (request_tracker s) = 0"
  shows "shutdown_inv c (after_drain c drained s)"
  using assms by (auto simp: shutdown_simps after_drain_def start_call_def log_shutdown_def intro: exI [of _ False])

lemma inv_http_ended:
  assumes "shutdown_inv c s" "0 \<le> close_timeout_ms c" "shutdown_event_ok (Http_Stops out) s"
  shows "shutdown_inv c (http_stop_ended c out s)"
  using assms
  by (cases "shutdown_phase s")
    (auto simp: shutdown_simps http_stop_ended_def start_call_def log_shutdown_def Let_def split: if_splits intro: exI [of _ False])

lemma inv_call_ended:
  assumes "shutdown_inv c s" "0 \<le> close_timeout_ms c"
  shows "shutdown_inv c (call_ended c out s)"
  using assms
  by (cases "shutdown_phase s")
    (auto simp: shutdown_simps call_ended_def start_call_def log_shutdown_def split: if_splits intro: exI [of _ True] exI [of _ False])

lemma inv_shutdown:
  assumes inv: "shutdown_inv c s" and c: "0 \<le> grace_ms c" "0 \<le> close_timeout_ms c"
  shows "shutdown_inv c (shutdown c signal s)"
proof (cases "shutdown_phase s = Running")
  case False
  with inv show ?thesis by (simp add: shutdown_def)
next
  case True
  let ?k = "start_shutdown (request_tracker s)"
  have ok: "tracker_ok ?k" using inv by (simp add: shutdown_inv_def tracker_ok_shutdown)
  obtain w k where w: "wait_for_drain ?k = (w, k)" by fastforce
  have fields: "shutting_down k" "active k = active ?k"
    using w by (auto simp: wait_for_drain_def start_shutdown_def split: if_splits)
  from wait_for_drain_ok [OF ok] w have k: "tracker_ok k" "waits k ! w = (if active k = 0 then Some True else None)" "w < length (waits k)"
    using fields(2) by simp_all
  have calls: "resource_calls s = []" using inv True by (auto simp: shutdown_inv_def)
  define s1 where "s1 = log_shutdown [Log Log_Info ''shutdown.started''
      [(''signal'', Some (JString signal)), (''activeRequests'', Some (JInt (active ?k))), (''gracePeriodMs'', Some (JInt (grace_ms c)))]]
    s\<lparr>request_tracker := k, drain_wait := w, shutdown_phase := Draining, http_deadline := clock_ms s + grace_ms c,
      deadline := clock_ms s + grace_ms c, resource_calls := resource_calls s @ [Stop_Http False]\<rparr>"
  have s1: "request_tracker s1 = k" "shutdown_phase s1 = Draining" "drain_wait s1 = w" "resource_calls s1 = [Stop_Http False]"
    "deadline s1 = http_deadline s1" "clock_ms s1 \<le> http_deadline s1"
    using calls c by (simp_all add: s1_def log_shutdown_def)
  have eq: "shutdown c signal s = resume_drain c s1"
    using True w by (simp add: shutdown_def s1_def Let_def)
  show ?thesis
  proof (cases "active k = 0")
    case True
    with s1 k have "resume_drain c s1 = after_drain c True s1" by (simp add: resume_drain_def)
    with eq s1 k fields True c show ?thesis by (simp add: inv_after_drain)
  next
    case False
    with s1 k have "resume_drain c s1 = s1" by (simp add: resume_drain_def)
    with eq s1 k fields False show ?thesis by (auto simp: shutdown_simps)
  qed
qed

lemma inv_request_ends:
  assumes inv: "shutdown_inv c s" and c: "0 \<le> close_timeout_ms c" and h: "h < length (released (request_tracker s))"
  shows "shutdown_inv c (resume_drain c (s\<lparr>request_tracker := tracker_release h (request_tracker s)\<rparr>))"
proof -
  let ?k = "request_tracker s" and ?s = "s\<lparr>request_tracker := tracker_release h (request_tracker s)\<rparr>"
  have ok: "tracker_ok ?k" using inv by (simp add: shutdown_inv_def)
  note r = tracker_release_ok [OF ok h] and zero = active_zero_release [OF ok h]
  show ?thesis
  proof (cases "shutdown_phase s = Draining")
    case True
    with inv r(5) [of "drain_wait s"] have w: "waits (tracker_release h ?k) ! drain_wait s =
        (if active (tracker_release h ?k) = 0 then Some True else None)"
      by (auto simp: shutdown_inv_def)
    show ?thesis
    proof (cases "active (tracker_release h ?k) = 0")
      case True
      with w \<open>shutdown_phase s = Draining\<close> have "resume_drain c ?s = after_drain c True ?s" by (simp add: resume_drain_def)
      moreover have "shutdown_inv c (after_drain c True ?s)"
        by (rule inv_after_drain) (use True r(1,2) inv c \<open>shutdown_phase s = Draining\<close> in \<open>auto simp: shutdown_simps\<close>)
      ultimately show ?thesis by simp
    next
      case False
      with w \<open>shutdown_phase s = Draining\<close> have "resume_drain c ?s = ?s" by (simp add: resume_drain_def)
      with False w r inv \<open>shutdown_phase s = Draining\<close> show ?thesis by (auto simp: shutdown_simps)
    qed
  next
    case False
    then have "resume_drain c ?s = ?s" by (simp add: resume_drain_def)
    with False r zero inv show ?thesis by (auto simp: shutdown_simps)
  qed
qed

lemma inv_drain_timer:
  assumes inv: "shutdown_inv c s" and c: "0 \<le> close_timeout_ms c" and ph: "shutdown_phase s = Draining"
  shows "shutdown_inv c (resume_drain c (s\<lparr>request_tracker := finish_wait False (drain_wait s) (request_tracker s)\<rparr>))"
proof -
  let ?s = "s\<lparr>request_tracker := finish_wait False (drain_wait s) (request_tracker s)\<rparr>"
  have w: "drain_wait s < length (waits (request_tracker s))" "waits (request_tracker s) ! drain_wait s = None"
    using inv ph by (auto simp: shutdown_inv_def)
  then have "waits (request_tracker ?s) ! drain_wait s = Some False" by (simp add: finish_wait_def)
  with ph have "resume_drain c ?s = after_drain c False ?s" by (simp add: resume_drain_def)
  moreover have "tracker_ok (request_tracker ?s)" using inv w by (simp add: shutdown_inv_def tracker_ok_finish)
  moreover have "shutdown_inv c (after_drain c False ?s)"
    by (rule inv_after_drain) (use calculation(2) inv ph c in \<open>auto simp: shutdown_simps\<close>)
  ultimately show ?thesis by simp
qed

lemma shutdown_step_inv:
  assumes inv: "shutdown_inv c s" and c: "0 \<le> grace_ms c" "0 \<le> close_timeout_ms c" and ev: "shutdown_event_ok ev s"
  shows "shutdown_inv c (shutdown_step c ev s)"
  using ev
  by (cases ev)
    (simp_all add: shutdown_step_def inv_tick [OF inv] inv_shutdown [OF inv c] inv_begins [OF inv]
      inv_request_ends [OF inv c(2)] inv_drain_timer [OF inv c(2)] inv_http_ended [OF inv c(2)]
      inv_call_ended [OF inv c(2)] inv)

lemma shutdown_reachable_inv:
  assumes "shutdown_reachable c t0 s" "0 \<le> grace_ms c" "0 \<le> close_timeout_ms c"
  shows "shutdown_inv c s"
  using assms(1)
proof (induction rule: shutdown_reachable.induct)
  case initial
  show ?case by (simp add: new_shutdown_state_def shutdown_simps tracker_ok_new) (simp add: new_tracker_def)
next
  case (event s ev)
  then show ?case using assms(2,3) by (blast intro: shutdown_step_inv)
qed

text \<open>The forced stop comes only after the whole grace period.\<close>

definition forced_late :: "shutdown_state \<Rightarrow> bool" where
  "forced_late s \<longleftrightarrow> (forced_stop s \<longrightarrow> http_deadline s \<le> clock_ms s)"

lemma forced_late_simps:
  "forced_late (log_shutdown es s) = forced_late s"
  "call \<noteq> Stop_Http True \<Longrightarrow> forced_late (start_call c call ph s) = forced_late s"
  "forced_late (s\<lparr>request_tracker := k\<rparr>) = forced_late s"
  "http_deadline s \<le> clock_ms s \<Longrightarrow> forced_late (start_call c call ph s)"
  by (auto simp: forced_late_def forced_stop_def log_shutdown_def start_call_def)

lemma forced_late_after_drain:
  "forced_late s \<Longrightarrow> (\<not> drained \<Longrightarrow> http_deadline s \<le> clock_ms s) \<Longrightarrow> forced_late (after_drain c drained s)"
  by (auto simp: forced_late_def forced_stop_def log_shutdown_def start_call_def after_drain_def)

lemma forced_late_resume:
  assumes "forced_late s" "waits (request_tracker s) ! drain_wait s \<noteq> Some False"
  shows "forced_late (resume_drain c s)"
  using assms by (auto simp: resume_drain_def intro: forced_late_after_drain split: option.splits)

lemma forced_late_step:
  assumes inv: "shutdown_inv c s" and late: "forced_late s" and ev: "shutdown_event_ok ev s"
  shows "forced_late (shutdown_step c ev s)"
proof (cases ev)
  case (Tick t)
  with late ev show ?thesis by (auto simp: shutdown_step_def forced_late_def forced_stop_def)
next
  case (Signal signal)
  show ?thesis
  proof (cases "shutdown_phase s = Running")
    case False
    with Signal late show ?thesis by (simp add: shutdown_step_def shutdown_def)
  next
    case True
    then have "resource_calls s = []" using inv by (auto simp: shutdown_inv_def)
    with True Signal show ?thesis
      by (auto simp: shutdown_step_def shutdown_def Let_def wait_for_drain_def start_shutdown_def log_shutdown_def
          forced_late_def forced_stop_def nth_append intro!: forced_late_resume [unfolded forced_late_def forced_stop_def, rule_format])
  qed
next
  case (Request_Ends h)
  show ?thesis
  proof (cases "shutdown_phase s = Draining")
    case True
    with inv have k: "tracker_ok (request_tracker s)" "drain_wait s < length (waits (request_tracker s))"
      "waits (request_tracker s) ! drain_wait s = None" by (auto simp: shutdown_inv_def)
    from tracker_release_ok(5) [OF k(1) _ k(2), of h] k(3) ev Request_Ends
    show ?thesis using late by (simp add: shutdown_step_def forced_late_resume forced_late_simps)
  next
    case False
    with Request_Ends late show ?thesis by (simp add: shutdown_step_def resume_drain_def forced_late_simps)
  qed
next
  case Drain_Timer
  with late ev inv show ?thesis
    by (auto simp: shutdown_step_def resume_drain_def forced_late_simps shutdown_inv_def finish_wait_def
        intro!: forced_late_after_drain split: option.splits)
next
  case (Http_Stops out)
  with late show ?thesis
    by (auto simp: shutdown_step_def http_stop_ended_def Let_def forced_late_def forced_stop_def log_shutdown_def start_call_def)
next
  case (Call_Ends out)
  with late show ?thesis
    by (auto simp: shutdown_step_def call_ended_def forced_late_def forced_stop_def log_shutdown_def start_call_def
        split: shutdown_phase.splits)
qed (use late in \<open>simp_all add: shutdown_step_def forced_late_simps\<close>)

section \<open>Properties\<close>

text \<open>Firing the timer that is due next, and nothing else.\<close>

definition next_timer :: "shutdown_state \<Rightarrow> shutdown_event list" where
  "next_timer s =
     (if \<not> timer_set s then []
      else if http_pending s \<and> http_deadline s \<le> deadline s then [Tick (http_deadline s), Http_Stops Call_Timed_Out]
      else [Tick (deadline s), if shutdown_phase s = Draining then Drain_Timer else Call_Ends Call_Timed_Out])"

definition fire_timer :: "shutdown_config \<Rightarrow> shutdown_state \<Rightarrow> shutdown_state" where
  "fire_timer c s = fold (shutdown_step c) (next_timer s) s"

fun phase_rank :: "shutdown_phase \<Rightarrow> nat" where
  "phase_rank Draining = 4"
| "phase_rank Forcing_Http = 3"
| "phase_rank Awaiting_Http = 2"
| "phase_rank Closing_Redis = 2"
| "phase_rank Closing_Postgres = 1"
| "phase_rank _ = 0"

definition shutdown_rank :: "shutdown_state \<Rightarrow> nat" where
  "shutdown_rank s = phase_rank (shutdown_phase s) + (if http_pending s then 1 else 0)"

lemma fire_timer_cases:
  assumes inv: "shutdown_inv c s" and t: "timer_set s"
  obtains (http) "fire_timer c s = http_stop_ended c Call_Timed_Out (s\<lparr>clock_ms := http_deadline s\<rparr>)"
      "http_pending s" "http_deadline s \<le> deadline s" "next_timer s = [Tick (http_deadline s), Http_Stops Call_Timed_Out]"
    | (drain) "fire_timer c s = after_drain c False (s\<lparr>clock_ms := deadline s,
        request_tracker := finish_wait False (drain_wait s) (request_tracker s)\<rparr>)"
      "shutdown_phase s = Draining" "next_timer s = [Tick (deadline s), Drain_Timer]" "http_pending s \<longrightarrow> deadline s \<le> http_deadline s"
    | (call) "fire_timer c s = call_ended c Call_Timed_Out (s\<lparr>clock_ms := deadline s\<rparr>)"
      "shutdown_phase s \<in> {Forcing_Http, Closing_Redis, Closing_Postgres}"
      "next_timer s = [Tick (deadline s), Call_Ends Call_Timed_Out]" "http_pending s \<longrightarrow> deadline s \<le> http_deadline s"
proof (cases "http_pending s \<and> http_deadline s \<le> deadline s")
  case True
  with t have "next_timer s = [Tick (http_deadline s), Http_Stops Call_Timed_Out]" by (simp add: next_timer_def)
  with True http show thesis by (simp add: fire_timer_def shutdown_step_def)
next
  case False
  then have early: "http_pending s \<longrightarrow> deadline s \<le> http_deadline s" by auto
  show thesis
  proof (cases "shutdown_phase s = Draining")
    case True
    with t False have n: "next_timer s = [Tick (deadline s), Drain_Timer]" by (simp add: next_timer_def)
    have "waits (finish_wait False (drain_wait s) (request_tracker s)) ! drain_wait s = Some False"
      using inv True by (simp add: shutdown_inv_def finish_wait_def)
    with n True early drain show thesis by (simp add: fire_timer_def shutdown_step_def resume_drain_def)
  next
    case not_draining: False
    then have n: "next_timer s = [Tick (deadline s), Call_Ends Call_Timed_Out]" using t False by (simp add: next_timer_def)
    have "shutdown_phase s \<noteq> Awaiting_Http" using inv False t by (auto simp: shutdown_inv_def http_pending_def)
    then have "shutdown_phase s \<in> {Forcing_Http, Closing_Redis, Closing_Postgres}"
      using t not_draining by (cases "shutdown_phase s") (simp_all add: timer_set_def)
    with n early call show thesis by (simp add: fire_timer_def shutdown_step_def)
  qed
qed

lemma fire_timer_reachable:
  assumes r: "shutdown_reachable c t0 s" and c: "0 \<le> grace_ms c" "0 \<le> close_timeout_ms c" and t: "timer_set s"
  shows "shutdown_reachable c t0 (fire_timer c s)"
proof -
  note inv = shutdown_reachable_inv [OF r c]
  have two: "shutdown_reachable c t0 (fire_timer c s)"
    if "next_timer s = [Tick u, e]" "shutdown_event_ok (Tick u) s" "shutdown_event_ok e (s\<lparr>clock_ms := u\<rparr>)" for u e
  proof -
    have "shutdown_reachable c t0 (s\<lparr>clock_ms := u\<rparr>)"
      using shutdown_reachable.event [OF r that(2)] by (simp add: shutdown_step_def)
    from shutdown_reachable.event [OF this that(3)] that(1) show ?thesis by (simp add: fire_timer_def shutdown_step_def)
  qed
  have "clock_ms s \<le> deadline s" "http_pending s \<longrightarrow> clock_ms s \<le> http_deadline s" using inv t by (simp_all add: shutdown_inv_def)
  note times = this
  from inv t show ?thesis
  proof (cases rule: fire_timer_cases)
    case http
    then show ?thesis using times by (intro two [OF http(4)]) simp_all
  next
    case drain
    then show ?thesis using times by (intro two [OF drain(3)]) simp_all
  next
    case call
    then show ?thesis using times by (intro two [OF call(3)]) simp_all
  qed
qed

lemma fire_timer_progress:
  assumes inv: "shutdown_inv c s" and c: "0 \<le> close_timeout_ms c" and t: "timer_set s"
  shows "shutdown_rank (fire_timer c s) < shutdown_rank s" "http_deadline (fire_timer c s) = http_deadline s"
    "shutdown_phase (fire_timer c s) \<noteq> Running"
    "clock_ms (fire_timer c s) \<le> http_deadline s + 3 * close_timeout_ms c"
proof -
  have slack: "deadline_slack (shutdown_phase s) * close_timeout_ms c \<le> 3 * close_timeout_ms c"
    using c by (cases "shutdown_phase s") auto
  have "deadline s \<le> http_deadline s + deadline_slack (shutdown_phase s) * close_timeout_ms c"
    using inv t by (simp add: shutdown_inv_def)
  with slack have b: "deadline s \<le> http_deadline s + 3 * close_timeout_ms c" by linarith
  have running: "shutdown_phase s \<noteq> Running" using t by (simp add: timer_set_def)
  have "shutdown_rank (fire_timer c s) < shutdown_rank s \<and> http_deadline (fire_timer c s) = http_deadline s \<and>
    shutdown_phase (fire_timer c s) \<noteq> Running \<and> clock_ms (fire_timer c s) \<le> http_deadline s + 3 * close_timeout_ms c"
    using inv t
  proof (cases rule: fire_timer_cases)
    case http
    then show ?thesis using running c
      by (cases "shutdown_phase s = Awaiting_Http")
        (simp_all add: http_stop_ended_def start_call_def log_shutdown_def Let_def shutdown_rank_def http_pending_def)
  next
    case drain
    then show ?thesis using b
      by (simp add: after_drain_def start_call_def log_shutdown_def shutdown_rank_def http_pending_def)
  next
    case call
    then show ?thesis using b
      by (auto simp: call_ended_def start_call_def log_shutdown_def shutdown_rank_def http_pending_def)
  qed
  then show "shutdown_rank (fire_timer c s) < shutdown_rank s" "http_deadline (fire_timer c s) = http_deadline s"
    "shutdown_phase (fire_timer c s) \<noteq> Running"
    "clock_ms (fire_timer c s) \<le> http_deadline s + 3 * close_timeout_ms c" by simp_all
qed

lemma timers_stop:
  assumes c: "0 \<le> grace_ms c" "0 \<le> close_timeout_ms c"
  shows "shutdown_reachable c t0 s \<Longrightarrow> timer_set s \<Longrightarrow>
    \<exists>n \<le> shutdown_rank s. shutdown_reachable c t0 ((fire_timer c ^^ n) s) \<and> shutdown_phase ((fire_timer c ^^ n) s) = Stopped \<and>
      clock_ms ((fire_timer c ^^ n) s) \<le> http_deadline s + 3 * close_timeout_ms c"
proof (induction "shutdown_rank s" arbitrary: s rule: less_induct)
  case less
  note p = fire_timer_progress [OF shutdown_reachable_inv [OF less.prems(1) c] c(2) less.prems(2)]
    and r = fire_timer_reachable [OF less.prems(1) c less.prems(2)]
  show ?case
  proof (cases "shutdown_phase (fire_timer c s) = Stopped")
    case True
    with p r show ?thesis by (intro exI [of _ 1]) simp
  next
    case False
    with p(3) have "timer_set (fire_timer c s)" by (simp add: timer_set_def)
    from less.hyps [OF p(1) r this] p(1,2) obtain n where "n \<le> shutdown_rank (fire_timer c s)"
      "shutdown_reachable c t0 ((fire_timer c ^^ n) (fire_timer c s))" "shutdown_phase ((fire_timer c ^^ n) (fire_timer c s)) = Stopped"
      "clock_ms ((fire_timer c ^^ n) (fire_timer c s)) \<le> http_deadline s + 3 * close_timeout_ms c" by auto
    with p(1) show ?thesis by (intro exI [of _ "Suc n"]) (simp add: funpow_swap1)
  qed
qed

lemma new_shutdown_coordinator_Inr:
  "new_shutdown_coordinator g r = Inr c \<Longrightarrow> 1 \<le> grace_ms c \<and> 1 \<le> close_timeout_ms c"
  by (auto simp: new_shutdown_coordinator_def split: if_splits dest!: safe_at_least)


definition shutdown_run :: "shutdown_event list" where
  "shutdown_run = [Request_Begins, Request_Begins, Signal ''SIGTERM'', Request_Ends 0, Signal ''SIGINT'', Tick 15000, Drain_Timer,
     Http_Stops Call_Completed, Call_Ends Call_Completed, Call_Ends Call_Failed]"

definition default_shutdown :: shutdown_config where
  "default_shutdown = \<lparr>grace_ms = 15000, close_timeout_ms = 1000\<rparr>"

lemma default_shutdown_valid: "new_shutdown_coordinator (js_int 15000) (js_int 1000) = Inr default_shutdown"
  by (simp add: new_shutdown_coordinator_def default_shutdown_def max_safe_integer_def)

text \<open>A run as a list of events, each allowed where it happens.\<close>

fun events_ok :: "shutdown_config \<Rightarrow> shutdown_event list \<Rightarrow> shutdown_state \<Rightarrow> bool" where
  "events_ok c [] s = True"
| "events_ok c (e # es) s = (shutdown_event_ok e s \<and> events_ok c es (shutdown_step c e s))"

lemma shutdown_reachable_fold:
  "shutdown_reachable c t0 s \<Longrightarrow> events_ok c es s \<Longrightarrow> shutdown_reachable c t0 (fold (shutdown_step c) es s)"
  by (induction es arbitrary: s) (auto intro: shutdown_reachable.event)

lemmas shutdown_eval = shutdown_step_def shutdown_def Let_def start_shutdown_def wait_for_drain_def resume_drain_def
  tracker_begin_def tracker_release_def finish_wait_def after_drain_def start_call_def log_shutdown_def
  http_stop_ended_def call_ended_def new_shutdown_state_def new_tracker_def timer_set_def http_pending_def default_shutdown_def

lemma shutdown_run_reachable:
  "shutdown_reachable default_shutdown 0 (fold (shutdown_step default_shutdown) shutdown_run (new_shutdown_state 0))"
  by (rule shutdown_reachable_fold [OF shutdown_reachable.initial]) (simp add: shutdown_run_def shutdown_eval)

lemma shutdown_run_end:
  "let s = fold (shutdown_step default_shutdown) shutdown_run (new_shutdown_state 0) in
    resource_calls s = [Stop_Http False, Stop_Http True, Close_Redis, Close_Postgres] \<and> shutdown_phase s = Closing_Postgres \<and>
    http_deadline s = 15000 \<and> active (request_tracker s) = 1"
  by (simp add: shutdown_run_def shutdown_eval)


text \<open>
  C29: the shutdown always ends: while it is in progress no more than the grace period and three
  close timeouts have passed since the signal, and from any such state the timers alone, at most
  five of them, bring it to its end within that time, even if no request ever finishes and neither
  the server nor Redis nor Postgres ever answers.
\<close>
theorem shutdown_completes:
  assumes "new_shutdown_coordinator g r = Inr c" "shutdown_reachable c t0 s" "timer_set s"
  shows "clock_ms s \<le> http_deadline s + 3 * close_timeout_ms c \<and>
    (\<exists>n \<le> 5. shutdown_reachable c t0 ((fire_timer c ^^ n) s) \<and> shutdown_phase ((fire_timer c ^^ n) s) = Stopped \<and>
       clock_ms ((fire_timer c ^^ n) s) \<le> http_deadline s + 3 * close_timeout_ms c) \<and>
    (\<forall>s0 signal. shutdown_phase s0 = Running \<longrightarrow> http_deadline (shutdown c signal s0) = clock_ms s0 + grace_ms c)"
proof -
  have c: "0 \<le> grace_ms c" "0 \<le> close_timeout_ms c" using new_shutdown_coordinator_Inr [OF assms(1)] by simp_all
  note inv = shutdown_reachable_inv [OF assms(2) c]
  have "deadline_slack (shutdown_phase s) * close_timeout_ms c \<le> 3 * close_timeout_ms c"
    using c by (cases "shutdown_phase s") auto
  with inv assms(3) have clock: "clock_ms s \<le> http_deadline s + 3 * close_timeout_ms c" by (simp add: shutdown_inv_def)
  have rank: "shutdown_rank s \<le> 5" by (cases "shutdown_phase s") (simp_all add: shutdown_rank_def)
  have "http_deadline (shutdown c signal s0) = clock_ms s0 + grace_ms c" if "shutdown_phase s0 = Running" for signal s0
    using that by (auto simp: shutdown_def Let_def resume_drain_def after_drain_def start_call_def log_shutdown_def
        split: prod.splits option.splits)
  moreover obtain n where "n \<le> shutdown_rank s" "shutdown_reachable c t0 ((fire_timer c ^^ n) s)"
    "shutdown_phase ((fire_timer c ^^ n) s) = Stopped"
    "clock_ms ((fire_timer c ^^ n) s) \<le> http_deadline s + 3 * close_timeout_ms c"
    using timers_stop [OF c assms(2,3)] by blast
  moreover from this(1) rank have "n \<le> 5" by (rule le_trans)
  ultimately show ?thesis using clock by blast
qed

definition stuck_run :: "shutdown_event list" where
  "stuck_run = [Request_Begins, Tick 100, Signal ''SIGTERM'']"

theorem shutdown_completes_witness:
  "\<exists>n \<le> 5. let s = (fire_timer default_shutdown ^^ n) (fold (shutdown_step default_shutdown) stuck_run (new_shutdown_state 0)) in
    shutdown_phase s = Stopped \<and> clock_ms s \<le> 18100"
proof -
  let ?s = "fold (shutdown_step default_shutdown) stuck_run (new_shutdown_state 0)"
  have r: "shutdown_reachable default_shutdown 0 ?s"
    by (rule shutdown_reachable_fold [OF shutdown_reachable.initial]) (simp add: stuck_run_def shutdown_eval)
  have t: "timer_set ?s" and d: "http_deadline ?s = 15100" by (simp_all add: stuck_run_def shutdown_eval)
  from shutdown_completes [OF default_shutdown_valid r t] d show ?thesis by (auto simp: Let_def default_shutdown_def)
qed

end
