(* ===== verification/Readiness.thy ===== *)
theory Readiness
  imports Js_Number Logger
begin

text \<open>
  \<^verbatim>\<open>src/src/infrastructure/operability/readiness.ts\<close>: the probes of Postgres and Redis, each raced
  against a timer, and the answer made of them.  A probe is what its promise does and after how
  many milliseconds; one that settles in the millisecond of its timeout counts as late.
\<close>

datatype readiness_status = Ready | Degraded | Not_Ready

datatype probe = Probe_Resolves int | Probe_Rejects int | Probe_Hangs

definition new_readiness_service :: "js_number \<Rightarrow> int result" where
  "new_readiness_service timeout_ms =
     (if \<not> is_safe_integer timeout_ms \<or> js_less timeout_ms (js_int 1)
      then Inl (Plain_Error ''Readiness timeout must be a positive safe integer'') else Inr (integer_of timeout_ms))"

text \<open>\<open>probe\<close>: the result and the time it takes.\<close>

fun run_probe :: "int \<Rightarrow> probe \<Rightarrow> bool \<times> int" where
  "run_probe timeout (Probe_Resolves d) = (if d < timeout then (True, d) else (False, timeout))"
| "run_probe timeout (Probe_Rejects d) = (False, min d timeout)"
| "run_probe timeout Probe_Hangs = (False, timeout)"

definition readiness_check :: "int \<Rightarrow> bool \<Rightarrow> probe \<Rightarrow> probe \<Rightarrow> readiness_status \<times> effect list \<times> int" where
  "readiness_check timeout is_shutting_down postgres redis =
     (if is_shutting_down then (Not_Ready, [], 0)
      else
        (let (postgres_ready, t1) = run_probe timeout postgres in
         if \<not> postgres_ready
         then (Not_Ready, [Metric (Database_Error ''readiness''), Log Log_Error ''database.error'' [(''operation'', Some (JString ''readiness''))]], t1)
         else
           (let (redis_ready, t2) = run_probe timeout redis in
            if \<not> redis_ready
            then (Degraded, [Metric (Redis_Error ''readiness''), Log Log_Warn ''redis.error'' [(''operation'', Some (JString ''readiness''))]], t1 + t2)
            else (Ready, [], t1 + t2))))"

fun delay_ok :: "probe \<Rightarrow> bool" where
  "delay_ok (Probe_Resolves d) \<longleftrightarrow> 0 \<le> d"
| "delay_ok (Probe_Rejects d) \<longleftrightarrow> 0 \<le> d"
| "delay_ok Probe_Hangs \<longleftrightarrow> True"

fun in_time :: "int \<Rightarrow> probe \<Rightarrow> bool" where
  "in_time timeout (Probe_Resolves d) \<longleftrightarrow> d < timeout"
| "in_time timeout _ \<longleftrightarrow> False"

lemma run_probe_time: "delay_ok p \<Longrightarrow> 1 \<le> timeout \<Longrightarrow> 0 \<le> snd (run_probe timeout p) \<and> snd (run_probe timeout p) \<le> timeout"
  by (cases p) auto

lemma run_probe_result: "fst (run_probe timeout p) \<longleftrightarrow> in_time timeout p"
  by (cases p) auto



end
