(* ===== verification/Redis_Executor.thy ===== *)
theory Redis_Executor
  imports Js_Number Domain
begin

text \<open>
  \<^verbatim>\<open>src/src/infrastructure/redis/redis-client.ts\<close>: \<open>RedisCommandExecutor\<close>.  Any number of
  \<open>execute\<close> calls are in progress; each races its operation, and before it the one shared attempt
  to connect, against its own timer.  A call that lost the race keeps running in the background.
  The client is what the events make of it: whether it is connected, when \<open>connect\<close> and the
  operations settle.
\<close>

datatype operation_phase = Awaiting_Connection | Operating | Ended

text \<open>\<open>answer\<close> is the promise of \<open>execute\<close>; \<open>invoked\<close> counts the calls of its operation.\<close>

record 'r redis_execution =
  operation_phase :: operation_phase
  answer :: "'r result option"
  due_ms :: int
  invoked :: nat

record 'r redis_executor =
  timeout_ms :: int
  executor_clock :: int
  connected :: bool
  connecting :: bool
  connects :: nat
  connects_settled :: nat
  redis_executions :: "'r redis_execution list"

definition new_redis_executor :: "js_number \<Rightarrow> int \<Rightarrow> 'r redis_executor result" where
  "new_redis_executor timeout now =
     (if \<not> is_safe_integer timeout \<or> js_less timeout (js_int 1)
      then Inl (Plain_Error ''Redis command timeout must be a positive safe integer'')
      else Inr \<lparr>timeout_ms = integer_of timeout, executor_clock = now, connected = False, connecting = False,
        connects = 0, connects_settled = 0, redis_executions = []\<rparr>)"

definition begin_execute :: "'r redis_executor \<Rightarrow> 'r redis_executor" where
  "begin_execute x =
     (let ph = (if connected x then Operating else Awaiting_Connection);
          new = \<lparr>operation_phase = ph, answer = None, due_ms = executor_clock x + timeout_ms x,
                 invoked = (if connected x then 1 else 0)\<rparr>;
          x1 = (if connected x \<or> connecting x then x else x\<lparr>connecting := True, connects := connects x + 1\<rparr>)
      in x1\<lparr>redis_executions := redis_executions x @ [new]\<rparr>)"

text \<open>The race: the first to settle decides.\<close>

definition settle :: "'r result \<Rightarrow> 'r redis_execution \<Rightarrow> 'r redis_execution" where
  "settle a e = (if answer e = None then e\<lparr>answer := Some a\<rparr> else e)"

text \<open>The shared attempt settles: every call that awaits it goes on or fails with it.\<close>

definition connection_settled :: "unit result \<Rightarrow> 'r redis_execution \<Rightarrow> 'r redis_execution" where
  "connection_settled a e =
     (if operation_phase e \<noteq> Awaiting_Connection then e
      else case a of
        Inr _ \<Rightarrow> e\<lparr>operation_phase := Operating, invoked := invoked e + 1\<rparr>
      | Inl err \<Rightarrow> settle (Inl err) (e\<lparr>operation_phase := Ended\<rparr>))"

definition operation_settled :: "'r result \<Rightarrow> 'r redis_execution \<Rightarrow> 'r redis_execution" where
  "operation_settled a e = (if operation_phase e = Operating then settle a (e\<lparr>operation_phase := Ended\<rparr>) else e)"

datatype 'r executor_event =
    Time int
  | Execute
  | Client_Connected bool
  | Connect_Settles "unit result"
  | Operation_Settles nat "'r result"
  | Timer_Fires nat

definition update_execution :: "nat \<Rightarrow> ('r redis_execution \<Rightarrow> 'r redis_execution) \<Rightarrow> 'r redis_executor \<Rightarrow> 'r redis_executor" where
  "update_execution i f x =
     (if i < length (redis_executions x)
      then x\<lparr>redis_executions := (redis_executions x)[i := f (redis_executions x ! i)]\<rparr> else x)"

definition executor_step :: "'r executor_event \<Rightarrow> 'r redis_executor \<Rightarrow> 'r redis_executor" where
  "executor_step ev x =
     (case ev of
        Time t \<Rightarrow> x\<lparr>executor_clock := t\<rparr>
      | Execute \<Rightarrow> begin_execute x
      | Client_Connected b \<Rightarrow> x\<lparr>connected := b\<rparr>
      | Connect_Settles a \<Rightarrow>
          (if connecting x
           then x\<lparr>connecting := False, connects_settled := connects_settled x + 1,
                  redis_executions := map (connection_settled a) (redis_executions x)\<rparr> else x)
      | Operation_Settles i a \<Rightarrow> update_execution i (operation_settled a) x
      | Timer_Fires i \<Rightarrow> update_execution i (settle (Inl Redis_Operation_Timeout_Error)) x)"

text \<open>Time does not pass a timer that is still set, and a timer fires when it is due.\<close>

definition executor_event_ok :: "'r executor_event \<Rightarrow> 'r redis_executor \<Rightarrow> bool" where
  "executor_event_ok ev x \<longleftrightarrow>
     (case ev of
        Time t \<Rightarrow> executor_clock x \<le> t \<and> (\<forall>e \<in> set (redis_executions x). answer e = None \<longrightarrow> t \<le> due_ms e)
      | Timer_Fires i \<Rightarrow> i < length (redis_executions x) \<and> due_ms (redis_executions x ! i) \<le> executor_clock x
      | _ \<Rightarrow> True)"

inductive executor_reachable :: "'r redis_executor \<Rightarrow> 'r redis_executor \<Rightarrow> bool" for x0 where
  initial: "executor_reachable x0 x0"
| event: "executor_reachable x0 x \<Longrightarrow> executor_event_ok ev x \<Longrightarrow> executor_reachable x0 (executor_step ev x)"

text \<open>
  A call is still due, or answered; before its operation it waits for a connection attempt that is
  in flight; its operation has been invoked once if it has got that far.
\<close>

definition execution_ok :: "'r redis_executor \<Rightarrow> 'r redis_execution \<Rightarrow> bool" where
  "execution_ok x e \<longleftrightarrow>
     (answer e = None \<longrightarrow> executor_clock x \<le> due_ms e \<and> operation_phase e \<noteq> Ended) \<and>
     (operation_phase e = Awaiting_Connection \<longrightarrow> connecting x \<and> invoked e = 0) \<and>
     (operation_phase e = Operating \<longrightarrow> invoked e = 1) \<and> invoked e \<le> 1 \<and>
     (\<forall>r. answer e = Some (Inr r) \<longrightarrow> invoked e = 1)"

definition executor_ok :: "'r redis_executor \<Rightarrow> bool" where
  "executor_ok x \<longleftrightarrow> 1 \<le> timeout_ms x \<and> connects x = connects_settled x + (if connecting x then 1 else 0) \<and>
     list_all (execution_ok x) (redis_executions x)"

lemma update_execution_ok:
  assumes "executor_ok x" and "\<And>e. execution_ok x e \<Longrightarrow> execution_ok x (f e)"
  shows "executor_ok (update_execution i f x)"
proof -
  have "execution_ok (update_execution i f x) = execution_ok x"
    by (simp add: fun_eq_iff execution_ok_def update_execution_def)
  moreover have "list_all (execution_ok x) (redis_executions (update_execution i f x))"
    using assms by (auto simp: executor_ok_def update_execution_def list_all_length nth_list_update)
  ultimately show ?thesis using assms(1) by (simp add: executor_ok_def) (simp add: update_execution_def)
qed

lemma executor_step_ok:
  assumes ok: "executor_ok x" and ev: "executor_event_ok ev x"
  shows "executor_ok (executor_step ev x)"
proof (cases ev)
  case (Time t)
  with ok ev show ?thesis
    by (auto simp: executor_ok_def executor_step_def executor_event_ok_def execution_ok_def list_all_iff)
next
  case Execute
  with ok show ?thesis
    by (auto simp: executor_ok_def executor_step_def begin_execute_def Let_def execution_ok_def list_all_iff)
next
  case (Client_Connected b)
  with ok show ?thesis by (auto simp: executor_ok_def executor_step_def execution_ok_def list_all_iff)
next
  case (Connect_Settles a)
  with ok show ?thesis
    by (cases a) (auto simp: executor_ok_def executor_step_def execution_ok_def list_all_iff connection_settled_def settle_def)
next
  case (Operation_Settles i a)
  have "execution_ok x (operation_settled a e)" if "execution_ok x e" for e
    using that by (auto simp: execution_ok_def operation_settled_def settle_def)
  with ok Operation_Settles show ?thesis by (simp add: executor_step_def update_execution_ok)
next
  case (Timer_Fires i)
  have "execution_ok x (settle (Inl Redis_Operation_Timeout_Error) e)" if "execution_ok x e" for e
    using that by (auto simp: execution_ok_def settle_def)
  with ok Timer_Fires show ?thesis by (simp add: executor_step_def update_execution_ok)
qed

lemma executor_reachable_ok: "executor_reachable x0 x \<Longrightarrow> executor_ok x0 \<Longrightarrow> executor_ok x"
  by (induction rule: executor_reachable.induct) (auto intro: executor_step_ok)


definition demo_executor :: "nat redis_executor" where
  "demo_executor = \<lparr>timeout_ms = 250, executor_clock = 0, connected = False, connecting = False,
     connects = 0, connects_settled = 0, redis_executions = []\<rparr>"

definition demo_executor_run :: "nat executor_event list" where
  "demo_executor_run = [Execute, Time 100, Execute, Time 250, Timer_Fires 0, Connect_Settles (Inr ()), Operation_Settles 1 (Inr 7)]"


end
