(* ===== verification/Authenticator.thy ===== *)
theory Authenticator
  imports Redis
begin

text \<open>
  \<^verbatim>\<open>src/src/http/security/service-authenticator.ts\<close>: the credentials the service starts with, and
  the authentication of an API key against them.  SHA-256 is a parameter; \<open>timingSafeEqual\<close> is
  equality (of two byte strings of the same length).
\<close>

section \<open>Credentials\<close>

record service_credential =
  service_id :: string
  api_key_sha256 :: string

record stored_credential =
  stored_id :: string
  stored_digest :: "byte list"

text \<open>\<open>/^[A-Za-z0-9][A-Za-z0-9_-]{0,63}$/\<close> and \<open>/^[a-f0-9]{64}$/\<close>.\<close>

definition is_service_id :: "string \<Rightarrow> bool" where
  "is_service_id s =
     (case s of
        [] \<Rightarrow> False
      | c # cs \<Rightarrow> (is_alpha c \<or> is_digit c) \<and> length cs \<le> 63 \<and>
          list_all (\<lambda>d. is_alpha d \<or> is_digit d \<or> d = CHR ''_'' \<or> d = CHR ''-'') cs)"

definition is_sha256_hex :: "string \<Rightarrow> bool" where
  "is_sha256_hex s \<longleftrightarrow> length s = 64 \<and> list_all is_lower_hex s"

text \<open>\<open>Buffer.from(s, "hex")\<close>: pairs of digits up to the first that is none.\<close>

fun hex_decode :: "string \<Rightarrow> byte list" where
  "hex_decode (c # d # s) =
     (case (hex_value c, hex_value d) of
        (Some x, Some y) \<Rightarrow> of_nat (16 * x + y) # hex_decode s
      | _ \<Rightarrow> [])"
| "hex_decode _ = []"

definition hash_api_key :: "(byte list \<Rightarrow> byte list) \<Rightarrow> string \<Rightarrow> string" where
  "hash_api_key sha256 api_key = hex_encode (sha256 (utf8_encode api_key))"

text \<open>The \<open>map\<close> of the constructor, with the identifiers and hashes seen so far.\<close>

fun load_credentials :: "string list \<Rightarrow> string list \<Rightarrow> service_credential list \<Rightarrow> stored_credential list result" where
  "load_credentials ids hashes [] = Inr []"
| "load_credentials ids hashes (c # cs) =
     (let hash = to_lower (api_key_sha256 c) in
      if \<not> is_service_id (service_id c) \<or> \<not> is_sha256_hex hash \<or> service_id c \<in> set ids \<or> hash \<in> set hashes
      then Inl (Plain_Error ''Service credential configuration is invalid'')
      else r_bind (load_credentials (service_id c # ids) (hash # hashes) cs)
             (\<lambda>rest. Inr (\<lparr>stored_id = service_id c, stored_digest = hex_decode hash\<rparr> # rest)))"

definition new_sha256_authenticator :: "service_credential list \<Rightarrow> stored_credential list result" where
  "new_sha256_authenticator cs =
     (if cs = [] then Inl (Plain_Error ''At least one service credential is required'') else load_credentials [] [] cs)"

text \<open>The loop does not stop at a match.\<close>

definition authenticate_key :: "(byte list \<Rightarrow> byte list) \<Rightarrow> stored_credential list \<Rightarrow> string \<Rightarrow> string option" where
  "authenticate_key sha256 stored api_key =
     (let candidate = hex_decode (hash_api_key sha256 api_key) in
      foldl (\<lambda>found c. if candidate = stored_digest c then Some (stored_id c) else found) None stored)"

section \<open>Hexadecimal both ways\<close>

lemma lower_hex_digit:
  assumes "is_lower_hex c"
  obtains d where "d < 16" "c = hex_digit d"
proof -
  have "code c < 256" by simp
  then consider "code c - 48 < 10" "c = hex_digit (code c - 48)" | "code c - 87 < 16" "c = hex_digit (code c - 87)"
    using assms by (auto simp: is_lower_hex_def hex_digit_def code_inject [symmetric] simp del: code_inject)
  then show thesis using that by (cases; fastforce)
qed

lemma hex_decode_encode: "hex_decode (hex_encode bs) = bs"
proof (induction bs)
  case (Cons b bs)
  have "16 * (unat b div 16) + unat b mod 16 = unat b" by simp
  then have "(of_nat (16 * (unat b div 16) + unat b mod 16) :: byte) = b" by (simp only:) simp
  with Cons show ?case
    by (simp add: hex_encode_hex_byte hex_byte_digits hex_value_hex_digit unat_byte_digits)
qed (simp add: hex_encode_hex_byte)

lemma hex_encode_decode: "list_all is_lower_hex s \<Longrightarrow> even (length s) \<Longrightarrow> hex_encode (hex_decode s) = s"
proof (induction s rule: hex_decode.induct)
  case (1 c d s)
  then obtain x y where "x < 16" "c = hex_digit x" "y < 16" "d = hex_digit y"
    by (metis list.pred_inject(2) lower_hex_digit)
  moreover from this have "unat (of_nat (16 * x + y) :: byte) = 16 * x + y" by (intro unat_byte_of_nat) simp
  ultimately show ?case using 1
    by (simp add: hex_encode_hex_byte hex_byte_digits hex_value_hex_digit del: of_nat_add of_nat_mult)
qed (simp_all add: hex_encode_hex_byte)

lemma sha256_hex_eq: "is_sha256_hex h \<Longrightarrow> hex_decode (hash_api_key sha256 k) = hex_decode h \<longleftrightarrow> hash_api_key sha256 k = h"
  using hex_encode_decode [of h] unfolding is_sha256_hex_def hash_api_key_def
  by (metis even_numeral hex_decode_encode)

section \<open>Loading\<close>

definition credential_ok :: "service_credential \<Rightarrow> bool" where
  "credential_ok c \<longleftrightarrow> is_service_id (service_id c) \<and> is_sha256_hex (to_lower (api_key_sha256 c))"

definition stored_of :: "service_credential \<Rightarrow> stored_credential" where
  "stored_of c = \<lparr>stored_id = service_id c, stored_digest = hex_decode (to_lower (api_key_sha256 c))\<rparr>"

lemma load_credentials_Inr:
  "load_credentials ids hashes cs = Inr stored \<longleftrightarrow>
     stored = map stored_of cs \<and> list_all credential_ok cs \<and>
     distinct (map service_id cs) \<and> distinct (map (\<lambda>c. to_lower (api_key_sha256 c)) cs) \<and>
     set (map service_id cs) \<inter> set ids = {} \<and> set (map (\<lambda>c. to_lower (api_key_sha256 c)) cs) \<inter> set hashes = {}"
  by (induction cs arbitrary: ids hashes stored)
    (auto simp: Let_def r_bind_Inr_iff credential_ok_def stored_of_def)

lemma foldl_last_match:
  "foldl (\<lambda>found c. if P (g c) then Some (f c) else found) found cs = Some i \<Longrightarrow>
    found = Some i \<or> (\<exists>c \<in> set cs. P (g c) \<and> f c = i)"
proof (induction cs arbitrary: found)
  case (Cons a cs)
  from Cons.IH [of "if P (g a) then Some (f a) else found"] Cons.prems show ?case by (auto split: if_splits)
qed simp

lemma foldl_match:
  "c \<in> set cs \<Longrightarrow> P (g c) \<Longrightarrow> distinct (map g cs) \<Longrightarrow> (\<And>x y. P x \<Longrightarrow> P y \<Longrightarrow> x = y) \<Longrightarrow>
    foldl (\<lambda>found c. if P (g c) then Some (f c) else found) found cs = Some (f c)"
proof (induction cs arbitrary: found)
  case (Cons d cs)
  have none: "foldl (\<lambda>found c. if P (g c) then Some (f c) else found) x ds = x" if "\<forall>c \<in> set ds. \<not> P (g c)" for x ds
    using that by (induction ds arbitrary: x) auto
  show ?case
  proof (cases "P (g d)")
    case True
    with Cons.prems have "g d = g c" by blast
    with Cons.prems have "d = c" by (auto simp: image_iff)
    moreover have "\<forall>e \<in> set cs. \<not> P (g e)" using Cons.prems True by (force simp: image_iff)
    ultimately show ?thesis using True none by simp
  next
    case False
    with Cons show ?thesis by auto
  qed
qed simp

section \<open>Property\<close>

text \<open>
  C32: an authenticator that could be built accepts an API key for a service exactly when the
  credentials give that service the SHA-256 of the key, in either case of the hexadecimal digits:
  no key is accepted for two services, and nothing else is accepted.
\<close>
theorem authenticate_exact:
  assumes "new_sha256_authenticator cs = Inr stored"
  shows "(authenticate_key sha256 stored key = Some i \<longleftrightarrow>
      (\<exists>c \<in> set cs. service_id c = i \<and> to_lower (api_key_sha256 c) = hash_api_key sha256 key)) \<and>
    cs \<noteq> [] \<and> list_all credential_ok cs"
proof -
  from assms have l: "load_credentials [] [] cs = Inr stored" "cs \<noteq> []"
    by (simp_all add: new_sha256_authenticator_def split: if_splits)
  then have s: "stored = map stored_of cs" "list_all credential_ok cs" "distinct (map (\<lambda>c. to_lower (api_key_sha256 c)) cs)"
    by (simp_all add: load_credentials_Inr)
  let ?h = "\<lambda>c. to_lower (api_key_sha256 c)" and ?P = "\<lambda>h. h = hash_api_key sha256 key"
  have eq: "hex_decode (hash_api_key sha256 key) = hex_decode (?h c) \<longleftrightarrow> ?P (?h c)" if "c \<in> set cs" for c
    using s(2) that sha256_hex_eq [of "?h c"] by (auto simp: list_all_iff credential_ok_def)
  have "authenticate_key sha256 stored key = foldl (\<lambda>found c. if ?P (?h c) then Some (service_id c) else found) None cs"
    unfolding authenticate_key_def s(1) Let_def foldl_map
    by (rule foldl_cong) (simp_all add: stored_of_def eq)
  moreover have "foldl (\<lambda>found c. if ?P (?h c) then Some (service_id c) else found) None cs = Some i \<longleftrightarrow>
      (\<exists>c \<in> set cs. service_id c = i \<and> ?P (?h c))"
    using foldl_last_match [of ?P ?h service_id None cs i] foldl_match [of _ cs ?P ?h service_id None] s(3) by blast
  ultimately show ?thesis using l(2) s(2) by simp
qed

definition demo_credential :: service_credential where
  "demo_credential = \<lparr>service_id = ''billing'', api_key_sha256 = replicate 64 (CHR ''A'')\<rparr>"

theorem authenticate_exact_witness:
  "authenticate_key (\<lambda>_. replicate 32 170) [stored_of demo_credential] ''key'' = Some ''billing''"
proof -
  have h: "to_lower (replicate 64 (CHR ''A'')) = replicate 64 (CHR ''a'')" by code_simp
  have "is_sha256_hex (replicate 64 (CHR ''a''))" "is_service_id ''billing''" by code_simp+
  then have "new_sha256_authenticator [demo_credential] = Inr [stored_of demo_credential]"
    by (simp add: new_sha256_authenticator_def load_credentials_Inr demo_credential_def credential_ok_def stored_of_def h)
  moreover have "hash_api_key (\<lambda>_. replicate 32 170) ''key'' = replicate 64 (CHR ''a'')"
    by (simp add: hash_api_key_def hex_encode_170)
  ultimately show ?thesis
    using authenticate_exact [of "[demo_credential]" _ "\<lambda>_. replicate 32 170" "''key''" "''billing''"] h
    by (simp add: demo_credential_def)
qed

end
