(* ===== verification/Config.thy ===== *)
theory Config
  imports Js_Parse Json_Parse Retry_Policy Circuit_Breaker Authenticator
begin

text \<open>
  \<^verbatim>\<open>src/src/config.ts\<close>: the configuration read from the environment, a partial map of strings.
  Of \<open>new URL(value)\<close> the code uses only whether it throws and the protocol: the parameter
  \<open>url_protocol\<close>.
\<close>

section \<open>Reading variables\<close>

type_synonym environment = "string \<Rightarrow> string option"

definition plain :: "string \<Rightarrow> 'a result" where
  "plain message = Inl (Plain_Error message)"

definition required :: "environment \<Rightarrow> string \<Rightarrow> string result" where
  "required env name =
     (case env name of
        None \<Rightarrow> plain (name @ '' is required'')
      | Some v \<Rightarrow> if js_trim v = [] then plain (name @ '' is required'') else Inr v)"

definition read_number :: "environment \<Rightarrow> string \<Rightarrow> js_number \<Rightarrow> js_number result" where
  "read_number env name fallback =
     (let v = (case env name of None \<Rightarrow> fallback | Some s \<Rightarrow> string_to_number s) in
      if \<not> is_finite v then plain (name @ '' must be a finite number'') else Inr v)"

definition positive_integer :: "environment \<Rightarrow> string \<Rightarrow> int \<Rightarrow> js_number result" where
  "positive_integer env name fallback =
     r_bind (read_number env name (js_int fallback)) (\<lambda>v.
       if \<not> is_safe_integer v \<or> js_less v (js_int 1) then plain (name @ '' must be a positive safe integer'') else Inr v)"

definition http_port_of :: "environment \<Rightarrow> js_number result" where
  "http_port_of env =
     r_bind (positive_integer env ''PORT'' 4002) (\<lambda>v.
       if js_less (js_int 65535) v then plain ''PORT must be between 1 and 65535'' else Inr v)"

definition redis_url_of :: "(string \<Rightarrow> string option) \<Rightarrow> environment \<Rightarrow> string result" where
  "redis_url_of url_protocol env =
     r_bind (required env ''REDIS_URL'') (\<lambda>v.
       case url_protocol v of
         None \<Rightarrow> plain ''REDIS_URL must be a valid Redis URL''
       | Some p \<Rightarrow>
           if p \<notin> set [''redis:'', ''rediss:'', ''redis+tls:'']
           then plain ''REDIS_URL must use a supported Redis protocol'' else Inr v)"

section \<open>Credentials\<close>

definition is_hex_digit :: "char \<Rightarrow> bool" where
  "is_hex_digit c \<longleftrightarrow> (48 \<le> code c \<and> code c \<le> 57) \<or> (97 \<le> code c \<and> code c \<le> 102) \<or> (65 \<le> code c \<and> code c \<le> 70)"

definition credential_schema :: "json \<Rightarrow> service_credential option" where
  "credential_schema v =
     (case v of
        JObject ms \<Rightarrow>
          (if \<not> list_all (\<lambda>(k, _). k = ''serviceId'' \<or> k = ''apiKeySha256'') ms then None
           else (case (js_get ms ''serviceId'', js_get ms ''apiKeySha256'') of
                   (Some (JString i), Some (JString h)) \<Rightarrow>
                     if is_service_id i \<and> length h = 64 \<and> list_all is_hex_digit h
                     then Some \<lparr>service_id = i, api_key_sha256 = h\<rparr> else None
                 | _ \<Rightarrow> None))
      | _ \<Rightarrow> None)"

definition service_credentials_schema :: "json \<Rightarrow> service_credential list option" where
  "service_credentials_schema v =
     (case v of
        JArray vs \<Rightarrow>
          (if 1 \<le> length vs \<and> length vs \<le> 100 \<and> list_all (\<lambda>x. credential_schema x \<noteq> None) vs
           then Some (map (\<lambda>x. the (credential_schema x)) vs) else None)
      | _ \<Rightarrow> None)"

text \<open>The loop over the parsed credentials, with the two sets.\<close>

fun duplicate_identity :: "string list \<Rightarrow> string list \<Rightarrow> service_credential list \<Rightarrow> bool" where
  "duplicate_identity ids hashes [] = False"
| "duplicate_identity ids hashes (c # cs) =
     (let hash = to_lower (api_key_sha256 c) in
      service_id c \<in> set ids \<or> hash \<in> set hashes \<or> duplicate_identity (service_id c # ids) (hash # hashes) cs)"

definition service_credentials_of :: "environment \<Rightarrow> service_credential list result" where
  "service_credentials_of env =
     r_bind (required env ''SERVICE_CREDENTIALS'') (\<lambda>raw.
       case json_parse raw of
         None \<Rightarrow> plain ''SERVICE_CREDENTIALS must be valid JSON''
       | Some v \<Rightarrow>
           (case service_credentials_schema v of
              None \<Rightarrow> plain ''SERVICE_CREDENTIALS is invalid''
            | Some cs \<Rightarrow>
                if duplicate_identity [] [] cs then plain ''SERVICE_CREDENTIALS contains duplicate identities''
                else Inr (map (\<lambda>c. c\<lparr>api_key_sha256 := to_lower (api_key_sha256 c)\<rparr>) cs)))"

section \<open>The configuration\<close>

record application_config =
  http_host :: string
  http_port :: js_number
  service_credentials :: "service_credential list"
  http_max_body_bytes :: js_number
  database_url :: string
  redis_url :: string
  redis_command_timeout_ms :: js_number
  transaction_cache_ttl_seconds :: js_number
  transaction_cache_key_prefix :: string
  rate_limit_max_requests :: js_number
  rate_limit_window_ms :: js_number
  rate_limit_key_prefix :: string
  provider_url :: string
  config_retry :: retry_policy_config
  config_breaker :: circuit_breaker_config
  stale_timeout_ms :: js_number
  overhead_ms :: js_number
  stale_margin :: js_number
  readiness_timeout_ms :: js_number
  shutdown_grace_period_ms :: js_number

definition timing :: "application_config \<Rightarrow> provider_timing_config" where
  "timing c = \<lparr>retry = config_retry c, execution_overhead_ms = overhead_ms c,
     processing_stale_timeout_ms = stale_timeout_ms c, minimum_stale_margin_ms = stale_margin c\<rparr>"

definition default_jitter :: js_number where
  "default_jitter = Num (3602879701896397 / 18014398509481984)"

definition retry_of :: "environment \<Rightarrow> retry_policy_config result" where
  "retry_of env =
     r_bind (read_number env ''PROVIDER_MAX_ATTEMPTS'' (js_int 3)) (\<lambda>n.
     r_bind (read_number env ''PROVIDER_TIMEOUT_MS'' (js_int 3000)) (\<lambda>t.
     r_bind (read_number env ''PROVIDER_BASE_DELAY_MS'' (js_int 500)) (\<lambda>b.
     r_bind (read_number env ''PROVIDER_MAX_DELAY_MS'' (js_int 2000)) (\<lambda>m.
     r_bind (read_number env ''PROVIDER_JITTER_RATIO'' default_jitter) (\<lambda>j.
       Inr \<lparr>max_attempts = n, attempt_timeout_ms = t, base_delay_ms = b, max_delay_ms = m, jitter_ratio = j\<rparr>)))))"

definition breaker_of :: "environment \<Rightarrow> circuit_breaker_config result" where
  "breaker_of env =
     r_bind (read_number env ''PROVIDER_BREAKER_FAILURE_THRESHOLD'' (js_int 3)) (\<lambda>f.
     r_bind (read_number env ''PROVIDER_BREAKER_OPEN_DURATION_MS'' (js_int 10000)) (\<lambda>d.
       Inr \<lparr>failure_threshold = f, open_duration_ms = d\<rparr>))"

definition host_of :: "environment \<Rightarrow> string" where
  "host_of env =
     (case env ''HTTP_HOST'' of
        None \<Rightarrow> ''0.0.0.0''
      | Some h \<Rightarrow> if js_trim h = [] then ''0.0.0.0'' else js_trim h)"

definition or_default :: "environment \<Rightarrow> string \<Rightarrow> string \<Rightarrow> string" where
  "or_default env name fallback = (case env name of None \<Rightarrow> fallback | Some v \<Rightarrow> v)"

text \<open>The object literal, its fields evaluated in order.\<close>

definition read_config :: "(string \<Rightarrow> string option) \<Rightarrow> environment \<Rightarrow> application_config result" where
  "read_config url_protocol env =
     r_bind (http_port_of env) (\<lambda>port.
     r_bind (service_credentials_of env) (\<lambda>creds.
     r_bind (positive_integer env ''HTTP_MAX_BODY_BYTES'' 16384) (\<lambda>max_body.
     r_bind (required env ''DATABASE_URL'') (\<lambda>db.
     r_bind (redis_url_of url_protocol env) (\<lambda>redis.
     r_bind (positive_integer env ''REDIS_COMMAND_TIMEOUT_MS'' 250) (\<lambda>redis_timeout.
     r_bind (positive_integer env ''TRANSACTION_CACHE_TTL_SECONDS'' 3600) (\<lambda>ttl.
     r_bind (positive_integer env ''RATE_LIMIT_MAX_REQUESTS'' 5) (\<lambda>max_requests.
     r_bind (positive_integer env ''RATE_LIMIT_WINDOW_MS'' 60000) (\<lambda>window.
     r_bind (retry_of env) (\<lambda>rt.
     r_bind (breaker_of env) (\<lambda>br.
     r_bind (read_number env ''IDEMPOTENCY_PROCESSING_TIMEOUT_MS'' (js_int 30000)) (\<lambda>stale.
     r_bind (read_number env ''PROVIDER_EXECUTION_OVERHEAD_MS'' (js_int 2000)) (\<lambda>overhead.
     r_bind (read_number env ''IDEMPOTENCY_MINIMUM_STALE_MARGIN_MS'' (js_int 3000)) (\<lambda>margin.
     r_bind (positive_integer env ''READINESS_TIMEOUT_MS'' 500) (\<lambda>readiness.
     r_bind (positive_integer env ''SHUTDOWN_GRACE_PERIOD_MS'' 15000) (\<lambda>grace.
       Inr \<lparr>http_host = host_of env, http_port = port, service_credentials = creds, http_max_body_bytes = max_body,
         database_url = db, redis_url = redis, redis_command_timeout_ms = redis_timeout,
         transaction_cache_ttl_seconds = ttl,
         transaction_cache_key_prefix = or_default env ''TRANSACTION_CACHE_KEY_PREFIX'' ''transaction-cache:v1'',
         rate_limit_max_requests = max_requests, rate_limit_window_ms = window,
         rate_limit_key_prefix = or_default env ''RATE_LIMIT_KEY_PREFIX'' ''rate-limit:v1'',
         provider_url = or_default env ''PROVIDER_URL'' ''http://localhost:4003/transactions'',
         config_retry = rt, config_breaker = br, stale_timeout_ms = stale, overhead_ms = overhead, stale_margin = margin,
         readiness_timeout_ms = readiness, shutdown_grace_period_ms = grace\<rparr>))))))))))))))))"

definition load_config :: "(string \<Rightarrow> string option) \<Rightarrow> environment \<Rightarrow> application_config result" where
  "load_config url_protocol env =
     (if url_protocol (or_default env ''PROVIDER_URL'' ''http://localhost:4003/transactions'') = None
      then plain ''PROVIDER_URL must be a valid URL''
      else
        r_bind (read_config url_protocol env) (\<lambda>c.
        r_bind (validate_provider_timing (timing c)) (\<lambda>provider_timing.
          if js_less (shutdown_grace_period_ms c) (maximum_provider_execution_window_ms provider_timing)
          then plain ''Shutdown grace period must cover the maximum provider execution window''
          else r_then (validate_circuit_breaker_config (config_breaker c)) (Inr c))))"

section \<open>What a loaded configuration is\<close>

definition positive_safe :: "js_number \<Rightarrow> bool" where
  "positive_safe x \<longleftrightarrow> is_safe_integer x \<and> \<not> js_less x (js_int 1)"

lemma positive_integer_Inr: "positive_integer env name f = Inr v \<Longrightarrow> positive_safe v"
  by (auto simp: positive_integer_def positive_safe_def r_bind_Inr_iff plain_def split: if_splits)

lemma http_port_Inr: "http_port_of env = Inr v \<Longrightarrow> positive_safe v \<and> \<not> js_less (js_int 65535) v"
  by (auto simp: http_port_of_def r_bind_Inr_iff plain_def split: if_splits dest: positive_integer_Inr)

lemma positive_safe_int:
  "positive_safe x \<Longrightarrow> \<exists>i. x = js_int i \<and> 1 \<le> i \<and> i \<le> max_safe_integer"
  unfolding positive_safe_def using safe_at_least by blast

lemma lower_hex: "is_hex_digit c \<Longrightarrow> is_lower_hex (lower_char c)"
  by (auto simp: is_hex_digit_def is_lower_hex_def lower_char_def)

lemma lower_char_idem: "lower_char (lower_char c) = lower_char c"
  by (auto simp: lower_char_def)

lemma to_lower_idem: "to_lower (to_lower s) = to_lower s"
  by (simp add: to_lower_def lower_char_idem)

lemma duplicate_identity_iff:
  "\<not> duplicate_identity ids hashes cs \<longleftrightarrow>
     distinct (map service_id cs) \<and> distinct (map (\<lambda>c. to_lower (api_key_sha256 c)) cs) \<and>
     set (map service_id cs) \<inter> set ids = {} \<and> set (map (\<lambda>c. to_lower (api_key_sha256 c)) cs) \<inter> set hashes = {}"
  by (induction cs arbitrary: ids hashes) (auto simp: Let_def)

lemma credential_schema_Some:
  "credential_schema v = Some c \<Longrightarrow> is_service_id (service_id c) \<and> length (api_key_sha256 c) = 64 \<and> list_all is_hex_digit (api_key_sha256 c)"
  by (auto simp: credential_schema_def split: json.splits if_splits option.splits prod.splits)

lemma service_credentials_Inr:
  assumes "service_credentials_of env = Inr cs"
  shows "new_sha256_authenticator cs = Inr (map stored_of cs)" "1 \<le> length cs" "length cs \<le> 100"
    "\<forall>c \<in> set cs. is_sha256_hex (api_key_sha256 c)"
proof -
  from assms obtain raw v cs0 where v: "json_parse raw = Some v" "service_credentials_schema v = Some cs0"
    "\<not> duplicate_identity [] [] cs0" "cs = map (\<lambda>c. c\<lparr>api_key_sha256 := to_lower (api_key_sha256 c)\<rparr>) cs0"
  proof -
    from assms obtain raw where r: "(case json_parse raw of None \<Rightarrow> plain ''SERVICE_CREDENTIALS must be valid JSON''
        | Some v \<Rightarrow> (case service_credentials_schema v of None \<Rightarrow> plain ''SERVICE_CREDENTIALS is invalid''
            | Some cs \<Rightarrow> if duplicate_identity [] [] cs then plain ''SERVICE_CREDENTIALS contains duplicate identities''
                else Inr (map (\<lambda>c. c\<lparr>api_key_sha256 := to_lower (api_key_sha256 c)\<rparr>) cs))) = Inr cs"
      by (auto simp: service_credentials_of_def r_bind_Inr_iff)
    obtain v where v: "json_parse raw = Some v" using r by (cases "json_parse raw") (simp_all add: plain_def)
    obtain cs0 where c: "service_credentials_schema v = Some cs0"
      using r v by (cases "service_credentials_schema v") (simp_all add: plain_def)
    from r v c have "\<not> duplicate_identity [] [] cs0" "cs = map (\<lambda>c. c\<lparr>api_key_sha256 := to_lower (api_key_sha256 c)\<rparr>) cs0"
      by (simp_all add: plain_def split: if_splits)
    with v c show thesis by (rule that)
  qed
  from v(2) obtain vs where vs: "1 \<le> length vs" "length vs \<le> 100" "\<forall>x \<in> set vs. credential_schema x \<noteq> None"
    "cs0 = map (\<lambda>x. the (credential_schema x)) vs"
    by (auto simp: service_credentials_schema_def list_all_iff split: json.splits if_splits)
  show "1 \<le> length cs" "length cs \<le> 100" using v(4) vs by simp_all
  have c0: "is_service_id (service_id c) \<and> length (api_key_sha256 c) = 64 \<and> list_all is_hex_digit (api_key_sha256 c)" if "c \<in> set cs0" for c
    using that vs(3,4) credential_schema_Some by fastforce
  then show hex: "\<forall>c \<in> set cs. is_sha256_hex (api_key_sha256 c)"
    by (auto simp: v(4) is_sha256_hex_def to_lower_def list_all_iff lower_hex)
  have "load_credentials [] [] cs = Inr (map stored_of cs)"
    using v(3) c0 hex unfolding load_credentials_Inr
    by (auto simp: v(4) duplicate_identity_iff list_all_iff credential_ok_def to_lower_idem comp_def)
  then show "new_sha256_authenticator cs = Inr (map stored_of cs)"
    using \<open>1 \<le> length cs\<close> by (auto simp: new_sha256_authenticator_def)
qed

definition config_ok :: "application_config \<Rightarrow> bool" where
  "config_ok c \<longleftrightarrow>
     positive_safe (http_port c) \<and> \<not> js_less (js_int 65535) (http_port c) \<and>
     positive_safe (http_max_body_bytes c) \<and> positive_safe (redis_command_timeout_ms c) \<and>
     positive_safe (transaction_cache_ttl_seconds c) \<and> positive_safe (rate_limit_max_requests c) \<and>
     positive_safe (rate_limit_window_ms c) \<and> positive_safe (readiness_timeout_ms c) \<and>
     positive_safe (shutdown_grace_period_ms c) \<and>
     new_sha256_authenticator (service_credentials c) = Inr (map stored_of (service_credentials c)) \<and>
     1 \<le> length (service_credentials c) \<and> length (service_credentials c) \<le> 100"

lemma read_config_ok: "read_config url_protocol env = Inr c \<Longrightarrow> config_ok c"
  unfolding read_config_def r_bind_Inr_iff
  by (elim exE conjE)
    (auto simp: config_ok_def dest: positive_integer_Inr http_port_Inr service_credentials_Inr)

lemma load_config_Inr:
  assumes "load_config url_protocol env = Inr c"
  obtains t where "config_ok c" "validate_provider_timing (timing c) = Inr t"
    "\<not> js_less (shutdown_grace_period_ms c) (maximum_provider_execution_window_ms t)"
    "validate_circuit_breaker_config (config_breaker c) = Inr ()"
  using assms read_config_ok [of url_protocol env c]
  by (auto simp: load_config_def plain_def r_bind_Inr_iff r_then_Inr_iff split: if_splits)

lemma timing_retry_valid:
  "validate_provider_timing (timing c) = Inr t \<Longrightarrow> validate_retry_policy_config (config_retry c) = Inr ()"
  using calculate_window_Inr(1)
  by (auto simp: validate_provider_timing_def timing_def r_then_Inr_iff r_bind_Inr_iff)

end
