(* ===== verification/Http_Schemas.thy ===== *)
theory Http_Schemas
  imports Json_Parse Redis Config
begin

text \<open>
  \<^verbatim>\<open>src/src/http/schemas/\<close>: what the zod schemas accept and what they turn it into, and of
  \<^verbatim>\<open>src/src/http/server.ts\<close> the patterns and checks on headers.
\<close>

section \<open>Transactions\<close>

definition transaction_keys :: "string list" where
  "transaction_keys = [''amount'', ''currency'', ''description'']"

definition amount_schema :: "json \<Rightarrow> int option" where
  "amount_schema v =
     (case v of JNumber x \<Rightarrow> if is_safe_integer x \<and> js_less (js_int 0) x then Some (integer_of x) else None | _ \<Rightarrow> None)"

definition currency_schema :: "json \<Rightarrow> string option" where
  "currency_schema v =
     (case v of
        JString s \<Rightarrow> (let t = js_trim s in if length t = 3 \<and> list_all is_alpha t then Some (to_upper t) else None)
      | _ \<Rightarrow> None)"

definition description_schema :: "json \<Rightarrow> string option" where
  "description_schema v =
     (case v of
        JString s \<Rightarrow> (let t = js_trim s in if 1 \<le> length t \<and> length t \<le> 200 then Some t else None)
      | _ \<Rightarrow> None)"

definition transaction_schema :: "json \<Rightarrow> transaction_input option" where
  "transaction_schema v =
     (case v of
        JObject ms \<Rightarrow>
          (if \<not> list_all (\<lambda>(k, _). k \<in> set transaction_keys) ms then None
           else (case (Option.bind (js_get ms ''amount'') amount_schema, Option.bind (js_get ms ''currency'') currency_schema,
                       Option.bind (js_get ms ''description'') description_schema) of
                   (Some a, Some c, Some d) \<Rightarrow> Some \<lparr>amount = a, currency = c, description = d\<rparr>
                 | _ \<Rightarrow> None))
      | _ \<Rightarrow> None)"

section \<open>Pagination\<close>

text \<open>\<open>Object.fromEntries\<close> of the query, then \<open>z.coerce.number()\<close> with its bounds and default.\<close>

definition coerced_bounded :: "int \<Rightarrow> int \<Rightarrow> string option \<Rightarrow> int option" where
  "coerced_bounded upper fallback value =
     (case value of
        None \<Rightarrow> Some fallback
      | Some s \<Rightarrow>
          (let x = string_to_number s in
           if is_safe_integer x \<and> js_less (js_int 0) x \<and> \<not> js_less (js_int upper) x then Some (integer_of x) else None))"

definition from_entries :: "(string \<times> string) list \<Rightarrow> (string, string) js_map" where
  "from_entries es = foldl (\<lambda>m (k, v). js_set k v m) [] es"

definition pagination_schema :: "(string \<times> string) list \<Rightarrow> (int \<times> int) option" where
  "pagination_schema query =
     (let m = from_entries query in
      if \<not> list_all (\<lambda>(k, _). k = ''page'' \<or> k = ''limit'') m then None
      else (case (coerced_bounded 1000000 1 (js_get m ''page''), coerced_bounded 100 20 (js_get m ''limit'')) of
              (Some p, Some l) \<Rightarrow> Some (p, l)
            | _ \<Rightarrow> None))"

section \<open>Headers\<close>

definition is_key_char :: "char \<Rightarrow> bool" where
  "is_key_char c \<longleftrightarrow> is_alpha c \<or> is_digit c \<or> c \<in> set ''._:-''"

definition idempotency_key_schema :: "string \<Rightarrow> string option" where
  "idempotency_key_schema s = (if 1 \<le> length s \<and> length s \<le> 128 \<and> list_all is_key_char s then Some s else None)"

text \<open>\<open>/^Bearer ([A-Za-z0-9\-._~+/=]{32,256})$/i\<close>.\<close>

definition is_token_char :: "char \<Rightarrow> bool" where
  "is_token_char c \<longleftrightarrow> is_alpha c \<or> is_digit c \<or> c \<in> set ''-._~+/=''"

definition bearer_token :: "string \<Rightarrow> string option" where
  "bearer_token s =
     (let token = drop 7 s in
      if to_lower (take 7 s) = ''bearer '' \<and> 32 \<le> length token \<and> length token \<le> 256 \<and> list_all is_token_char token
      then Some token else None)"

text \<open>The pattern of a request identifier: a UUID of version 1 to 8, in either case.\<close>

definition request_id_char :: "nat \<Rightarrow> char \<Rightarrow> bool" where
  "request_id_char i c =
     (if i \<in> {8, 13, 18, 23} then c = CHR ''-''
      else if i = 14 then 49 \<le> code c \<and> code c \<le> 56
      else if i = 19 then lower_char c \<in> set ''89ab''
      else is_hex_digit c)"

definition is_request_id :: "string \<Rightarrow> bool" where
  "is_request_id s \<longleftrightarrow> length s = 36 \<and> list_all (\<lambda>(i, c). request_id_char i c) (zip [0..<36] s)"

definition supported_content_type :: "string option \<Rightarrow> bool" where
  "supported_content_type content_type =
     (case content_type of
        None \<Rightarrow> False
      | Some s \<Rightarrow>
          (let parts = map (\<lambda>p. to_lower (js_trim p)) (js_split (CHR '';'') s) in
           hd parts = ''application/json'' \<and>
           (length parts = 1 \<or> (length parts = 2 \<and> parts ! 1 = ''charset=utf-8''))))"

section \<open>What the schemas guarantee\<close>

text \<open>A transaction that passes the schema is its own normal form and fits every later check.\<close>

lemma to_upper_alpha:
  assumes "list_all is_alpha s"
  shows "length (to_upper s) = length s" "list_all (\<lambda>c. 65 \<le> code c \<and> code c \<le> 90) (to_upper s)"
  using assms by (induction s) (auto simp: to_upper_def upper_char_def is_alpha_def)

lemma safe_positive:
  assumes "is_safe_integer x" "js_less (js_int 0) x"
  shows "1 \<le> integer_of x" "integer_of x \<le> max_safe_integer" "js_less (js_int u) x \<longleftrightarrow> u < integer_of x"
proof -
  have x: "x = js_int (integer_of x)" "\<bar>integer_of x\<bar> \<le> max_safe_integer" using assms(1) by (auto elim!: is_safe_integerE)
  show "1 \<le> integer_of x" using assms(2) x(1) js_less_js_int [of 0 "integer_of x"] by simp
  show "integer_of x \<le> max_safe_integer" using x(2) by simp
  show "js_less (js_int u) x \<longleftrightarrow> u < integer_of x" using x(1) js_less_js_int [of u "integer_of x"] by simp
qed

lemma field_schemas_Some:
  "amount_schema v = Some a \<Longrightarrow> 1 \<le> a \<and> a \<le> max_safe_integer"
  "currency_schema v = Some c \<Longrightarrow> \<exists>s. v = JString s \<and> length (js_trim s) = 3 \<and> list_all is_alpha (js_trim s) \<and> c = to_upper (js_trim s)"
  "description_schema v = Some d \<Longrightarrow> \<exists>s. v = JString s \<and> 1 \<le> length (js_trim s) \<and> length (js_trim s) \<le> 200 \<and> d = js_trim s"
  by (cases v; auto simp: amount_schema_def safe_positive split: if_splits)
    (cases v; auto simp: currency_schema_def description_schema_def Let_def split: if_splits)+

lemma transaction_schema_Some:
  assumes "transaction_schema v = Some t"
  shows "1 \<le> amount t \<and> amount t \<le> max_safe_integer" "length (currency t) = 3"
    "list_all (\<lambda>c. 65 \<le> code c \<and> code c \<le> 90) (currency t)"
    "1 \<le> length (description t)" "length (description t) \<le> 200" "js_trim (description t) = description t"
proof -
  from assms obtain ms where v: "v = JObject ms" by (cases v) (simp_all add: transaction_schema_def)
  with assms have t: "Option.bind (js_get ms ''amount'') amount_schema = Some (amount t)"
    "Option.bind (js_get ms ''currency'') currency_schema = Some (currency t)"
    "Option.bind (js_get ms ''description'') description_schema = Some (description t)"
    by (auto simp: transaction_schema_def split: if_splits option.splits)
  from t(1) show "1 \<le> amount t \<and> amount t \<le> max_safe_integer" by (auto simp: bind_eq_Some_conv dest: field_schemas_Some(1))
  from t(2) obtain s where s: "length (js_trim s) = 3" "list_all is_alpha (js_trim s)" "currency t = to_upper (js_trim s)"
    by (auto simp: bind_eq_Some_conv dest: field_schemas_Some(2))
  with to_upper_alpha [OF s(2)] show "length (currency t) = 3" "list_all (\<lambda>c. 65 \<le> code c \<and> code c \<le> 90) (currency t)"
    by simp_all
  from t(3) obtain d where d: "1 \<le> length (js_trim d)" "length (js_trim d) \<le> 200" "description t = js_trim d"
    by (auto simp: bind_eq_Some_conv dest: field_schemas_Some(3))
  then show "1 \<le> length (description t)" "length (description t) \<le> 200" "js_trim (description t) = description t"
    by (simp_all add: js_trim_idem)
qed

lemma coerced_bounded_Some:
  "coerced_bounded u f v = Some i \<Longrightarrow> 1 \<le> f \<Longrightarrow> f \<le> u \<Longrightarrow> 1 \<le> i \<and> i \<le> u"
  by (auto simp: coerced_bounded_def Let_def safe_positive split: option.splits if_splits)

lemma pagination_schema_Some:
  "pagination_schema q = Some (p, l) \<Longrightarrow> 1 \<le> p \<and> p \<le> 1000000 \<and> 1 \<le> l \<and> l \<le> 100"
  by (auto simp: pagination_schema_def Let_def split: if_splits option.splits
      dest!: coerced_bounded_Some [of 1000000 1] coerced_bounded_Some [of 100 20])

end
