(* ===== verification/Http_Response.thy ===== *)
theory Http_Response
  imports Json_Parse Redis
begin

text \<open>
  \<^verbatim>\<open>src/src/http/error-response.ts\<close>, and of \<^verbatim>\<open>src/src/http/server.ts\<close> the responses and
  \<open>attachRequestId\<close>.  A body is kept as the JSON value or the text it was made of; its text is
  that of the value, so parsing it gives the value back.
\<close>

datatype response_body = Json_Body json | Text_Body string | No_Body

record http_response =
  status :: int
  headers :: "(string, string) js_map"
  body :: response_body

text \<open>\<open>Response.json\<close> keeps a content type it is given.\<close>

definition response_json_of :: "json \<Rightarrow> int \<Rightarrow> (string, string) js_map \<Rightarrow> http_response" where
  "response_json_of v st hs =
     \<lparr>status = st,
      headers = (if js_get hs ''Content-Type'' = None then js_set ''Content-Type'' ''application/json'' hs else hs),
      body = Json_Body v\<rparr>"

definition error_response :: "string \<Rightarrow> string \<Rightarrow> int \<Rightarrow> json option \<Rightarrow> (string, string) js_map \<Rightarrow> http_response" where
  "error_response cd message st details hs =
     response_json_of
       (JObject [(''error'', JObject ([(''code'', JString cd), (''message'', JString message)] @
          (case details of None \<Rightarrow> [] | Some d \<Rightarrow> [(''details'', d)])))]) st hs"

fun map_application_error :: "error \<Rightarrow> http_response" where
  "map_application_error Idempotency_Conflict_Error =
     error_response ''IDEMPOTENCY_KEY_CONFLICT'' ''Idempotency key was already used for a different transaction'' 409 None []"
| "map_application_error Idempotency_In_Progress_Error =
     error_response ''IDEMPOTENCY_OPERATION_IN_PROGRESS'' ''A transaction with this idempotency key is still processing'' 409
       None [(''Retry-After'', ''1'')]"
| "map_application_error Transaction_Not_Found_Error =
     error_response ''TRANSACTION_NOT_FOUND'' ''Transaction not found'' 404 None []"
| "map_application_error Provider_Timeout_Error =
     error_response ''PROVIDER_TIMEOUT'' ''Payment provider timed out'' 504 None []"
| "map_application_error Provider_Unavailable_Error =
     error_response ''PROVIDER_UNAVAILABLE'' ''Payment provider is unavailable'' 503 None []"
| "map_application_error Provider_Network_Error =
     error_response ''PROVIDER_UNAVAILABLE'' ''Payment provider is unavailable'' 503 None []"
| "map_application_error Provider_Rate_Limited_Error =
     error_response ''PROVIDER_UNAVAILABLE'' ''Payment provider is unavailable'' 503 None []"
| "map_application_error (Provider_Server_Error _) =
     error_response ''PROVIDER_UNAVAILABLE'' ''Payment provider is unavailable'' 503 None []"
| "map_application_error Provider_Circuit_Open_Error =
     error_response ''PROVIDER_UNAVAILABLE'' ''Payment provider is unavailable'' 503 None []"
| "map_application_error Provider_Invalid_Response_Error =
     error_response ''PROVIDER_INVALID_RESPONSE'' ''Payment provider returned an invalid response'' 502 None []"
| "map_application_error (Provider_Rejected_Error _) =
     error_response ''PROVIDER_REJECTED'' ''Payment provider rejected the transaction'' 502 None []"
| "map_application_error _ =
     error_response ''INTERNAL_ERROR'' ''Internal server error'' 500 None []"

definition parsed_body :: "response_body \<Rightarrow> json option" where
  "parsed_body b = (case b of Json_Body v \<Rightarrow> Some v | Text_Body s \<Rightarrow> json_parse s | No_Body \<Rightarrow> None)"

text \<open>
  The members of the error with the request identifier: \<open>{...body.error, requestId}\<close>, and with
  details once more at the end, which leaves them in their place.
\<close>

definition with_request_id :: "string \<Rightarrow> (string, json) js_map \<Rightarrow> (string, json) js_map" where
  "with_request_id request_id ms =
     (let ms' = js_set ''requestId'' (JString request_id) ms in
      case js_get ms ''details'' of None \<Rightarrow> ms' | Some d \<Rightarrow> js_set ''details'' d ms')"

text \<open>
  \<open>attachRequestId\<close>: the second component is the error code.  Reading \<open>error\<close> of \<open>null\<close>, or
  \<open>code\<close> of a \<open>null\<close> error, throws.
\<close>

definition attach_request_id :: "http_response \<Rightarrow> string \<Rightarrow> http_response \<times> string option" where
  "attach_request_id r request_id =
     (let hs = js_set ''X-Request-Id'' request_id (headers r);
          plain_copy = r\<lparr>headers := hs\<rparr>;
          empty_copy = r\<lparr>headers := hs, body := No_Body\<rparr> in
      if status r < 400 then (plain_copy, None)
      else case parsed_body (body r) of
        None \<Rightarrow> (empty_copy, None)
      | Some JNull \<Rightarrow> (empty_copy, None)
      | Some v \<Rightarrow>
          (case json_field ''error'' v of
             None \<Rightarrow> (plain_copy, None)
           | Some JNull \<Rightarrow> (empty_copy, None)
           | Some e \<Rightarrow>
               (case (e, json_field ''code'' e, json_field ''message'' e) of
                  (JObject ms, Some (JString cd), Some (JString message)) \<Rightarrow>
                    (response_json_of (JObject [(''error'', JObject (with_request_id request_id ms))]) (status r) hs, Some cd)
                | _ \<Rightarrow> (plain_copy, None))))"

text \<open>An error response: a known envelope, as the server makes them.\<close>

definition error_envelope :: "string \<Rightarrow> http_response \<Rightarrow> bool" where
  "error_envelope cd r \<longleftrightarrow>
     400 \<le> status r \<and> status r \<le> 599 \<and>
     (\<exists>ms m. body r = Json_Body (JObject [(''error'', JObject ms)]) \<and>
       js_get ms ''code'' = Some (JString cd) \<and> js_get ms ''message'' = Some (JString m))"

lemma error_response_envelope:
  "400 \<le> st \<Longrightarrow> st \<le> 599 \<Longrightarrow> error_envelope cd (error_response cd m st d hs)"
  by (cases d) (auto simp: error_envelope_def error_response_def response_json_of_def js_get_def)

lemma status_error_response [simp]: "status (error_response cd m st d hs) = st"
  by (simp add: error_response_def response_json_of_def)

lemma map_application_error_envelope: "\<exists>cd. error_envelope cd (map_application_error e)"
  by (cases e) (auto intro!: exI error_response_envelope)

lemma attach_error:
  assumes "error_envelope cd r"
  shows "error_envelope cd (fst (attach_request_id r request_id)) \<and> snd (attach_request_id r request_id) = Some cd \<and>
    (\<exists>ms. body (fst (attach_request_id r request_id)) = Json_Body (JObject [(''error'', JObject ms)]) \<and>
       js_get ms ''requestId'' = Some (JString request_id))"
proof -
  from assms obtain ms m where r: "400 \<le> status r" "status r \<le> 599" "body r = Json_Body (JObject [(''error'', JObject ms)])"
    "js_get ms ''code'' = Some (JString cd)" "js_get ms ''message'' = Some (JString m)"
    by (auto simp: error_envelope_def)
  have e: "json_field ''error'' (JObject [(''error'', JObject ms)]) = Some (JObject ms)"
    by (simp add: json_field_def js_get_def)
  have a: "attach_request_id r request_id = (response_json_of (JObject [(''error'', JObject (with_request_id request_id ms))])
      (status r) (js_set ''X-Request-Id'' request_id (headers r)), Some cd)"
    using r e by (simp add: attach_request_id_def parsed_body_def json_field_def Let_def)
  have g: "js_get (with_request_id request_id ms) ''code'' = Some (JString cd)"
    "js_get (with_request_id request_id ms) ''message'' = Some (JString m)"
    "js_get (with_request_id request_id ms) ''requestId'' = Some (JString request_id)"
    using r(4,5) by (simp_all add: with_request_id_def Let_def js_get_set split: option.splits)
  show ?thesis using r(1,2) g unfolding a by (simp add: error_envelope_def response_json_of_def)
qed

lemma attach_header: "js_get (headers (fst (attach_request_id r request_id))) ''X-Request-Id'' = Some request_id"
proof -
  have j: "js_get (headers (response_json_of v st hs)) ''X-Request-Id'' = js_get hs ''X-Request-Id''" for v st hs
    by (simp add: response_json_of_def js_get_set)
  show ?thesis
    by (simp add: attach_request_id_def Let_def j js_get_set split: option.splits json.splits prod.splits)
qed

lemma attach_status: "status (fst (attach_request_id r request_id)) = status r"
  by (simp add: attach_request_id_def Let_def response_json_of_def split: option.splits json.splits prod.splits)

lemma attach_success: "status r < 400 \<Longrightarrow> body (fst (attach_request_id r request_id)) = body r \<and> snd (attach_request_id r request_id) = None"
  by (simp add: attach_request_id_def Let_def)

end
