(* ===== verification/Http_Server.thy ===== *)
theory Http_Server
  imports Http_Schemas Http_Response Lifecycle Readiness Create_Transaction Queries
begin

text \<open>
  \<^verbatim>\<open>src/src/http/server.ts\<close>: the request handler.  The state \<open>'s\<close> of the application behind it
  is a parameter, and so are the use cases, the authenticator and the rate limiter on it, each with
  the effects it has; the identifier of the request, which
  \<^verbatim>\<open>src/src/infrastructure/observability/request-context.ts\<close> passes to them through the context, is
  an argument.  \<open>TextDecoder\<close>, the text of dates and the issues zod reports are parameters.
\<close>

section \<open>Requests and dependencies\<close>

text \<open>The reads of a body stream: chunks, up to its end or a failure.\<close>

datatype body_read = Chunk "byte list" | Read_Fails

text \<open>The path and the query are those \<open>new URL(request.url)\<close> finds.\<close>

record server_request =
  http_method :: string
  pathname :: string
  search_params :: "(string \<times> string) list"
  header :: "string \<Rightarrow> string option"
  body_reads :: "body_read list option"

record 's server_deps =
  authenticator :: "string \<Rightarrow> string option"
  max_body_bytes :: int
  use_create :: "string \<Rightarrow> transaction_input \<Rightarrow> string \<Rightarrow> 's \<Rightarrow> create_result result \<times> effect list \<times> 's"
  use_get :: "string \<Rightarrow> string \<Rightarrow> 's \<Rightarrow> transaction result \<times> effect list \<times> 's"
  use_list :: "string \<Rightarrow> int \<Rightarrow> int \<Rightarrow> 's \<Rightarrow> list_result result \<times> effect list \<times> 's"
  use_limiter :: "string \<Rightarrow> string \<Rightarrow> 's \<Rightarrow> rate_limit_result result \<times> effect list \<times> 's"
  use_readiness :: "('s \<Rightarrow> readiness_status \<times> effect list \<times> 's) option"
  metrics_text :: "'s \<Rightarrow> string"
  decode_utf8 :: "byte list \<Rightarrow> string option"
  date_text :: "int \<Rightarrow> string"
  transaction_issues :: "json \<Rightarrow> json"
  pagination_issues :: "(string \<times> string) list \<Rightarrow> json"
  uuid_schema :: "string \<Rightarrow> bool"

section \<open>Values as JSON\<close>

definition json_of_transaction :: "'s server_deps \<Rightarrow> transaction \<Rightarrow> json" where
  "json_of_transaction d t = JObject
     [(''id'', JString (transaction_id t)), (''amount'', JInt (amount t)), (''currency'', JString (currency t)),
      (''description'', JString (description t)), (''status'', JString ''approved''),
      (''providerTransactionId'', JString (provider_transaction_id t)), (''createdAt'', JString (date_text d (created_at t)))]"

definition json_of_list :: "'s server_deps \<Rightarrow> list_result \<Rightarrow> json" where
  "json_of_list d r = JObject
     [(''data'', JArray (map (json_of_transaction d) (list_data r))),
      (''pagination'', JObject [(''page'', JInt (list_page r)), (''limit'', JInt (list_limit r)),
         (''total'', JInt (list_total r)), (''totalPages'', JNumber (list_total_pages r))])]"

fun readiness_text :: "readiness_status \<Rightarrow> string" where
  "readiness_text Ready = ''ready''"
| "readiness_text Degraded = ''degraded''"
| "readiness_text Not_Ready = ''not_ready''"

definition json_ok :: "json \<Rightarrow> int \<Rightarrow> http_response" where
  "json_ok v st = response_json_of v st []"

section \<open>Checks\<close>

definition unauthorized :: http_response where
  "unauthorized = error_response ''UNAUTHORIZED'' ''Authentication required'' 401 None [(''WWW-Authenticate'', ''Bearer'')]"

definition authenticate :: "'s server_deps \<Rightarrow> server_request \<Rightarrow> string option" where
  "authenticate d req =
     (case header req ''Authorization'' of
        None \<Rightarrow> None
      | Some a \<Rightarrow>
          (if length a > 512 then None
           else case bearer_token a of None \<Rightarrow> None | Some api_key \<Rightarrow> authenticator d api_key))"

definition too_large :: http_response where
  "too_large = error_response ''PAYLOAD_TOO_LARGE'' ''Request body is too large'' 413 None []"

definition invalid_content_length :: http_response where
  "invalid_content_length = error_response ''INVALID_CONTENT_LENGTH'' ''Content-Length is invalid'' 400 None []"

definition validate_declared_body_size :: "server_request \<Rightarrow> int \<Rightarrow> http_response option" where
  "validate_declared_body_size req max_bytes =
     (case header req ''Content-Length'' of
        None \<Rightarrow> None
      | Some s \<Rightarrow>
          (if \<not> (1 \<le> length s \<and> length s \<le> 15 \<and> list_all is_digit s) then Some invalid_content_length
           else if \<not> is_safe_integer (string_to_number s) then Some invalid_content_length
           else if js_less (js_int max_bytes) (string_to_number s) then Some too_large else None))"

datatype body_result = Body_Parsed json | Body_Invalid | Body_Too_Large

text \<open>The loop over the reads: \<open>None\<close> when too large; \<open>Some None\<close> when a read failed.\<close>

fun read_chunks :: "int \<Rightarrow> int \<Rightarrow> byte list \<Rightarrow> body_read list \<Rightarrow> byte list option option" where
  "read_chunks max_bytes so_far acc [] = Some (Some acc)"
| "read_chunks max_bytes so_far acc (Read_Fails # rs) = Some None"
| "read_chunks max_bytes so_far acc (Chunk c # rs) =
     (let so_far' = so_far + int (length c) in
      if so_far' > max_bytes then None else read_chunks max_bytes so_far' (acc @ c) rs)"

definition read_bounded_json :: "(byte list \<Rightarrow> string option) \<Rightarrow> int \<Rightarrow> body_read list option \<Rightarrow> body_result" where
  "read_bounded_json decode max_bytes reads =
     (case reads of
        None \<Rightarrow> Body_Invalid
      | Some rs \<Rightarrow>
          (case read_chunks max_bytes 0 [] rs of
             None \<Rightarrow> Body_Too_Large
           | Some None \<Rightarrow> Body_Invalid
           | Some (Some bs) \<Rightarrow>
               (case Option.bind (decode bs) json_parse of None \<Rightarrow> Body_Invalid | Some v \<Rightarrow> Body_Parsed v)))"

section \<open>Routes\<close>

definition id_of_path :: "string \<Rightarrow> string option" where
  "id_of_path p =
     (if take 14 p = ''/transactions/'' \<and> drop 14 p \<noteq> [] \<and> CHR ''/'' \<notin> set (drop 14 p) then Some (drop 14 p) else None)"

definition route_template :: "server_request \<Rightarrow> string" where
  "route_template req =
     (if id_of_path (pathname req) \<noteq> None then ''/transactions/:id''
      else if pathname req \<in> set [''/transactions'', ''/health'', ''/health/live'', ''/health/ready'', ''/metrics'']
      then pathname req else ''unmatched'')"

definition not_found :: http_response where
  "not_found = error_response ''NOT_FOUND'' ''Route not found'' 404 None []"

definition list_route :: "'s server_deps \<Rightarrow> server_request \<Rightarrow> string \<Rightarrow> 's \<Rightarrow> http_response result \<times> effect list \<times> 's" where
  "list_route d req rid s =
     (case pagination_schema (search_params req) of
        None \<Rightarrow> (Inr (error_response ''INVALID_PAGINATION'' ''Pagination is invalid'' 400
                       (Some (JObject [(''issues'', pagination_issues d (search_params req))])) []), [], s)
      | Some (page, limit) \<Rightarrow>
          (case use_list d rid page limit s of
             (r, es, s') \<Rightarrow> (map_sum id (\<lambda>l. json_ok (json_of_list d l) 200) r, es, s')))"

definition get_route :: "'s server_deps \<Rightarrow> string \<Rightarrow> string \<Rightarrow> 's \<Rightarrow> http_response result \<times> effect list \<times> 's" where
  "get_route d rid i s =
     (if \<not> uuid_schema d i
      then (Inr (error_response ''INVALID_TRANSACTION_ID'' ''Transaction ID is invalid'' 400 None []), [], s)
      else (case use_get d rid i s of
              (r, es, s') \<Rightarrow> (map_sum id (\<lambda>t. json_ok (json_of_transaction d t) 200) r, es, s')))"

definition create_route :: "'s server_deps \<Rightarrow> server_request \<Rightarrow> string \<Rightarrow> 's \<Rightarrow> http_response result \<times> effect list \<times> 's" where
  "create_route d req rid s =
     (if \<not> supported_content_type (header req ''Content-Type'')
      then (Inr (error_response ''UNSUPPORTED_MEDIA_TYPE'' ''Content-Type must be application/json'' 415 None []), [], s)
      else case header req ''Idempotency-Key'' of
        None \<Rightarrow> (Inr (error_response ''MISSING_IDEMPOTENCY_KEY'' ''Idempotency-Key is required'' 400 None []), [], s)
      | Some raw_key \<Rightarrow>
          (case idempotency_key_schema raw_key of
             None \<Rightarrow> (Inr (error_response ''INVALID_IDEMPOTENCY_KEY'' ''Idempotency-Key is invalid'' 400 None []), [], s)
           | Some key \<Rightarrow>
               (case read_bounded_json (decode_utf8 d) (max_body_bytes d) (body_reads req) of
                  Body_Too_Large \<Rightarrow> (Inr too_large, [], s)
                | Body_Invalid \<Rightarrow> (Inr (error_response ''INVALID_JSON'' ''Request body is not valid JSON'' 400 None []), [], s)
                | Body_Parsed v \<Rightarrow>
                    (case transaction_schema v of
                       None \<Rightarrow> (Inr (error_response ''INVALID_TRANSACTION'' ''Transaction is invalid'' 422
                                      (Some (JObject [(''issues'', transaction_issues d v)])) []), [], s)
                     | Some t \<Rightarrow>
                         (case use_create d rid t key s of
                            (r, es, s') \<Rightarrow>
                              (map_sum id (\<lambda>c. json_ok (json_of_transaction d (result_transaction c)) (if created c then 201 else 200)) r,
                               es, s'))))))"

definition warn_log :: "string \<Rightarrow> server_request \<Rightarrow> string \<Rightarrow> effect" where
  "warn_log event req rid = Log Log_Warn event
     [request_field (Some rid), (''method'', Some (JString (http_method req))), (''route'', Some (JString (route_template req)))]"

text \<open>The routes under \<open>/transactions\<close>, past authentication and rate limiting.\<close>

definition transaction_route :: "'s server_deps \<Rightarrow> server_request \<Rightarrow> string \<Rightarrow> 's \<Rightarrow> http_response result \<times> effect list \<times> 's" where
  "transaction_route d req rid s =
     (if http_method req = ''GET'' \<and> pathname req = ''/transactions'' then list_route d req rid s
      else case (http_method req = ''GET'', id_of_path (pathname req)) of
        (True, Some i) \<Rightarrow> get_route d rid i s
      | _ \<Rightarrow> create_route d req rid s)"

definition guarded_route :: "'s server_deps \<Rightarrow> server_request \<Rightarrow> string \<Rightarrow> 's \<Rightarrow> http_response result \<times> effect list \<times> 's" where
  "guarded_route d req rid s =
     (case authenticate d req of
        None \<Rightarrow> (Inr unauthorized, [warn_log ''auth.failed'' req rid], s)
      | Some service \<Rightarrow>
          (case use_limiter d rid service s of
             (Inl e, es, s1) \<Rightarrow> (Inl e, es, s1)
           | (Inr limit, es, s1) \<Rightarrow>
               (if \<not> allowed limit
                then (Inr (error_response ''RATE_LIMIT_EXCEEDED'' ''Too many requests'' 429 None
                        [(''Retry-After'', js_decimal (retry_after_seconds limit))]),
                      es @ [warn_log ''rate_limit.rejected'' req rid], s1)
                else (case transaction_route d req rid s1 of (r, es', s2) \<Rightarrow> (r, es @ es', s2)))))"

definition is_create :: "server_request \<Rightarrow> bool" where
  "is_create req \<longleftrightarrow> http_method req = ''POST'' \<and> pathname req = ''/transactions''"

definition is_transaction_route :: "server_request \<Rightarrow> bool" where
  "is_transaction_route req \<longleftrightarrow>
     (http_method req = ''GET'' \<and> (pathname req = ''/transactions'' \<or> id_of_path (pathname req) \<noteq> None)) \<or> is_create req"

definition route_request :: "'s server_deps \<Rightarrow> server_request \<Rightarrow> string \<Rightarrow> 's \<Rightarrow> http_response result \<times> effect list \<times> 's" where
  "route_request d req rid s =
     (if http_method req = ''GET'' \<and> pathname req \<in> set [''/health'', ''/health/live'']
      then (Inr (json_ok (JObject [(''status'', JString ''ok'')]) 200), [], s)
      else if http_method req = ''GET'' \<and> pathname req = ''/health/ready''
      then (case use_readiness d of
              None \<Rightarrow> (Inr (error_response ''NOT_READY'' ''Service is not ready'' 503 None []), [], s)
            | Some check \<Rightarrow>
                (case check s of (st, es, s') \<Rightarrow>
                   (Inr (json_ok (JObject [(''status'', JString (readiness_text st))]) (if st = Not_Ready then 503 else 200)), es, s')))
      else if http_method req = ''GET'' \<and> pathname req = ''/metrics''
      then (Inr \<lparr>status = 200, headers = [(''Content-Type'', ''text/plain; version=0.0.4; charset=utf-8'')],
              body = Text_Body (metrics_text d s)\<rparr>, [], s)
      else if \<not> is_transaction_route req then (Inr not_found, [], s)
      else case (if is_create req then validate_declared_body_size req (max_body_bytes d) else None) of
        Some r \<Rightarrow> (Inr r, [], s)
      | None \<Rightarrow> guarded_route d req rid s)"

section \<open>The handler\<close>

definition request_id_from :: "server_request \<Rightarrow> string \<Rightarrow> string \<Rightarrow> string" where
  "request_id_from req generated random_uuid =
     (case header req ''X-Request-Id'' of
        Some supplied \<Rightarrow> if is_request_id supplied then supplied else if is_request_id generated then generated else random_uuid
      | None \<Rightarrow> if is_request_id generated then generated else random_uuid)"

definition operational_route :: "server_request \<Rightarrow> bool" where
  "operational_route req \<longleftrightarrow> route_template req \<in> set [''/health'', ''/health/live'', ''/health/ready'', ''/metrics'']"

definition shutting_down_response :: http_response where
  "shutting_down_response = error_response ''SERVICE_UNAVAILABLE'' ''Service is shutting down'' 503 None []"

text \<open>
  \<open>execute\<close>, with the tracker if there is one: it admits the request, and the handle is released
  whatever the route does.
\<close>

definition run_route :: "'s server_deps \<Rightarrow> server_request \<Rightarrow> string \<Rightarrow> 's \<Rightarrow> http_response \<times> effect list \<times> 's" where
  "run_route d req rid s =
     (case route_request d req rid s of
        (Inl e, es, s') \<Rightarrow> (map_application_error e, es, s')
      | (Inr r, es, s') \<Rightarrow> (r, es, s'))"

definition execute_request :: "'s server_deps \<Rightarrow> server_request \<Rightarrow> string \<Rightarrow> tracker option \<Rightarrow> 's \<Rightarrow>
    http_response \<times> effect list \<times> tracker option \<times> 's" where
  "execute_request d req rid k s =
     (case k of
        None \<Rightarrow> (case run_route d req rid s of (r, es, s') \<Rightarrow> (r, es, None, s'))
      | Some tr \<Rightarrow>
          (case tracker_begin tr of
             (None, tr') \<Rightarrow>
               (if \<not> operational_route req then (shutting_down_response, [], Some tr', s)
                else (case run_route d req rid s of (r, es, s') \<Rightarrow> (r, es, Some tr', s')))
           | (Some h, tr') \<Rightarrow>
               (case run_route d req rid s of (r, es, s') \<Rightarrow> (r, es, Some (tracker_release h tr'), s'))))"

definition completion_logs :: "server_request \<Rightarrow> string \<Rightarrow> int \<Rightarrow> js_number \<Rightarrow> string option \<Rightarrow> effect list" where
  "completion_logs req rid st duration error_code =
     Log (if st \<ge> 500 then Log_Error else Log_Info)
       (if st \<ge> 500 then ''http.request.failed'' else ''http.request.completed'')
       ([request_field (Some rid), (''method'', Some (JString (http_method req))), (''route'', Some (JString (route_template req))),
         (''status'', Some (JInt st)), (''durationMs'', Some (JNumber duration))] @
        (case error_code of None \<Rightarrow> [] | Some c \<Rightarrow> [(''errorCode'', Some (JString c))])) #
     (if error_code = Some ''IDEMPOTENCY_KEY_CONFLICT'' then [Log Log_Warn ''idempotency.conflict'' [request_field (Some rid)]]
      else if error_code = Some ''IDEMPOTENCY_OPERATION_IN_PROGRESS''
      then [Log Log_Info ''idempotency.processing'' [request_field (Some rid)]] else [])"

record handler_env =
  generated_request_id :: string
  random_uuid :: string
  handler_started :: js_number
  handler_ended :: js_number

definition handle_request :: "'s server_deps \<Rightarrow> handler_env \<Rightarrow> server_request \<Rightarrow> tracker option \<Rightarrow> 's \<Rightarrow>
    http_response \<times> effect list \<times> tracker option \<times> 's" where
  "handle_request d env req k s =
     (let rid = request_id_from req (generated_request_id env) (random_uuid env) in
      case execute_request d req rid k s of
        (raw, es, k', s') \<Rightarrow>
          (let (r, error_code) = attach_request_id raw rid;
               duration = math_max (js_int 0) (js_sub (handler_ended env) (handler_started env)) in
           (r, es @ [Metric (Record_Http (http_method req) (route_template req) (js_int (status r)) (js_div duration (js_int 1000)))] @
              completion_logs req rid (status r) duration error_code, k', s')))"

section \<open>The body\<close>

lemma read_chunks_chunks:
  "0 \<le> so_far \<Longrightarrow> so_far \<le> m \<Longrightarrow> read_chunks m so_far acc (map Chunk cs) =
    (if so_far + int (length (concat cs)) > m then None else Some (Some (acc @ concat cs)))"
  by (induction cs arbitrary: so_far acc) (auto simp: Let_def)

lemma read_chunks_bounded:
  "read_chunks m so_far acc rs = Some (Some bs) \<Longrightarrow> int (length acc) = so_far \<Longrightarrow> so_far \<le> m \<Longrightarrow> int (length bs) \<le> m"
  by (induction m so_far acc rs rule: read_chunks.induct) (auto simp: Let_def split: if_splits)

lemma read_chunks_stops:
  "read_chunks m so_far acc rs = None \<Longrightarrow> read_chunks m so_far acc (rs @ rs') = None"
  by (induction m so_far acc rs rule: read_chunks.induct) (auto simp: Let_def split: if_splits)

text \<open>
  C33: however a body is cut into chunks, it is refused as too large exactly when it has more bytes
  than allowed, and otherwise parsed as a whole; what is buffered never exceeds the limit, and once
  the limit is passed nothing that follows in the stream matters.  A \<open>Content-Length\<close> above the
  limit is refused without reading the body.
\<close>
theorem body_bounded:
  assumes "0 \<le> m"
  shows "read_bounded_json decode m (Some (map Chunk cs)) =
      (if int (length (concat cs)) > m then Body_Too_Large
       else case Option.bind (decode (concat cs)) json_parse of None \<Rightarrow> Body_Invalid | Some v \<Rightarrow> Body_Parsed v) \<and>
    (\<forall>bs. read_chunks m 0 [] rs = Some (Some bs) \<longrightarrow> int (length bs) \<le> m) \<and>
    (read_bounded_json decode m (Some rs) = Body_Too_Large \<longrightarrow> read_bounded_json decode m (Some (rs @ rs')) = Body_Too_Large) \<and>
    (\<forall>n. header req ''Content-Length'' = Some (js_decimal n) \<and> m < n \<and> n < 10 ^ 15 \<longrightarrow>
      validate_declared_body_size req m = Some too_large)"
proof -
  have "read_chunks m 0 [] (map Chunk cs) = (if int (length (concat cs)) > m then None else Some (Some (concat cs)))"
    using read_chunks_chunks [of 0 m "[]" cs] assms by simp
  then have "read_bounded_json decode m (Some (map Chunk cs)) =
      (if int (length (concat cs)) > m then Body_Too_Large
       else case Option.bind (decode (concat cs)) json_parse of None \<Rightarrow> Body_Invalid | Some v \<Rightarrow> Body_Parsed v)"
    by (simp add: read_bounded_json_def)
  moreover have "read_bounded_json decode m (Some rs) = Body_Too_Large \<Longrightarrow> read_chunks m 0 [] rs = None" for rs
    by (auto simp: read_bounded_json_def split: option.splits)
  moreover have "read_chunks m 0 [] rs = None \<Longrightarrow> read_bounded_json decode m (Some rs) = Body_Too_Large" for rs
    by (simp add: read_bounded_json_def)
  moreover have "validate_declared_body_size req m = Some too_large"
    if "header req ''Content-Length'' = Some (js_decimal n)" "m < n" "n < 10 ^ 15" for n
  proof -
    have n: "0 < n" "n \<le> max_safe_integer" using that assms by (simp_all add: max_safe_integer_def)
    then have dec: "js_decimal n = nat_digits (nat n)" by (simp add: js_decimal_def)
    have "nat n < 10 ^ Suc 14" using that(3) n(1) by (simp add: nat_less_iff)
    then have "length (nat_digits (nat n)) \<le> 15" using length_nat_digits_le [of "nat n" 14] by simp
    moreover have "list_all is_digit (js_decimal n)" "js_decimal n \<noteq> []"
      using nat_digits_all [of "nat n"] nat_digits_nonempty [of "nat n"] by (simp_all add: dec list_all_iff)
    moreover have "string_to_number (js_decimal n) = js_int n" using string_to_number_decimal [of n] n by simp
    ultimately show ?thesis using that(1,2) n by (simp add: validate_declared_body_size_def dec Suc_le_eq)
  qed
  ultimately show ?thesis using read_chunks_bounded [of m 0 "[]" rs] read_chunks_stops assms by auto
qed

definition one_chunk :: "byte list" where
  "one_chunk = [123, 125]"

theorem body_bounded_witness:
  "read_bounded_json (\<lambda>_. Some ''{}'') 3 (Some (map Chunk [[123], [125]])) = Body_Parsed (JObject []) \<and>
   read_bounded_json (\<lambda>_. Some ''{}'') 3 (Some (map Chunk [one_chunk, one_chunk])) = Body_Too_Large"
proof -
  have p: "json_parse ''{}'' = Some (JObject [])" by code_simp
  have z: "(0::int) \<le> 3" by simp
  from body_bounded [OF z, of "\<lambda>_. Some ''{}''" "[[123], [125]]"] body_bounded [OF z, of "\<lambda>_. Some ''{}''" "[one_chunk, one_chunk]"]
  show ?thesis by (simp add: p one_chunk_def)
qed

section \<open>What reaches the use cases\<close>

text \<open>Two sets of dependencies that differ only in how the use cases treat inputs the schemas refuse.\<close>

definition valid_input :: "transaction_input \<Rightarrow> string \<Rightarrow> bool" where
  "valid_input t key \<longleftrightarrow>
     1 \<le> amount t \<and> amount t \<le> max_safe_integer \<and>
     length (currency t) = 3 \<and> list_all (\<lambda>c. 65 \<le> code c \<and> code c \<le> 90) (currency t) \<and>
     1 \<le> length (description t) \<and> length (description t) \<le> 200 \<and> js_trim (description t) = description t \<and>
     1 \<le> length key \<and> length key \<le> 128 \<and> list_all is_key_char key"

definition agree_on_valid :: "'s server_deps \<Rightarrow> 's server_deps \<Rightarrow> bool" where
  "agree_on_valid d d' \<longleftrightarrow>
     (\<exists>c g l. d' = d\<lparr>use_create := c, use_get := g, use_list := l\<rparr> \<and>
       (\<forall>rid t key s. valid_input t key \<longrightarrow> use_create d rid t key s = c rid t key s) \<and>
       (\<forall>rid i s. uuid_schema d i \<longrightarrow> use_get d rid i s = g rid i s) \<and>
       (\<forall>rid p n s. 1 \<le> p \<and> p \<le> 1000000 \<and> 1 \<le> n \<and> n \<le> 100 \<longrightarrow> use_list d rid p n s = l rid p n s))"

lemma agree_routes:
  assumes "agree_on_valid d d'"
  shows "list_route d' req rid s = list_route d req rid s" "get_route d' rid i s = get_route d rid i s"
    "create_route d' req rid s = create_route d req rid s"
proof -
  obtain c g l where d': "d' = d\<lparr>use_create := c, use_get := g, use_list := l\<rparr>"
    and c: "\<And>rid t key s. valid_input t key \<Longrightarrow> c rid t key s = use_create d rid t key s"
    and g: "\<And>rid i s. uuid_schema d i \<Longrightarrow> g rid i s = use_get d rid i s"
    and l: "\<And>rid p n s. 1 \<le> p \<and> p \<le> 1000000 \<and> 1 \<le> n \<and> n \<le> 100 \<Longrightarrow> l rid p n s = use_list d rid p n s"
    using assms unfolding agree_on_valid_def by metis
  have j: "json_of_transaction d' t = json_of_transaction d t" "json_of_list d' r = json_of_list d r" for t r
    by (simp_all add: d' json_of_transaction_def json_of_list_def cong: map_cong)
  show "list_route d' req rid s = list_route d req rid s"
    using pagination_schema_Some [of "search_params req"] l unfolding list_route_def j
    by (simp add: d' split: option.splits)
  show "get_route d' rid i s = get_route d rid i s"
    using g unfolding get_route_def j by (simp add: d')
  have v: "valid_input t key" if "transaction_schema v = Some t" "idempotency_key_schema raw = Some key" for v t raw key
    using transaction_schema_Some [OF that(1)] that(2)
    by (auto simp: valid_input_def idempotency_key_schema_def split: if_splits)
  show "create_route d' req rid s = create_route d req rid s"
    using c v unfolding create_route_def j by (auto simp: d' split: option.splits body_result.splits)
qed

lemma agree_handle:
  assumes "agree_on_valid d d'"
  shows "handle_request d' env req k s = handle_request d env req k s"
proof -
  have f: "authenticator d' = authenticator d" "max_body_bytes d' = max_body_bytes d" "use_limiter d' = use_limiter d"
    "use_readiness d' = use_readiness d" "metrics_text d' = metrics_text d"
    using assms by (auto simp: agree_on_valid_def)
  have t: "transaction_route d' = transaction_route d"
    by (intro ext) (auto simp: transaction_route_def agree_routes [OF assms] split: option.splits bool.splits)
  have a: "authenticate d' = authenticate d" unfolding authenticate_def [abs_def] f ..
  have g: "guarded_route d' = guarded_route d" unfolding guarded_route_def [abs_def] t a f ..
  have r: "route_request d' = route_request d" unfolding route_request_def [abs_def] g f ..
  have u: "run_route d' = run_route d" unfolding run_route_def [abs_def] r ..
  show ?thesis unfolding handle_request_def execute_request_def u ..
qed

text \<open>
  C34: the use cases only ever see valid input: whatever a request contains, replacing them by
  others that agree on valid transactions and keys, on identifiers that are UUIDs and on pages and
  limits in their bounds changes nothing about the response, the effects or the state.  What the
  schemas let through is already normalised, and its idempotency key is of 1 to 128 harmless
  characters.
\<close>
theorem only_valid_input:
  assumes "agree_on_valid d d'"
  shows "handle_request d' env req k s = handle_request d env req k s \<and>
    (\<forall>t key. valid_input t key \<longrightarrow> normalize_transaction_input t = t)"
proof -
  have up: "to_upper c = c \<and> js_trim c = c" if "list_all (\<lambda>c. 65 \<le> code c \<and> code c \<le> 90) c" for c
  proof
    show "to_upper c = c" using that by (induction c) (auto simp: to_upper_def upper_char_def)
    have "\<not> is_js_space x" if "x \<in> set c" for x
      using that \<open>list_all _ c\<close> by (auto simp: list_all_iff is_js_space_def dest!: bspec)
    then show "js_trim c = c" by (intro js_trim_id) auto
  qed
  have "normalize_transaction_input t = t" if "valid_input t key" for t key
    using that up [of "currency t"] by (cases t) (simp add: valid_input_def normalize_transaction_input_def)
  with agree_handle [OF assms] show ?thesis by blast
qed

definition demo_deps :: "nat server_deps" where
  "demo_deps = \<lparr>authenticator = (\<lambda>k. Some ''billing''), max_body_bytes = 100,
     use_create = (\<lambda>rid t key s. (Inl Provider_Timeout_Error, [], s + 1)),
     use_get = (\<lambda>rid i s. (Inl Transaction_Not_Found_Error, [], s)), use_list = (\<lambda>rid p l s. (Inl (Plain_Error []), [], s)),
     use_limiter = (\<lambda>rid i s. (Inr \<lparr>allowed = s < 5, retry_after_seconds = 7\<rparr>, [], s)), use_readiness = None,
     metrics_text = (\<lambda>s. []), decode_utf8 = (\<lambda>_. None), date_text = js_decimal, transaction_issues = id,
     pagination_issues = (\<lambda>_. JNull), uuid_schema = is_uuid\<rparr>"

definition strict_deps :: "nat server_deps" where
  "strict_deps = demo_deps\<lparr>use_create := (\<lambda>rid t key s. if valid_input t key then (Inl Provider_Timeout_Error, [], s + 1)
      else (Inl (Plain_Error ''unreachable''), [], 0)),
    use_get := use_get demo_deps, use_list := use_list demo_deps\<rparr>"

definition demo_handler_env :: handler_env where
  "demo_handler_env = \<lparr>generated_request_id = [], random_uuid = ''00000000-0000-4000-8000-000000000000'',
     handler_started = js_int 0, handler_ended = js_int 5\<rparr>"

definition demo_get :: server_request where
  "demo_get = \<lparr>http_method = ''GET'', pathname = ''/transactions/1'', search_params = [], header = (\<lambda>_. None), body_reads = None\<rparr>"

theorem only_valid_input_witness:
  "handle_request strict_deps demo_handler_env demo_get None 0 = handle_request demo_deps demo_handler_env demo_get None 0"
proof -
  have "agree_on_valid demo_deps strict_deps"
    unfolding agree_on_valid_def strict_deps_def by (intro exI conjI) (rule refl, auto simp: demo_deps_def)
  from only_valid_input [OF this, of demo_handler_env demo_get None 0] show ?thesis ..
qed

section \<open>Guards\<close>

lemma transaction_route_guarded:
  assumes "is_transaction_route req"
  shows "route_request d req rid s =
      (case (if is_create req then validate_declared_body_size req (max_body_bytes d) else None) of
         Some r \<Rightarrow> (Inr r, [], s) | None \<Rightarrow> guarded_route d req rid s)" "\<not> operational_route req"
proof -
  have ops: "id_of_path p = None" if "p \<in> set [''/health'', ''/health/live'', ''/health/ready'', ''/metrics'', ''/transactions'']" for p
    using that by (auto simp: id_of_path_def)
  have p: "pathname req = ''/transactions'' \<or> id_of_path (pathname req) \<noteq> None"
    using assms by (auto simp: is_transaction_route_def is_create_def)
  then have "pathname req \<notin> set [''/health'', ''/health/live'', ''/health/ready'', ''/metrics'']"
    using ops [of "pathname req"] by auto
  with assms p show "route_request d req rid s =
      (case (if is_create req then validate_declared_body_size req (max_body_bytes d) else None) of
         Some r \<Rightarrow> (Inr r, [], s) | None \<Rightarrow> guarded_route d req rid s)" "\<not> operational_route req"
    by (auto simp: route_request_def operational_route_def route_template_def)
qed

lemma declared_size_status:
  "validate_declared_body_size req m = Some r \<Longrightarrow> status r = 400 \<or> status r = 413"
  by (auto simp: validate_declared_body_size_def too_large_def invalid_content_length_def split: option.splits if_splits)

lemma handle_request_parts:
  assumes "handle_request d env req k s = (r, es, k', s')"
  obtains raw es0 where
    "execute_request d req (request_id_from req (generated_request_id env) (random_uuid env)) k s = (raw, es0, k', s')"
    "r = fst (attach_request_id raw (request_id_from req (generated_request_id env) (random_uuid env)))" "status r = status raw"
proof -
  let ?rid = "request_id_from req (generated_request_id env) (random_uuid env)"
  obtain raw es0 k0 s0 where e: "execute_request d req ?rid k s = (raw, es0, k0, s0)" by (metis prod_cases4)
  with assms have "k0 = k'" "s0 = s'" "r = fst (attach_request_id raw ?rid)"
    by (simp_all add: handle_request_def Let_def split: prod.splits)
  with that e attach_status show thesis by metis
qed

text \<open>
  C35: nothing behind the guards of a transaction route is reached by a request that fails one.  While the
  service shuts down it is refused with 503 and the state does not change; without a bearer token
  the authenticator accepts it is refused, and the state does not change; a service over its limit
  gets 429 with the time to wait, and only the limiter has changed the state.
\<close>
theorem requests_guarded:
  assumes "is_transaction_route req" "handle_request d env req k s = (r, es, k', s')"
  shows "((\<exists>tr. k = Some tr \<and> shutting_down tr) \<longrightarrow> s' = s \<and> k' = k \<and> status r = 503) \<and>
    (authenticate d req = None \<longrightarrow> s' = s \<and> status r \<in> {400, 401, 413, 503}) \<and>
    (\<forall>service l es1 s1. authenticate d req = Some service \<and> \<not> allowed l \<and>
       use_limiter d (request_id_from req (generated_request_id env) (random_uuid env)) service s = (Inr l, es1, s1) \<longrightarrow>
       (s' = s \<and> status r \<in> {400, 413, 503}) \<or>
       (s' = s1 \<and> status r = 429 \<and> js_get (headers r) ''Retry-After'' = Some (js_decimal (retry_after_seconds l)))) \<and>
    (\<forall>service. authenticate d req = Some service \<longrightarrow> (\<exists>h token. header req ''Authorization'' = Some h \<and>
       bearer_token h = Some token \<and> authenticator d token = Some service))"
proof -
  let ?rid = "request_id_from req (generated_request_id env) (random_uuid env)"
  obtain raw es0 where e: "execute_request d req ?rid k s = (raw, es0, k', s')"
    "r = fst (attach_request_id raw ?rid)" "status r = status raw"
    by (rule handle_request_parts [OF assms(2)])
  note route = transaction_route_guarded [OF assms(1)]
  define refused where "refused \<longleftrightarrow> (\<exists>tr. k = Some tr \<and> shutting_down tr)"
  have shut: "s' = s \<and> k' = k \<and> raw = shutting_down_response" if "refused"
    using that e(1) route(2) by (auto simp: refused_def execute_request_def tracker_begin_def)
  have run: "\<exists>es1. run_route d req ?rid s = (raw, es1, s')" if "\<not> refused"
    using that e(1) by (auto simp: refused_def execute_request_def tracker_begin_def split: option.splits prod.splits)
  have unauth: "s' = s \<and> status raw \<in> {400, 401, 413}" if nr: "\<not> refused" and a: "authenticate d req = None"
  proof -
    obtain es1 where "run_route d req ?rid s = (raw, es1, s')" using run nr by blast
    then show ?thesis using a route(1) [of d ?rid s]
      by (auto simp: run_route_def guarded_route_def unauthorized_def split: option.splits if_splits dest: declared_size_status)
  qed
  have limited: "(s' = s \<and> status raw \<in> {400, 413}) \<or> (s' = s1 \<and> status raw = 429 \<and>
      raw = error_response ''RATE_LIMIT_EXCEEDED'' ''Too many requests'' 429 None [(''Retry-After'', js_decimal (retry_after_seconds l))])"
    if nr: "\<not> refused" and a: "authenticate d req = Some service" "use_limiter d ?rid service s = (Inr l, es1, s1)" "\<not> allowed l" for service l es1 s1
  proof -
    obtain es2 where "run_route d req ?rid s = (raw, es2, s')" using run nr by blast
    then show ?thesis using a route(1) [of d ?rid s]
      by (auto simp: run_route_def guarded_route_def split: option.splits if_splits dest: declared_size_status)
  qed
  have wait: "js_get (headers (fst (attach_request_id (error_response c m 429 None [(''Retry-After'', v)]) i))) ''Retry-After'' = Some v" for c m v i
    using js_get_set by (simp add: attach_request_id_def Let_def error_response_def response_json_of_def parsed_body_def
        json_field_def js_get_def js_set_def)
  have st503: "status shutting_down_response = 503" by (simp add: shutting_down_response_def)
  have "\<exists>h token. header req ''Authorization'' = Some h \<and> bearer_token h = Some token \<and> authenticator d token = Some service"
    if "authenticate d req = Some service" for service
    using that by (auto simp: authenticate_def split: option.splits if_splits)
  moreover have "s' = s \<and> k' = k \<and> status r = 503" if refused using shut [OF that] st503 e(3) by simp
  moreover have "s' = s \<and> status r \<in> {400, 401, 413, 503}" if "authenticate d req = None"
    using shut unauth [OF _ that] st503 e(3) by (cases refused) auto
  moreover have "(s' = s \<and> status r \<in> {400, 413, 503}) \<or>
      (s' = s1 \<and> status r = 429 \<and> js_get (headers r) ''Retry-After'' = Some (js_decimal (retry_after_seconds l)))"
    if "authenticate d req = Some service" "\<not> allowed l" "use_limiter d ?rid service s = (Inr l, es1, s1)" for service l es1 s1
  proof (cases refused)
    case True
    with shut st503 e(3) show ?thesis by simp
  next
    case False
    from limited [OF this that(1,3,2)] show ?thesis using wait e(2,3) by auto
  qed
  ultimately show ?thesis unfolding refused_def [symmetric] by blast
qed

lemma demo_get_route: "is_transaction_route demo_get" "authenticate demo_deps demo_get = None"
  by (simp_all add: is_transaction_route_def demo_get_def id_of_path_def authenticate_def)

theorem requests_guarded_witness:
  "snd (snd (snd (handle_request demo_deps demo_handler_env demo_get None 3))) = 3 \<and>
   status (fst (handle_request demo_deps demo_handler_env demo_get None 3)) \<in> {400, 401, 413, 503}"
proof -
  let ?h = "handle_request demo_deps demo_handler_env demo_get None 3"
  have "?h = (fst ?h, fst (snd ?h), fst (snd (snd ?h)), snd (snd (snd ?h)))" by simp
  from requests_guarded [OF demo_get_route(1) this] demo_get_route(2) show ?thesis by blast
qed

section \<open>Responses\<close>

text \<open>A response of the routes: a success, an error envelope, or the readiness of a service that is not ready.\<close>

definition raw_response_ok :: "server_request \<Rightarrow> http_response \<Rightarrow> bool" where
  "raw_response_ok req r \<longleftrightarrow>
     (200 \<le> status r \<and> status r < 400) \<or> (\<exists>cd. error_envelope cd r) \<or>
     (pathname req = ''/health/ready'' \<and> status r = 503 \<and> body r = Json_Body (JObject [(''status'', JString ''not_ready'')]))"

lemma raw_response_ok_simps [simp]:
  "400 \<le> st \<Longrightarrow> st \<le> 599 \<Longrightarrow> raw_response_ok req (error_response c m st dt hs)"
  "raw_response_ok req (map_application_error e)"
  "raw_response_ok req (json_ok v 200)" "raw_response_ok req (json_ok v 201)"
proof -
  show "400 \<le> st \<Longrightarrow> st \<le> 599 \<Longrightarrow> raw_response_ok req (error_response c m st dt hs)"
    unfolding raw_response_ok_def by (blast intro: error_response_envelope)
  show "raw_response_ok req (map_application_error e)"
    unfolding raw_response_ok_def using map_application_error_envelope by blast
qed (simp_all add: raw_response_ok_def json_ok_def response_json_of_def)

lemma fixed_responses_ok [simp]:
  "raw_response_ok req unauthorized" "raw_response_ok req too_large" "raw_response_ok req invalid_content_length"
  "raw_response_ok req not_found" "raw_response_ok req shutting_down_response"
  by (simp_all add: unauthorized_def too_large_def invalid_content_length_def not_found_def shutting_down_response_def)

lemma routes_ok:
  "list_route d req rid s = (Inr r, es, s') \<Longrightarrow> raw_response_ok req' r"
  "get_route d rid i s = (Inr r, es, s') \<Longrightarrow> raw_response_ok req' r"
  "create_route d req rid s = (Inr r, es, s') \<Longrightarrow> raw_response_ok req' r"
  by (auto simp: list_route_def get_route_def create_route_def map_sum_def id_def
      split: option.splits prod.splits sum.splits if_splits body_result.splits)

lemma transaction_route_ok: "transaction_route d req rid s = (Inr r, es, s') \<Longrightarrow> raw_response_ok req' r"
  by (auto simp: transaction_route_def split: if_splits option.splits bool.splits dest: routes_ok)

lemma guarded_route_ok: "guarded_route d req rid s = (Inr r, es, s') \<Longrightarrow> raw_response_ok req' r"
  by (auto simp: guarded_route_def split: option.splits prod.splits sum.splits if_splits dest: transaction_route_ok)

lemma route_request_ok:
  assumes "route_request d req rid s = (Inr r, es, s')"
  shows "raw_response_ok req r"
proof (cases "http_method req = ''GET'' \<and> pathname req = ''/health/ready''")
  case True
  have nr: "raw_response_ok req (json_ok (JObject [(''status'', JString ''not_ready'')]) 503)"
    using True by (simp add: raw_response_ok_def json_ok_def response_json_of_def)
  from True assms show ?thesis
    by (auto simp: route_request_def nr split: option.splits prod.splits if_splits)
next
  case False
  have size: "raw_response_ok req r" if "validate_declared_body_size req m = Some r" for m
    using that by (auto simp: validate_declared_body_size_def split: option.splits if_splits)
  from assms False show ?thesis
    unfolding route_request_def
    by (auto simp del: set_simps simp: raw_response_ok_def [of _ "\<lparr>status = _, headers = _, body = _\<rparr>"]
        split: if_splits option.splits dest: guarded_route_ok size)
qed

lemma run_route_ok: "run_route d req rid s = (r, es, s') \<Longrightarrow> raw_response_ok req r"
  by (auto simp: run_route_def split: prod.splits sum.splits dest: route_request_ok)

lemma execute_request_ok:
  assumes "execute_request d req rid k s = (r, es, k', s')" "\<forall>tr. k = Some tr \<longrightarrow> tracker_ok tr"
  shows "raw_response_ok req r"
    "\<forall>tr. k = Some tr \<longrightarrow> (\<exists>tr'. k' = Some tr' \<and> tracker_ok tr' \<and> active tr' = active tr \<and> shutting_down tr' = shutting_down tr)"
proof -
  show "raw_response_ok req r"
    using assms(1) by (auto simp: execute_request_def split: option.splits prod.splits if_splits dest: run_route_ok)
  have "\<exists>tr'. k' = Some tr' \<and> tracker_ok tr' \<and> active tr' = active tr \<and> shutting_down tr' = shutting_down tr"
    if k: "k = Some tr" for tr
  proof -
    obtain h tr1 where b: "tracker_begin tr = (h, tr1)" by fastforce
    show ?thesis
    proof (cases h)
      case None
      with b have "tr1 = tr" by (auto simp: tracker_begin_def split: if_splits)
      with None b k assms show ?thesis by (auto simp: execute_request_def split: if_splits prod.splits)
    next
      case (Some g)
      with b k assms(1) have "k' = Some (tracker_release g tr1)" by (auto simp: execute_request_def split: prod.splits)
      with Some b tracker_begin_release [of tr g tr1] assms(2) k show ?thesis by simp
    qed
  qed
  then show "\<forall>tr. k = Some tr \<longrightarrow> (\<exists>tr'. k' = Some tr' \<and> tracker_ok tr' \<and> active tr' = active tr \<and> shutting_down tr' = shutting_down tr)"
    by blast
qed

lemma request_id_from_ok: "is_request_id ru \<Longrightarrow> is_request_id (request_id_from req g ru)"
  by (auto simp: request_id_from_def split: option.splits)



end
