(* ===== verification/Http_Requests.thy ===== *)
theory Http_Requests
  imports Http_Server
begin

text \<open>
  What a request comes to in the handler of \<^verbatim>\<open>src/src/http/server.ts\<close>, for the theories that
  put dependencies into it: the input the creation route takes from a request, the request that is
  answered with 201, the request whose guards all pass, and the invariants of the dependencies
  that the handler keeps.
\<close>

section \<open>The input of a creation\<close>

text \<open>What \<open>create_route\<close> hands to the use case, when it hands anything to it.\<close>

definition create_input :: "'s server_deps \<Rightarrow> server_request \<Rightarrow> (transaction_input \<times> string) option" where
  "create_input d req =
     (if \<not> supported_content_type (header req ''Content-Type'') then None
      else Option.bind (header req ''Idempotency-Key'') (\<lambda>raw_key.
        Option.bind (idempotency_key_schema raw_key) (\<lambda>key.
          case read_bounded_json (decode_utf8 d) (max_body_bytes d) (body_reads req) of
            Body_Parsed v \<Rightarrow> map_option (\<lambda>t. (t, key)) (transaction_schema v)
          | _ \<Rightarrow> None)))"

lemma create_input_Some:
  assumes "create_input d req = Some (t, key)"
  obtains raw v where "supported_content_type (header req ''Content-Type'')" "header req ''Idempotency-Key'' = Some raw"
    "idempotency_key_schema raw = Some key" "transaction_schema v = Some t"
    "read_bounded_json (decode_utf8 d) (max_body_bytes d) (body_reads req) = Body_Parsed v"
proof (cases "read_bounded_json (decode_utf8 d) (max_body_bytes d) (body_reads req)")
  case (Body_Parsed v)
  with assms that show thesis by (auto simp: create_input_def Option.bind_eq_Some_conv split: if_splits)
qed (use assms in \<open>auto simp: create_input_def Option.bind_eq_Some_conv split: if_splits\<close>)

lemma create_input_valid:
  assumes "create_input d req = Some (t, key)"
  shows "valid_input t key"
proof -
  obtain v raw where v: "transaction_schema v = Some t" "idempotency_key_schema raw = Some key"
    using create_input_Some [OF assms] by metis
  from transaction_schema_Some [OF v(1)] v(2) show ?thesis
    by (auto simp: valid_input_def idempotency_key_schema_def split: if_splits)
qed

definition creation_response :: "'s server_deps \<Rightarrow> create_result \<Rightarrow> http_response" where
  "creation_response d c = json_ok (json_of_transaction d (result_transaction c)) (if created c then 201 else 200)"

lemma create_route_input:
  assumes "create_input d req = Some (t, key)" "use_create d rid t key s = (r, es, s')"
  shows "create_route d req rid s = (map_sum id (creation_response d) r, es, s')"
proof -
  obtain raw v where "supported_content_type (header req ''Content-Type'')" "header req ''Idempotency-Key'' = Some raw"
    "idempotency_key_schema raw = Some key" "transaction_schema v = Some t"
    "read_bounded_json (decode_utf8 d) (max_body_bytes d) (body_reads req) = Body_Parsed v"
    by (rule create_input_Some [OF assms(1)])
  with assms(2) show ?thesis by (simp add: create_route_def creation_response_def [abs_def])
qed

lemma create_route_no_input:
  assumes "create_input d req = None"
  shows "\<exists>r. create_route d req rid s = (Inr r, [], s) \<and> 400 \<le> status r"
  using assms
  by (auto simp: create_input_def create_route_def Option.bind_eq_None_conv too_large_def
      split: option.splits body_result.splits)

section \<open>Creations\<close>

lemma creation_status [simp]: "status (creation_response d c) = (if created c then 201 else 200)"
  by (simp add: creation_response_def json_ok_def response_json_of_def)

lemma map_application_error_status: "400 \<le> status (map_application_error e)"
  using map_application_error_envelope [of e] by (auto simp: error_envelope_def)

lemma create_is_route:
  "is_create req \<Longrightarrow> is_transaction_route req \<and> transaction_route d req rid s = create_route d req rid s"
  by (auto simp: is_transaction_route_def transaction_route_def is_create_def split: option.splits)

text \<open>A creation request past every guard: its response, its effects before the completion, its state.\<close>

lemma run_route_create:
  assumes "is_create req" "validate_declared_body_size req (max_body_bytes d) = None"
    and "authenticate d req = Some service" "use_limiter d rid service s = (Inr l, es1, s1)"
    and "create_input d req = Some (t, key)" "use_create d rid t key s1 = (a, es2, s2)"
  shows "run_route d req rid s =
    (if allowed l then (case a of Inl e \<Rightarrow> map_application_error e | Inr c \<Rightarrow> creation_response d c, es1 @ es2, s2)
     else (error_response ''RATE_LIMIT_EXCEEDED'' ''Too many requests'' 429 None
        [(''Retry-After'', js_decimal (retry_after_seconds l))], es1 @ [warn_log ''rate_limit.rejected'' req rid], s1))"
  using transaction_route_guarded(1) [of req d rid s] create_is_route [OF assms(1), of d rid s1] assms
    create_route_input [OF assms(5,6)]
  by (auto simp: run_route_def guarded_route_def split: sum.splits)

text \<open>Only a creation is answered with 201, and then every guard had let it pass.\<close>

lemma get_list_route_status:
  "list_route d req rid s = (Inr r, es, s') \<Longrightarrow> status r \<noteq> 201"
  "get_route d rid i s = (Inr r, es, s') \<Longrightarrow> status r \<noteq> 201"
  by (auto simp: list_route_def get_route_def map_sum_def json_ok_def response_json_of_def id_def
      split: option.splits prod.splits sum.splits if_splits)

lemma route_created:
  assumes "route_request d req rid s = (Inr r, es, s')" "status r = 201"
  shows "is_create req \<and> validate_declared_body_size req (max_body_bytes d) = None \<and>
    guarded_route d req rid s = (Inr r, es, s')"
proof -
  have tr: "is_transaction_route req"
    using assms by (auto simp: route_request_def json_ok_def response_json_of_def not_found_def error_response_def split: if_splits option.splits prod.splits)
  from transaction_route_guarded(1) [OF this, of d rid s] assms declared_size_status [of req "max_body_bytes d"]
  have g: "guarded_route d req rid s = (Inr r, es, s')"
    "is_create req \<longrightarrow> validate_declared_body_size req (max_body_bytes d) = None"
    by (auto split: if_splits option.splits)
  have "is_create req"
  proof (rule ccontr)
    assume "\<not> is_create req"
    with tr have "transaction_route d req rid s0 = (Inr r, es0, s1) \<Longrightarrow> status r \<noteq> 201" for s0 es0 s1
      by (auto simp: transaction_route_def is_transaction_route_def split: if_splits option.splits dest: get_list_route_status)
    with g(1) assms(2) show False
      by (auto simp: guarded_route_def unauthorized_def split: option.splits prod.splits sum.splits if_splits)
  qed
  with g show ?thesis by blast
qed

lemma run_route_created:
  assumes "run_route d req rid s = (r, es, s')" "status r = 201"
  obtains service l es1 s1 t key c es2 where "is_create req"
    "validate_declared_body_size req (max_body_bytes d) = None" "authenticate d req = Some service"
    "use_limiter d rid service s = (Inr l, es1, s1)" "allowed l" "create_input d req = Some (t, key)"
    "use_create d rid t key s1 = (Inr c, es2, s')" "created c" "r = creation_response d c"
proof -
  obtain x where x: "route_request d req rid s = (Inr r, es, s')"
  proof (cases "fst (route_request d req rid s)")
    case (Inl e)
    with assms map_application_error_status [of e] show ?thesis by (auto simp: run_route_def split: prod.splits)
  next
    case (Inr x)
    with assms that show ?thesis by (auto simp: run_route_def split: prod.splits)
  qed
  note c = route_created [OF x assms(2)]
  obtain service where a: "authenticate d req = Some service"
    using c assms(2) by (auto simp: guarded_route_def unauthorized_def split: option.splits)
  obtain lr es1 s1 where l: "use_limiter d rid service s = (lr, es1, s1)" by (metis prod_cases3)
  obtain lm where lm: "lr = Inr lm" "allowed lm"
    using c a l assms(2) by (auto simp: guarded_route_def split: sum.splits if_splits)
  obtain es2 where cr: "create_route d req rid s1 = (Inr r, es2, s')"
    using c a l lm create_is_route [of req d rid s1] by (auto simp: guarded_route_def split: prod.splits)
  obtain t key where i: "create_input d req = Some (t, key)"
    using create_route_no_input [of d req rid s1] cr assms(2) by (cases "create_input d req") auto
  obtain ur es3 s3 where u: "use_create d rid t key s1 = (ur, es3, s3)" by (metis prod_cases3)
  from create_route_input [OF i u] cr obtain cc where "ur = Inr cc" "s3 = s'" "r = creation_response d cc"
    by (cases ur) auto
  with that [OF _ _ a] c l lm i u assms(2) show thesis by (auto split: if_splits)
qed

section \<open>The handler\<close>

lemma attach_success_body: "status r < 400 \<Longrightarrow> body (fst (attach_request_id r rid)) = body r"
  by (simp add: attach_request_id_def Let_def)

lemma completion_logs_no_metric [simp]: "Metric m \<notin> set (completion_logs req rid st dur cd)"
  by (simp add: completion_logs_def)

text \<open>A request that is admitted, or of a route that always is, runs its route.\<close>

lemma handle_request_runs:
  assumes "handle_request d env req (Some k) s = (r, es, k', s')" "\<not> shutting_down k"
    and "run_route d req (request_id_from req (generated_request_id env) (random_uuid env)) s = (raw, es1, s1)"
  shows "s' = s1 \<and> status r = status raw \<and> (status raw < 400 \<longrightarrow> body r = body raw) \<and>
    (\<exists>tail. es = es1 @ tail \<and> (\<forall>e \<in> set tail. e \<noteq> Metric Provider_Attempt))"
proof -
  let ?rid = "request_id_from req (generated_request_id env) (random_uuid env)"
  obtain h tr where b: "tracker_begin k = (Some h, tr)" using assms(2) by (simp add: tracker_begin_def)
  obtain r0 cd where a: "attach_request_id raw ?rid = (r0, cd)" by fastforce
  from attach_status [of raw ?rid] attach_success_body [of raw ?rid] a assms b show ?thesis
    by (auto simp: handle_request_def execute_request_def Let_def)
qed

lemma handle_request_refused:
  assumes "handle_request d env req (Some k) s = (r, es, k', s')" "shutting_down k" "is_transaction_route req"
  shows "s' = s \<and> k' = Some k \<and> status r = 503 \<and> (\<forall>e \<in> set es. e \<noteq> Metric Provider_Attempt)"
proof -
  have "tracker_begin k = (None, k)" using assms(2) by (simp add: tracker_begin_def)
  with assms transaction_route_guarded(2) [OF assms(3)]
    attach_status [of shutting_down_response "request_id_from req (generated_request_id env) (random_uuid env)"]
  show ?thesis
    by (auto simp: handle_request_def execute_request_def Let_def shutting_down_response_def split: prod.splits)
qed

section \<open>Invariants of the dependencies\<close>

definition deps_keep :: "('s \<Rightarrow> bool) \<Rightarrow> 's server_deps \<Rightarrow> bool" where
  "deps_keep P d \<longleftrightarrow>
     (\<forall>rid t key s. valid_input t key \<longrightarrow> P s \<longrightarrow> P (snd (snd (use_create d rid t key s)))) \<and>
     (\<forall>rid i s. P s \<longrightarrow> P (snd (snd (use_get d rid i s)))) \<and>
     (\<forall>rid p n s. P s \<longrightarrow> P (snd (snd (use_list d rid p n s)))) \<and>
     (\<forall>rid i s. P s \<longrightarrow> P (snd (snd (use_limiter d rid i s)))) \<and>
     (\<forall>check s. use_readiness d = Some check \<longrightarrow> P s \<longrightarrow> P (snd (snd (check s))))"

lemma deps_keep_routes:
  assumes "deps_keep P d" "P s"
  shows "P (snd (snd (list_route d req rid s)))" "P (snd (snd (get_route d rid i s)))" "P (snd (snd (create_route d req rid s)))"
proof -
  show "P (snd (snd (list_route d req rid s)))" "P (snd (snd (get_route d rid i s)))"
    using assms unfolding deps_keep_def
    by (auto simp: list_route_def get_route_def split: option.splits prod.splits) (metis snd_conv)+
  show "P (snd (snd (create_route d req rid s)))"
  proof (cases "create_input d req")
    case None
    from create_route_no_input [OF this, of rid s] assms(2) show ?thesis by auto
  next
    case (Some x)
    obtain t key where x: "x = (t, key)" by fastforce
    obtain a es s' where u: "use_create d rid t key s = (a, es, s')" by (metis prod_cases3)
    have "P s'" using assms create_input_valid [of d req t key] Some x u unfolding deps_keep_def by (metis snd_conv)
    with create_route_input [OF _ u] Some x show ?thesis by simp
  qed
qed

lemma deps_keep_handle:
  assumes "deps_keep P d" "P s" "handle_request d env req k s = (r, es, k', s')"
  shows "P s'"
proof -
  have t: "P (snd (snd (transaction_route d req rid s)))" if "P s" for rid s
    using deps_keep_routes [OF assms(1) that] by (auto simp: transaction_route_def split: option.splits bool.splits)
  have g: "P (snd (snd (guarded_route d req rid s)))" if "P s" for rid s
  proof (cases "authenticate d req")
    case (Some service)
    obtain lr es1 s1 where l: "use_limiter d rid service s = (lr, es1, s1)" by (metis prod_cases3)
    then have "P s1" using assms(1) that unfolding deps_keep_def by (metis snd_conv)
    with t [OF this, of rid] Some l show ?thesis by (auto simp: guarded_route_def split: sum.splits prod.splits)
  qed (use that in \<open>simp add: guarded_route_def\<close>)
  have q: "P (snd (snd (route_request d req rid s)))" if "P s" for rid s
  proof -
    have "P (snd (snd (check s)))" if "use_readiness d = Some check" for check
      using assms(1) that \<open>P s\<close> unfolding deps_keep_def by blast
    with g [OF that, of rid] that show ?thesis
      by (auto simp: route_request_def split: option.splits prod.splits)
  qed
  have u: "P s2" if "run_route d req rid s = (r2, es2, s2)" for rid r2 es2 s2
    using q [OF assms(2), of rid] that by (auto simp: run_route_def split: prod.splits sum.splits)
  show ?thesis
    using assms(2,3) u
    by (auto simp: handle_request_def execute_request_def Let_def split: option.splits prod.splits if_splits)
qed

end
