(* ===== verification/Application.thy ===== *)
theory Application
  imports Config Http_Requests Create_Transaction Redis_Cache Rate_Limit Http_Provider Resilient_Provider Redis_Executor
begin

text \<open>
  \<^verbatim>\<open>src/src/main.ts\<close>: the constructors in their order, the start-up check, and the wiring of the
  handler of \<open>Http_Server\<close> to the use cases over Postgres, the observed cache and limiter over
  Redis, and the resilient provider over HTTP.  Everything a request meets that the program does
  not decide (clocks, identifiers, what \<open>fetch\<close> and Redis do, what other requests do while this
  one waits for Postgres) is in its \<open>request_env\<close>.
\<close>

section \<open>What the program runs on\<close>

record runtime =
  rt_sha256 :: "byte list \<Rightarrow> byte list"
  rt_driver :: driver
  rt_cache :: cache_runtime
  rt_cache_at_expiry :: bool
  rt_locale_compare :: "string \<Rightarrow> string \<Rightarrow> int"
  rt_code_order :: "string \<Rightarrow> string \<Rightarrow> int"
  rt_decode_utf8 :: "byte list \<Rightarrow> string option"
  rt_transaction_issues :: "json \<Rightarrow> json"
  rt_pagination_issues :: "(string \<times> string) list \<Rightarrow> json"
  rt_url_protocol :: "string \<Rightarrow> string option"

text \<open>The state the requests share.\<close>

record application_state =
  app_database :: database
  app_redis :: redis
  app_breaker :: circuit_breaker
  app_metrics :: application_metrics

record application =
  app_config :: application_config
  app_credentials :: "stored_credential list"
  app_shutdown :: shutdown_config

definition metrics_of :: "effect list \<Rightarrow> metric_event list" where
  "metrics_of es = List.map_filter (\<lambda>e. case e of Metric m \<Rightarrow> Some m | Log _ _ _ \<Rightarrow> None) es"

section \<open>Observers\<close>

definition report_redis_failure :: "string option \<Rightarrow> string \<Rightarrow> effect list" where
  "report_redis_failure rid opn =
     (let metric_operation =
        (if opn = ''transaction_cache_read'' then ''cache_get''
         else if opn = ''transaction_cache_write'' then ''cache_set'' else ''rate_limit'')
      in [Metric (Redis_Error metric_operation),
          Log Log_Warn ''redis.error'' [(''operation'', Some (JString metric_operation)), request_field rid]])"

fun circuit_notice :: "string option \<Rightarrow> circuit_event \<Rightarrow> effect list" where
  "circuit_notice rid Opened = [Metric Circuit_Opened, Log Log_Warn ''circuit_breaker.opened'' [request_field rid]]"
| "circuit_notice rid Closed_Event = [Log Log_Info ''circuit_breaker.closed'' [request_field rid]]"

section \<open>What happens to one request\<close>

text \<open>
  \<open>meanwhile\<close> is what other requests do to the shared state between the answer to the claim and
  the start of the provider call.
\<close>

record request_env =
  claim_time :: int
  created_time :: int
  completed_time :: int
  new_id :: string
  meanwhile :: "application_state \<Rightarrow> application_state"
  process_time :: int
  attempt_at :: "nat \<Rightarrow> attempt_env"
  fetch_at :: "nat \<Rightarrow> http_request \<Rightarrow> provider_response result"
  limiter_time :: int
  limiter_fault :: redis_fault
  cache_times :: "int \<times> int"
  cache_faults :: "(redis_fault \<times> redis_fault) \<times> redis_fault"
  list_later :: "database \<Rightarrow> database"
  postgres_probe :: probe
  redis_probe :: probe

section \<open>The provider\<close>

text \<open>The call of \<open>HttpPaymentProvider\<close> in attempt \<open>k\<close>.\<close>

definition provider_call :: "runtime \<Rightarrow> application_config \<Rightarrow> request_env \<Rightarrow> string option \<Rightarrow> transaction_input \<Rightarrow> string \<Rightarrow> nat \<Rightarrow>
    provider_result result \<times> metric_event list \<times> timer_event list" where
  "provider_call rt c env rid t key k =
     http_process (number_to_text (rt_cache rt)) (provider_url c) (integer_of (attempt_timeout_ms (config_retry c)))
       (fetch_at env k) rid t key"

definition provider_attempt :: "runtime \<Rightarrow> application_config \<Rightarrow> request_env \<Rightarrow> string option \<Rightarrow> transaction_input \<Rightarrow> string \<Rightarrow> nat \<Rightarrow>
    attempt_env" where
  "provider_attempt rt c env rid t key k =
     (attempt_at env k)\<lparr>inner_answer := fst (provider_call rt c env rid t key k), during_call := id, during_sleep := id\<rparr>"

text \<open>
  The effects of a call of \<open>process\<close>, in their order: those of each attempt inside, those of the
  breaker's observer at the report, and its own.
\<close>

fun provider_effects :: "(nat \<Rightarrow> metric_event list) \<Rightarrow> effect list \<Rightarrow> nat \<Rightarrow> resilient_event list \<Rightarrow> effect list" where
  "provider_effects attempt_metrics notices k [] = []"
| "provider_effects attempt_metrics notices k (Called _ _ _ # evs) =
     map Metric (attempt_metrics k) @ provider_effects attempt_metrics notices (Suc k) evs"
| "provider_effects attempt_metrics notices k (Slept _ # evs) = provider_effects attempt_metrics notices k evs"
| "provider_effects attempt_metrics notices k (Reported _ _ # evs) = notices @ provider_effects attempt_metrics notices k evs"
| "provider_effects attempt_metrics notices k (Effect e # evs) = e # provider_effects attempt_metrics notices k evs"

definition provider_fuel :: "application_config \<Rightarrow> nat" where
  "provider_fuel c = 2 * nat (integer_of (max_attempts (config_retry c)))"

definition payment_provider :: "runtime \<Rightarrow> application_config \<Rightarrow> request_env \<Rightarrow> string option \<Rightarrow> transaction_input \<Rightarrow> string \<Rightarrow>
    application_state \<times> effect list \<Rightarrow> provider_result result \<times> application_state \<times> effect list" where
  "payment_provider rt c env rid t key st =
     (let s = meanwhile env (fst st) in
      case resilient_process (config_retry c) rid (provider_attempt rt c env rid t key) (process_time env) t key
          (provider_fuel c) (app_breaker s) of
        None \<Rightarrow> (Inl (Plain_Error ''out of fuel''), s, snd st)
      | Some (a, evs, b) \<Rightarrow>
          (a, s\<lparr>app_breaker := b\<rparr>,
           snd st @ provider_effects (\<lambda>k. fst (snd (provider_call rt c env rid t key k)))
             (concat (map (circuit_notice rid) (drop (length (observed (app_breaker s))) (observed b)))) 1 evs))"

section \<open>The use cases\<close>

definition put_database :: "database \<Rightarrow> application_state \<times> effect list \<Rightarrow> application_state \<times> effect list" where
  "put_database db st = ((fst st)\<lparr>app_database := db\<rparr>, snd st)"

definition transaction_repository_of :: "runtime \<Rightarrow> (application_state \<times> effect list) transaction_repository" where
  "transaction_repository_of rt =
     repository_at (\<lambda>st. app_database (fst st)) put_database (postgres_transaction_repository (rt_driver rt))"

definition create_env_of :: "runtime \<Rightarrow> application_config \<Rightarrow> request_env \<Rightarrow> string option \<Rightarrow>
    (application_state \<times> effect list) create_env" where
  "create_env_of rt c env rid =
     \<lparr>claimed_at_now = claim_time env, provider_process = payment_provider rt c env rid,
      generated_id = new_id env, created_at_now = created_time env, completed_at_now = completed_time env\<rparr>"

definition app_create :: "runtime \<Rightarrow> application_config \<Rightarrow> request_env \<Rightarrow> string \<Rightarrow> transaction_input \<Rightarrow> string \<Rightarrow>
    application_state \<Rightarrow> create_result result \<times> effect list \<times> application_state" where
  "app_create rt c env rid t key s =
     (case create_transaction_execute (transaction_repository_of rt) (number_to_text (rt_cache rt)) (rt_sha256 rt)
         (integer_of (stale_timeout_ms c)) (create_env_of rt c env (Some rid)) t key (s, []) of
        (a, s', es) \<Rightarrow> (a, es, s'))"

text \<open>The cache: Redis, its failures reported, observed.\<close>

definition redis_cache_of :: "runtime \<Rightarrow> application_config \<Rightarrow> redis_cache_config" where
  "redis_cache_of rt c =
     \<lparr>cache_prefix = transaction_cache_key_prefix c, ttl_seconds = integer_of (transaction_cache_ttl_seconds c),
      cache_rt = rt_cache rt, cache_at_expiry = rt_cache_at_expiry rt\<rparr>"

definition reporting_cache :: "redis_cache_config \<Rightarrow> int \<times> int \<Rightarrow> (redis_fault \<times> redis_fault) \<times> redis_fault \<Rightarrow> string option \<Rightarrow>
    (redis \<times> effect list) transaction_cache" where
  "reporting_cache cfg now faults rid =
     \<lparr>cache_get = (\<lambda>i (r, es). case redis_cache_get cfg (fst now) (fst faults) i r of
        ((a, r'), failures) \<Rightarrow> (a, r', es @ concat (map (report_redis_failure rid) failures))),
      cache_set = (\<lambda>t (r, es). case redis_cache_set cfg (snd now) (snd faults) t r of
        ((a, r'), failures) \<Rightarrow> (a, r', es @ concat (map (report_redis_failure rid) failures)))\<rparr>"

definition transaction_cache_of :: "runtime \<Rightarrow> application_config \<Rightarrow> request_env \<Rightarrow> string option \<Rightarrow>
    (redis \<times> effect list) transaction_cache" where
  "transaction_cache_of rt c env rid =
     observed_transaction_cache (reporting_cache (redis_cache_of rt c) (cache_times env) (cache_faults env) rid) rid"

definition app_get :: "runtime \<Rightarrow> application_config \<Rightarrow> request_env \<Rightarrow> string \<Rightarrow> string \<Rightarrow> application_state \<Rightarrow>
    transaction result \<times> effect list \<times> application_state" where
  "app_get rt c env rid i s =
     (case get_transaction_execute (postgres_transaction_repository (rt_driver rt))
         (Some (transaction_cache_of rt c env (Some rid))) i (app_database s) (app_redis s, []) of
        (a, r, es) \<Rightarrow> (a, es, s\<lparr>app_redis := r\<rparr>))"

definition app_list :: "runtime \<Rightarrow> request_env \<Rightarrow> string \<Rightarrow> int \<Rightarrow> int \<Rightarrow> application_state \<Rightarrow>
    list_result result \<times> effect list \<times> application_state" where
  "app_list rt env rid page limit s =
     (list_transactions_execute (postgres_transaction_repository (rt_driver rt)) page limit (app_database s)
        (list_later env (app_database s)), [], s)"

definition app_consume :: "runtime \<Rightarrow> application_config \<Rightarrow> request_env \<Rightarrow> string \<Rightarrow> string \<Rightarrow> application_state \<Rightarrow>
    rate_limit_result result \<times> effect list \<times> application_state" where
  "app_consume rt c env rid service s =
     (case observed_consume
         (\<lambda>(r, es). case redis_consume (rt_cache_at_expiry rt) (limiter_fault env) (rate_limit_key_prefix c)
             (integer_of (rate_limit_max_requests c)) (integer_of (rate_limit_window_ms c)) (limiter_time env) service r of
            (a, failures, r') \<Rightarrow> (a, r', es @ concat (map (report_redis_failure (Some rid)) failures)))
         (app_redis s, []) of
        (a, r, es) \<Rightarrow> (Inr a, es, s\<lparr>app_redis := r\<rparr>))"

definition app_readiness :: "application_config \<Rightarrow> bool \<Rightarrow> request_env \<Rightarrow> application_state \<Rightarrow>
    readiness_status \<times> effect list \<times> application_state" where
  "app_readiness c down env s =
     (case readiness_check (integer_of (readiness_timeout_ms c)) down (postgres_probe env) (redis_probe env) of
        (st, es, _) \<Rightarrow> (st, es, s))"

section \<open>The handler\<close>

definition handler_deps :: "runtime \<Rightarrow> application \<Rightarrow> bool \<Rightarrow> request_env \<Rightarrow> application_state server_deps" where
  "handler_deps rt app down env =
     (let c = app_config app in
      \<lparr>authenticator = authenticate_key (rt_sha256 rt) (app_credentials app),
       max_body_bytes = integer_of (http_max_body_bytes c),
       use_create = app_create rt c env, use_get = app_get rt c env, use_list = app_list rt env,
       use_limiter = app_consume rt c env, use_readiness = Some (app_readiness c down env),
       metrics_text = (\<lambda>s. render (rt_locale_compare rt) (rt_code_order rt) (number_to_text (rt_cache rt)) (app_metrics s)),
       decode_utf8 = rt_decode_utf8 rt, date_text = to_iso_string (rt_cache rt),
       transaction_issues = rt_transaction_issues rt, pagination_issues = rt_pagination_issues rt,
       uuid_schema = is_uuid_text (rt_cache rt)\<rparr>)"

text \<open>One request, from its arrival to its response; its metrics are counted.\<close>

definition serve :: "runtime \<Rightarrow> application \<Rightarrow> handler_env \<Rightarrow> request_env \<Rightarrow> server_request \<Rightarrow> tracker \<Rightarrow> application_state \<Rightarrow>
    http_response \<times> effect list \<times> tracker option \<times> application_state" where
  "serve rt app henv env req k s =
     (case handle_request (handler_deps rt app (shutting_down k) env) henv req (Some k) s of
        (r, es, k', s') \<Rightarrow>
          (r, es, k', s'\<lparr>app_metrics := record_events (rt_locale_compare rt) (metrics_of es) (app_metrics s')\<rparr>))"

section \<open>Start-up\<close>

datatype startup_event =
    Startup_Effect effect
  | Redis_Client_Closed
  | Postgres_Client_Closed
  | Server_Started string js_number

text \<open>The constructors that run before the start-up check: the breaker and the readiness timeout.\<close>

definition construct_adapters :: "application_config \<Rightarrow> (circuit_breaker \<times> int) result" where
  "construct_adapters c =
     r_bind (new_redis_executor (redis_command_timeout_ms c) 0 :: redis_reply redis_executor result) (\<lambda>_.
     r_then (new_redis_transaction_cache (transaction_cache_ttl_seconds c) (transaction_cache_key_prefix c))
     (r_then (new_http_payment_provider (attempt_timeout_ms (config_retry c)))
     (r_bind (new_circuit_breaker (config_breaker c)) (\<lambda>cb.
     r_then (validate_retry_policy_config (config_retry c))
     (r_then (new_redis_rate_limiter (rate_limit_max_requests c) (rate_limit_window_ms c) (rate_limit_key_prefix c))
     (r_bind (new_readiness_service (readiness_timeout_ms c)) (\<lambda>timeout. Inr (cb, timeout))))))))"

definition start_application :: "runtime \<Rightarrow> application_config \<Rightarrow> probe \<Rightarrow> probe \<Rightarrow> database \<Rightarrow> redis \<Rightarrow>
    (application \<times> application_state) result \<times> startup_event list" where
  "start_application rt c postgres redis db r =
     (case construct_adapters c of
        Inl e \<Rightarrow> (Inl e, [])
      | Inr (cb, timeout) \<Rightarrow>
          (case readiness_check timeout (shutting_down new_tracker) postgres redis of
             (st, es, _) \<Rightarrow>
               (if st = Not_Ready
                then (Inl (Plain_Error ''Critical startup dependency is unavailable''),
                      map Startup_Effect es @
                        [Startup_Effect (Log Log_Error ''startup.failed'' [(''operation'', Some (JString ''postgres_readiness''))]),
                         Redis_Client_Closed, Postgres_Client_Closed])
                else case new_sha256_authenticator (service_credentials c) of
                  Inl e \<Rightarrow> (Inl e, map Startup_Effect es)
                | Inr stored \<Rightarrow>
                    (let up = map Startup_Effect es @ [Server_Started (http_host c) (http_port c),
                          Startup_Effect (Log Log_Info ''startup.ready'' [(''state'', Some (JString (readiness_text st)))])] in
                     case new_shutdown_coordinator (shutdown_grace_period_ms c) (js_int 1000) of
                       Inl e \<Rightarrow> (Inl e, up)
                     | Inr sc \<Rightarrow>
                         (Inr (\<lparr>app_config = c, app_credentials = stored, app_shutdown = sc\<rparr>,
                               \<lparr>app_database = db, app_redis = r, app_breaker = cb,
                                app_metrics = record_events (rt_locale_compare rt) (metrics_of es) new_metrics\<rparr>), up)))))"

definition run_main :: "runtime \<Rightarrow> environment \<Rightarrow> probe \<Rightarrow> probe \<Rightarrow> database \<Rightarrow> redis \<Rightarrow>
    (application \<times> application_state) result \<times> startup_event list" where
  "run_main rt env postgres redis db r =
     (case load_config (rt_url_protocol rt) env of
        Inl e \<Rightarrow> (Inl e, [])
      | Inr c \<Rightarrow> start_application rt c postgres redis db r)"

section \<open>Start-up succeeds\<close>

lemma new_redis_adapters:
  assumes "positive_safe ttl" "positive_safe mx" "positive_safe w"
  shows "new_redis_transaction_cache ttl p = validate_prefix p" "new_redis_rate_limiter mx w p = validate_prefix p"
  using assms
  by (cases "validate_prefix p"; simp add: new_redis_transaction_cache_def new_redis_rate_limiter_def positive_safe_def
      transaction_cache_key_def rate_limit_key_def redis_key_def)+

text \<open>Under a loaded configuration only the two Redis key prefixes can make a constructor throw.\<close>

lemma construct_adapters_loaded:
  assumes "load_config url_protocol env = Inr c"
  shows "\<exists>b. construct_adapters c =
      r_then (validate_prefix (transaction_cache_key_prefix c))
        (r_then (validate_prefix (rate_limit_key_prefix c)) (Inr (b, integer_of (readiness_timeout_ms c)))) \<and>
    breaker_ok b \<and> current_state b = Closed"
proof -
  obtain t where c: "config_ok c" "validate_provider_timing (timing c) = Inr t"
    "validate_circuit_breaker_config (config_breaker c) = Inr ()"
    by (rule load_config_Inr [OF assms])
  have rv: "validate_retry_policy_config (config_retry c) = Inr ()" using timing_retry_valid [OF c(2)] .
  obtain n tm b m j where "retry_config_ok (config_retry c) n tm b m j"
    using validate_retry_policy_config_Inr [OF rv] .
  then have http: "new_http_payment_provider (attempt_timeout_ms (config_retry c)) = Inr ()"
    by (simp add: retry_config_ok_def new_http_payment_provider_def is_safe_integer_js_int)
  obtain cb where cb: "new_circuit_breaker (config_breaker c) = Inr cb"
    using c(3) by (simp add: new_circuit_breaker_def)
  have pos: "positive_safe (redis_command_timeout_ms c)" "positive_safe (transaction_cache_ttl_seconds c)"
    "positive_safe (rate_limit_max_requests c)" "positive_safe (rate_limit_window_ms c)" "positive_safe (readiness_timeout_ms c)"
    using c(1) by (simp_all add: config_ok_def)
  have "construct_adapters c =
      r_then (validate_prefix (transaction_cache_key_prefix c))
        (r_then (validate_prefix (rate_limit_key_prefix c)) (Inr (cb, integer_of (readiness_timeout_ms c))))"
    using pos(1,5) http cb rv new_redis_adapters [OF pos(2-4)]
    by (simp add: construct_adapters_def new_redis_executor_def new_readiness_service_def positive_safe_def)
  with new_circuit_breaker_Inr [OF cb] show ?thesis by blast
qed


section \<open>A configuration\<close>

text \<open>The environment with the three required variables only: every default applies.\<close>

definition demo_credentials_text :: string where
  "demo_credentials_text = ''[{\"serviceId\":\"billing\",\"apiKeySha256\":\"'' @ replicate 64 (CHR ''a'') @ ''\"}]''"

definition demo_environment :: environment where
  "demo_environment = map_of [(''SERVICE_CREDENTIALS'', demo_credentials_text), (''DATABASE_URL'', ''postgres://db''), (''REDIS_URL'', ''redis://cache'')]"

lemma demo_credentials_parse: "json_parse demo_credentials_text =
  Some (JArray [JObject [(''serviceId'', JString ''billing''), (''apiKeySha256'', JString (replicate 64 (CHR ''a'')))]])"
  by code_simp

lemma demo_service_credentials: "service_credentials_of demo_environment = Inr [\<lparr>service_id = ''billing'', api_key_sha256 = replicate 64 (CHR ''a'')\<rparr>]"
proof -
  let ?c = "\<lparr>service_id = ''billing'', api_key_sha256 = replicate 64 (CHR ''a'')\<rparr>"
  have "required demo_environment ''SERVICE_CREDENTIALS'' = Inr demo_credentials_text" by code_simp
  moreover have "service_credentials_schema (JArray [JObject [(''serviceId'', JString ''billing''),
      (''apiKeySha256'', JString (replicate 64 (CHR ''a'')))]]) = Some [?c]" by code_simp
  moreover have "\<not> duplicate_identity [] [] [?c]" "to_lower (replicate 64 (CHR ''a'')) = replicate 64 (CHR ''a'')" by code_simp+
  ultimately show ?thesis by (simp add: service_credentials_of_def demo_credentials_parse)
qed

definition demo_config :: application_config where
  "demo_config = \<lparr>http_host = ''0.0.0.0'', http_port = js_int 4002,
     service_credentials = [\<lparr>service_id = ''billing'', api_key_sha256 = replicate 64 (CHR ''a'')\<rparr>],
     http_max_body_bytes = js_int 16384, database_url = ''postgres://db'', redis_url = ''redis://cache'',
     redis_command_timeout_ms = js_int 250, transaction_cache_ttl_seconds = js_int 3600,
     transaction_cache_key_prefix = ''transaction-cache:v1'', rate_limit_max_requests = js_int 5,
     rate_limit_window_ms = js_int 60000, rate_limit_key_prefix = ''rate-limit:v1'',
     provider_url = ''http://localhost:4003/transactions'', config_retry = default_retry,
     config_breaker = \<lparr>failure_threshold = js_int 3, open_duration_ms = js_int 10000\<rparr>,
     stale_timeout_ms = js_int 30000, overhead_ms = js_int 2000, stale_margin = js_int 3000,
     readiness_timeout_ms = js_int 500, shutdown_grace_period_ms = js_int 15000\<rparr>"

lemma demo_reads:
  "name \<notin> {''SERVICE_CREDENTIALS'', ''DATABASE_URL'', ''REDIS_URL''} \<Longrightarrow> demo_environment name = None"
  by (simp add: demo_environment_def)

lemma positive_default: "env name = None \<Longrightarrow> 1 \<le> f \<Longrightarrow> f \<le> max_safe_integer \<Longrightarrow> positive_integer env name f = Inr (js_int f)"
  by (simp add: positive_integer_def read_number_def is_safe_integer_js_int js_int_def)

lemma number_default: "env name = None \<Longrightarrow> is_finite v \<Longrightarrow> read_number env name v = Inr v"
  by (simp add: read_number_def)

lemma demo_required: "required demo_environment ''DATABASE_URL'' = Inr ''postgres://db''"
  "redis_url_of (\<lambda>_. Some ''redis:'') demo_environment = Inr ''redis://cache''"
  by code_simp+

lemma demo_loads: "load_config (\<lambda>_. Some ''redis:'') demo_environment = Inr demo_config"
proof -
  have f: "is_finite (js_int i)" for i by (simp add: js_int_def)
  have j: "is_finite default_jitter" by (simp add: default_jitter_def)
  have m: "(65535::int) \<le> max_safe_integer" by (simp add: max_safe_integer_def)
  have rd: "read_config (\<lambda>_. Some ''redis:'') demo_environment = Inr demo_config"
    using m
    by (simp add: read_config_def http_port_of_def positive_default number_default demo_reads demo_service_credentials demo_required
      retry_of_def breaker_of_def f j host_of_def or_default_def demo_config_def default_retry_def default_jitter_def)
  have tm: "timing demo_config = default_timing" by (simp add: timing_def demo_config_def default_timing_def)
  have br: "validate_circuit_breaker_config (config_breaker demo_config) = Inr ()"
    by (simp add: demo_config_def validate_circuit_breaker_config_def is_safe_integer_js_int max_safe_integer_def)
  show ?thesis
    using rd tm br default_timing_valid by (simp add: load_config_def)
     (simp add: demo_config_def)
qed

definition demo_runtime :: runtime where
  "demo_runtime = \<lparr>rt_sha256 = demo_sha, rt_driver = text_driver, rt_cache = plain_runtime, rt_cache_at_expiry = False,
     rt_locale_compare = code_compare, rt_code_order = code_compare,
     rt_decode_utf8 = (\<lambda>bs. Some (map (\<lambda>b. char_of (unat b)) bs)), rt_transaction_issues = (\<lambda>_. JArray []),
     rt_pagination_issues = (\<lambda>_. JArray []), rt_url_protocol = (\<lambda>_. Some ''redis:'')\<rparr>"

lemma demo_prefixes:
  "validate_prefix (transaction_cache_key_prefix demo_config) = Inr ()" "validate_prefix (rate_limit_key_prefix demo_config) = Inr ()"
  unfolding demo_config_def by code_simp+


end
