(* ===== verification/Application_Runs.thy ===== *)
theory Application_Runs
  imports Application
begin

text \<open>
  Requests on the application of \<open>Application\<close>, one after the other, with others in between: what
  every request keeps of the database, and what a creation that was answered with 201 means for
  every repetition of it.
\<close>

section \<open>The store of the application\<close>

interpretation app_store: store_part "postgres_transaction_repository drv" "\<lambda>db. driver_ok drv \<and> db_ok db" db_ledger
  db_claim_ok db_complete_ok "\<lambda>st. app_database (fst st)" put_database
  by unfold_locales (simp add: put_database_def)

definition keeps_done :: "database \<Rightarrow> database \<Rightarrow> bool" where
  "keeps_done db db' \<longleftrightarrow> (\<forall>k fp x. db_ledger db k = Some (Done fp x) \<longrightarrow> db_ledger db' k = Some (Done fp x))"

lemma keeps_done_refl [simp]: "keeps_done db db"
  by (simp add: keeps_done_def)

lemma keeps_done_trans [trans]: "keeps_done a b \<Longrightarrow> keeps_done b c \<Longrightarrow> keeps_done a c"
  by (simp add: keeps_done_def)

lemma keeps_done_ledger:
  "ledger_claim r (db_ledger db) c (db_ledger db') \<Longrightarrow> keeps_done db db'"
  "db_ledger db' = ledger_release rr (db_ledger db) \<Longrightarrow> keeps_done db db'"
  "ledger_complete cr (db_ledger db) = Some (db_ledger db') \<Longrightarrow> keeps_done db db'"
  by (auto simp: keeps_done_def dest: ledger_claim_keeps_done ledger_release_keeps_done ledger_complete_keeps_done)

text \<open>A completion under a lower-case identifier either changes nothing or was one the schema admits.\<close>

lemma postgres_complete_total:
  assumes "postgres_complete r db = (a, db')"
    and "to_lower (transaction_id (complete_transaction r)) = transaction_id (complete_transaction r)"
  shows "(\<exists>e. a = Inl e) \<and> db' = db \<or> a = Inr () \<and> db_complete_ok r db"
proof (cases "sql_insert_transaction (complete_transaction r) db")
  case (Inl e)
  with assms(1) show ?thesis by (auto simp: postgres_complete_def)
next
  case (Inr db1)
  show ?thesis
  proof (cases "sql_complete_operation r db1")
    case (Inl e)
    with Inr assms(1) show ?thesis by (auto simp: postgres_complete_def)
  next
    case c: (Inr y)
    show ?thesis
    proof (cases "fst y = 1")
      case False
      with Inr c assms(1) show ?thesis by (auto simp: postgres_complete_def split: prod.splits)
    next
      case True
      with Inr c assms(1) have a: "a = Inr ()" by (auto simp: postgres_complete_def split: prod.splits)
      have ins: "transaction_row_ok (complete_transaction r)"
        "js_get (transactions_table db) (transaction_id (complete_transaction r)) = None"
        "operations_table db1 = operations_table db"
        using Inr assms(2) by (auto simp: sql_insert_transaction_def split: if_splits)
      have "operation_created_at x \<le> completed_at r" if "js_get (operations_table db) (complete_key r) = Some x" for x
        using c that True ins(3)
        by (auto simp: sql_complete_operation_def Let_def operation_row_ok_def split: if_splits)
      with a ins assms(2) show ?thesis by (auto simp: db_complete_ok_iff)
    qed
  qed
qed

section \<open>What a request keeps\<close>

definition runtime_ok :: "runtime \<Rightarrow> bool" where
  "runtime_ok rt \<longleftrightarrow> driver_ok (rt_driver rt) \<and> (\<forall>bs. length (rt_sha256 rt bs) = 32)"

text \<open>
  Identifiers are lower-case, and the other requests do to the database what requests do: they
  keep the schema and what is finished (which \<open>later_keeps\<close> proves of any requests).
\<close>

definition lawful :: "request_env \<Rightarrow> bool" where
  "lawful env \<longleftrightarrow> to_lower (new_id env) = new_id env \<and>
     (\<forall>s. db_ok (app_database s) \<longrightarrow> db_ok (app_database (meanwhile env s)) \<and>
        keeps_done (app_database s) (app_database (meanwhile env s)))"

definition config_lease_ok :: "application_config \<Rightarrow> bool" where
  "config_lease_ok c \<longleftrightarrow> 0 \<le> integer_of (stale_timeout_ms c)"

lemma payment_provider_database:
  "payment_provider rt c env rid t key st = (a, st') \<Longrightarrow>
    app_database (fst st') = app_database (meanwhile env (fst st))"
  by (auto simp: payment_provider_def Let_def split: option.splits prod.splits)

lemma valid_claim_ok:
  assumes "runtime_ok rt" "config_lease_ok c" "valid_input t key"
  shows "db_claim_ok (execution_claim sn (rt_sha256 rt) (integer_of (stale_timeout_ms c)) now t key)"
proof -
  have "is_lower_hex = is_lower_hex_char" by (intro ext) (simp add: is_lower_hex_def is_lower_hex_char_def)
  then show ?thesis
    using assms hex_encode_lower
    by (simp add: db_claim_ok_def valid_input_def config_lease_ok_def runtime_ok_def execution_fingerprint_def
        create_request_fingerprint_bytes length_hex_encode list_all_iff)
qed

lemma begin_create_effects:
  assumes "begin_create (transaction_repository_of rt) sn sha T now t key st = (ph, st')"
  shows "snd st' = snd st"
proof -
  obtain ca st1 where c: "claim_idempotency_operation (transaction_repository_of rt)
      (create_claim T now key (create_request_fingerprint sn sha (normalize_transaction_input t))) st = (ca, st1)"
    by (rule prod.exhaust)
  then have "snd st1 = snd st"
    by (auto simp: transaction_repository_of_def at_part_def put_database_def split: prod.splits)
  with assms c show ?thesis by (auto simp: begin_create_def Let_def split: sum.splits)
qed

lemma finish_create_keeps:
  assumes "runtime_ok rt" "db_ok (app_database (fst st))" "to_lower i = i"
    and "finish_create (transaction_repository_of rt) i n1 n2 (provider_answered ans (Calling n key fp)) st = (a, st')"
  shows "db_ok (app_database (fst st')) \<and> keeps_done (app_database (fst st)) (app_database (fst st')) \<and>
    (\<forall>x. a = Inr x \<longrightarrow> created x \<and> transaction_id (result_transaction x) = i \<and>
      db_ledger (app_database (fst st')) key = Some (Done fp (result_transaction x)))"
proof -
  let ?R = "transaction_repository_of rt"
  have st: "driver_ok (rt_driver rt) \<and> db_ok (app_database (fst st))" using assms(1,2) by (simp add: runtime_ok_def)
  show ?thesis
  proof (cases ans)
    case (Inl e)
    show ?thesis
    proof (cases "frees_claim e")
      case False
      with Inl assms show ?thesis by auto
    next
      case True
      obtain b st1 where r: "release_idempotency_operation ?R \<lparr>release_key = key, release_fingerprint = fp\<rparr> st = (b, st1)"
        by (rule prod.exhaust)
      from app_store.whole.release_law [OF st r [unfolded transaction_repository_of_def]] Inl True assms(4) r
        keeps_done_ledger(2) show ?thesis by auto
    qed
  next
    case (Inr p)
    let ?x = "created_transaction i n1 n p"
    obtain b st1 where r: "complete_idempotency_operation ?R (completion key fp ?x n2) st = (b, st1)" by (rule prod.exhaust)
    then obtain db1 where db1: "postgres_complete (completion key fp ?x n2) (app_database (fst st)) = (b, db1)"
      "st1 = put_database db1 st"
      by (auto simp: transaction_repository_of_def at_part_def postgres_transaction_repository_def split: prod.splits)
    have a: "(a, st') = (case b of Inl e \<Rightarrow> (Inl e, st1) | Inr _ \<Rightarrow> (Inr \<lparr>result_transaction = ?x, created = True\<rparr>, st1))"
      using assms(4) Inr r by (simp add: Let_def split: sum.splits)
    have "to_lower (transaction_id (complete_transaction (completion key fp ?x n2))) =
        transaction_id (complete_transaction (completion key fp ?x n2))"
      using assms(3) by (simp add: created_transaction_def)
    from postgres_complete_total [OF db1(1) this] show ?thesis
    proof (elim disjE conjE exE)
      fix e assume "b = Inl e" "db1 = app_database (fst st)"
      with a db1 assms(2) show ?thesis by (auto simp: put_database_def)
    next
      assume b: "b = Inr ()" "db_complete_ok (completion key fp ?x n2) (app_database (fst st))"
      from sql_complete_ledger [OF assms(2) b(2) db1(1)] b(1)
      have L: "db_ok db1" "ledger_complete (completion key fp ?x n2) (db_ledger (app_database (fst st))) = Some (db_ledger db1)"
        by (auto split: option.splits)
      from L(2) have "db_ledger db1 key = Some (Done fp ?x)" by (auto simp: ledger_complete_Some)
      with L a b(1) db1(2) keeps_done_ledger(3) [OF L(2)] show ?thesis by (auto simp: put_database_def created_transaction_def)
    qed
  qed
qed

text \<open>A creation, whatever the provider answers and the others do.\<close>

lemma app_create_keeps:
  assumes "runtime_ok rt" "config_lease_ok c" "lawful env" "valid_input t key" "db_ok (app_database s)"
    and "app_create rt c env rid t key s = (a, es, s')"
  shows "db_ok (app_database s') \<and> keeps_done (app_database s) (app_database s') \<and>
    (\<forall>x. a = Inr x \<and> created x \<longrightarrow> transaction_id (result_transaction x) = new_id env \<and> db_ledger (app_database s') key =
       Some (Done (execution_fingerprint (number_to_text (rt_cache rt)) (rt_sha256 rt) t) (result_transaction x)))"
proof -
  let ?R = "transaction_repository_of rt" and ?sn = "number_to_text (rt_cache rt)"
  let ?T = "integer_of (stale_timeout_ms c)" and ?fp = "execution_fingerprint (number_to_text (rt_cache rt)) (rt_sha256 rt) t"
  let ?env = "create_env_of rt c env (Some rid)"
  have ex: "create_transaction_execute ?R ?sn (rt_sha256 rt) ?T ?env t key (s, []) = (a, s', es)"
    using assms(6) by (auto simp: app_create_def split: prod.splits)
  obtain ph st1 where b: "begin_create ?R ?sn (rt_sha256 rt) ?T (claim_time env) t key (s, []) = (ph, st1)" by (rule prod.exhaust)
  have st: "driver_ok (rt_driver rt) \<and> db_ok (app_database (fst (s, [] :: effect list)))"
    using assms(1,5) by (simp add: runtime_ok_def)
  note ok = valid_claim_ok [OF assms(1,2,4), of ?sn "claim_time env"]
  from app_store.whole.begin_create_ledger [OF st ok b [unfolded transaction_repository_of_def]] obtain cl where
    i: "db_ok (app_database (fst st1))" "keeps_done (app_database s) (app_database (fst st1))"
    "ph = claimed_phase cl (normalize_transaction_input t) key ?fp"
    using keeps_done_ledger(1) by fastforce
  show ?thesis
  proof (cases "cl = New_Claim")
    case True
    then have ph: "ph = Calling (normalize_transaction_input t) key ?fp" using i(3) by (simp add: claimed_phase_def)
    obtain ans st2 where p: "payment_provider rt c env (Some rid) (normalize_transaction_input t) key st1 = (ans, st2)"
      by (rule prod.exhaust)
    from payment_provider_database [OF p] assms(3) i(1) have m: "db_ok (app_database (fst st2))"
      "keeps_done (app_database (fst st1)) (app_database (fst st2))"
      by (simp_all add: lawful_def)
    have low: "to_lower (new_id env) = new_id env" using assms(3) by (simp add: lawful_def)
    have "finish_create ?R (new_id env) (created_time env) (completed_time env)
        (provider_answered ans (Calling (normalize_transaction_input t) key ?fp)) st2 = (a, s', es)"
      using ex b ph p by (simp add: create_transaction_execute_def create_env_of_def)
    from finish_create_keeps [OF assms(1) m(1) low this] i(2) m(2) show ?thesis
      using keeps_done_trans [OF i(2) keeps_done_trans [OF m(2)]] by simp
  next
    case False
    then obtain r where ph: "ph = Returned r" "\<forall>x. r = Inr x \<longrightarrow> \<not> created x"
      using i(3) by (cases cl) (auto simp: claimed_phase_def)
    with ex b i(1,2) show ?thesis by (auto simp: create_transaction_execute_def create_env_of_def)
  qed
qed

text \<open>A key that is done is answered from the database, without the provider.\<close>

lemma app_create_replay:
  assumes "runtime_ok rt" "config_lease_ok c" "valid_input t key" "db_ok (app_database s)"
    and "db_ledger (app_database s) key = Some (Done (execution_fingerprint (number_to_text (rt_cache rt)) (rt_sha256 rt) t) x)"
  shows "\<exists>s'. app_create rt c env rid t key s = (Inr \<lparr>result_transaction = x, created = False\<rparr>, [], s') \<and>
    db_ledger (app_database s') = db_ledger (app_database s)"
proof -
  let ?R = "transaction_repository_of rt" and ?sn = "number_to_text (rt_cache rt)" and ?T = "integer_of (stale_timeout_ms c)"
  obtain ph st1 where b: "begin_create ?R ?sn (rt_sha256 rt) ?T (claim_time env) t key (s, []) = (ph, st1)" by (rule prod.exhaust)
  have st: "driver_ok (rt_driver rt) \<and> db_ok (app_database (fst (s, [] :: effect list)))"
    using assms(1,4) by (simp add: runtime_ok_def)
  from app_store.whole.begin_create_ledger [OF st valid_claim_ok [OF assms(1-3)] b [unfolded transaction_repository_of_def]] assms(5)
  have "db_ledger (app_database (fst st1)) = db_ledger (app_database s) \<and>
      ph = Returned (Inr \<lparr>result_transaction = x, created = False\<rparr>)"
    by (auto simp: claimed_phase_def elim!: ledger_claim.cases)
  with b begin_create_effects [OF b] show ?thesis
    by (cases st1) (simp add: app_create_def create_transaction_execute_def create_env_of_def)
qed

section \<open>Serving\<close>

lemma app_consume_effects:
  assumes "app_consume rt c env rid service s = (a, es, s')"
  obtains l where "a = Inr l" "app_database s' = app_database s" "Metric Provider_Attempt \<notin> set es"
    "\<not> allowed l \<Longrightarrow> Metric Rate_Limit_Rejected \<in> set es"
proof -
  obtain l failures r where c: "redis_consume (rt_cache_at_expiry rt) (limiter_fault env) (rate_limit_key_prefix c)
      (integer_of (rate_limit_max_requests c)) (integer_of (rate_limit_window_ms c)) (limiter_time env) service (app_redis s) =
      (l, failures, r)" by (metis prod_cases3)
  have "a = Inr l" "app_database s' = app_database s" "Metric Provider_Attempt \<notin> set es"
    "\<not> allowed l \<Longrightarrow> Metric Rate_Limit_Rejected \<in> set es"
    using assms c by (auto simp: app_consume_def observed_consume_def report_redis_failure_def Let_def split: if_splits)
  with that show thesis by blast
qed

lemma handler_deps_simps [simp]:
  "use_create (handler_deps rt app down env) = app_create rt (app_config app) env"
  "use_get (handler_deps rt app down env) = app_get rt (app_config app) env"
  "use_list (handler_deps rt app down env) = app_list rt env"
  "use_limiter (handler_deps rt app down env) = app_consume rt (app_config app) env"
  "use_readiness (handler_deps rt app down env) = Some (app_readiness (app_config app) down env)"
  by (simp_all add: handler_deps_def Let_def)

lemma handler_deps_keep:
  assumes "runtime_ok rt" "config_lease_ok (app_config app)" "lawful env"
  shows "deps_keep (\<lambda>s. db_ok (app_database s) \<and> keeps_done db (app_database s)) (handler_deps rt app down env)"
proof -
  have c: "db_ok (app_database s') \<and> keeps_done db (app_database s')"
    if "valid_input t key" "db_ok (app_database s) \<and> keeps_done db (app_database s)"
      "app_create rt (app_config app) env rid t key s = (a, es, s')" for rid t key s a es s'
    using app_create_keeps [OF assms that(1) _ that(3)] that(2) keeps_done_trans by blast
  have l: "app_database (snd (snd (app_consume rt (app_config app) env rid i s))) = app_database s" for rid i s
    by (cases "app_consume rt (app_config app) env rid i s"; cases "snd (app_consume rt (app_config app) env rid i s)")
      (auto elim: app_consume_effects)
  have g: "app_database (snd (snd (app_get rt cf env rid i s))) = app_database s" for cf rid i s
    by (simp add: app_get_def split: prod.splits)
  have q: "app_database (snd (snd (app_list rt env rid p n s))) = app_database s"
    "app_database (snd (snd (app_readiness cf dn env s))) = app_database s" for rid p n cf dn s
    by (simp_all add: app_list_def app_readiness_def split: prod.splits)
  show ?thesis
    unfolding deps_keep_def
  proof (intro conjI allI impI, goal_cases)
    case (1 rid t key s)
    obtain a es s' where u: "app_create rt (app_config app) env rid t key s = (a, es, s')" by (metis prod_cases3)
    from c [OF 1 u] u show ?case by simp
  next
    case (2 rid t key s)
    obtain a es s' where u: "app_create rt (app_config app) env rid t key s = (a, es, s')" by (metis prod_cases3)
    from c [OF 2 u] u show ?case by simp
  qed (use l g q in auto)
qed

text \<open>Every request keeps the schema and what is finished: \<open>meanwhile\<close> may be any number of them.\<close>

lemma serve_keeps:
  assumes "runtime_ok rt" "config_lease_ok (app_config app)" "lawful env" "db_ok (app_database s)"
    and "serve rt app henv env req k s = (r, es, k', s')"
  shows "db_ok (app_database s') \<and> keeps_done (app_database s) (app_database s')"
proof -
  obtain s1 where h: "handle_request (handler_deps rt app (shutting_down k) env) henv req (Some k) s = (r, es, k', s1)"
    "app_database s' = app_database s1"
    using assms(5) by (auto simp: serve_def split: prod.splits)
  from deps_keep_handle [OF handler_deps_keep [OF assms(1-3), of "app_database s"] _ h(1)] assms(4) h(2)
  show ?thesis by simp
qed

text \<open>
  The states the application may be in after a state: any requests by any clients, whatever they
  meet; and what others do meanwhile is, again, such requests.
\<close>

inductive later :: "runtime \<Rightarrow> application \<Rightarrow> application_state \<Rightarrow> application_state \<Rightarrow> bool" for rt app where
  now: "later rt app s s"
| request: "later rt app s0 s \<Longrightarrow> to_lower (new_id env) = new_id env \<Longrightarrow> (\<And>x. later rt app x (meanwhile env x)) \<Longrightarrow>
    serve rt app henv env req k s = (r, es, k', s') \<Longrightarrow> later rt app s0 s'"

definition ordinary :: "runtime \<Rightarrow> application \<Rightarrow> request_env \<Rightarrow> bool" where
  "ordinary rt app env \<longleftrightarrow> to_lower (new_id env) = new_id env \<and> (\<forall>s. later rt app s (meanwhile env s))"

lemma later_keeps:
  assumes "later rt app s0 s" "runtime_ok rt" "config_lease_ok (app_config app)"
  shows "db_ok (app_database s0) \<longrightarrow> db_ok (app_database s) \<and> keeps_done (app_database s0) (app_database s)"
  using assms
proof (induction rule: later.induct)
  case (request s0 s env henv req k r es k' s')
  then have "lawful env" by (simp add: lawful_def)
  with request serve_keeps [of rt app env s henv req k r es k' s'] show ?case using keeps_done_trans by blast
qed simp

lemma ordinary_lawful: "ordinary rt app env \<Longrightarrow> runtime_ok rt \<Longrightarrow> config_lease_ok (app_config app) \<Longrightarrow> lawful env"
  unfolding ordinary_def lawful_def by (blast dest: later_keeps)

lemma serve_created:
  assumes "runtime_ok rt" "config_lease_ok (app_config app)" "lawful env" "db_ok (app_database s)"
    and "serve rt app henv env req k s = (r, es, k', s')" "status r = 201"
  obtains t key x d service where "d = handler_deps rt app False env" "is_create req"
    "validate_declared_body_size req (max_body_bytes d) = None" "authenticate d req = Some service"
    "create_input d req = Some (t, key)" "body r = Json_Body (json_of_transaction d x)" "transaction_id x = new_id env"
    "db_ledger (app_database s') key = Some (Done (execution_fingerprint (number_to_text (rt_cache rt)) (rt_sha256 rt) t) x)"
proof -
  let ?d = "handler_deps rt app (shutting_down k) env"
    and ?rid = "request_id_from req (generated_request_id henv) (random_uuid henv)"
  obtain s1 where h: "handle_request ?d henv req (Some k) s = (r, es, k', s1)" "app_database s' = app_database s1"
    using assms(5) by (auto simp: serve_def split: prod.splits)
  obtain raw es1 s2 where rr: "run_route ?d req ?rid s = (raw, es1, s2)" by (metis prod_cases3)
  have up: "\<not> shutting_down k"
  proof
    assume sd: "shutting_down k"
    show False
    proof (cases "is_transaction_route req")
      case True
      from handle_request_refused [OF h(1) sd this] assms(6) show False by simp
    next
      case False
      from handle_request_parts [OF h(1)] obtain raw es0 where e: "execute_request ?d req ?rid (Some k) s = (raw, es0, k', s1)"
        "status r = status raw" by metis
      with sd assms(6) obtain es2 s2 where "run_route ?d req ?rid s = (raw, es2, s2)"
        by (auto simp: execute_request_def tracker_begin_def shutting_down_response_def split: if_splits prod.splits)
      from run_route_created [OF this] e(2) assms(6) create_is_route False show False by metis
    qed
  qed
  from handle_request_runs [OF h(1) up rr] assms(6) have hr: "s1 = s2" "status raw = 201" "body r = body raw" by auto
  obtain service l es2 s3 t key cr es3 where c: "is_create req" "validate_declared_body_size req (max_body_bytes ?d) = None"
    "authenticate ?d req = Some service" "use_limiter ?d ?rid service s = (Inr l, es2, s3)"
    "create_input ?d req = Some (t, key)" "use_create ?d ?rid t key s3 = (Inr cr, es3, s2)" "created cr"
    "raw = creation_response ?d cr"
    by (rule run_route_created [OF rr hr(2)])
  have db: "app_database s3 = app_database s" using c(4) by (auto elim: app_consume_effects)
  from app_create_keeps [OF assms(1-3) create_input_valid [OF c(5)], of s3 ?rid "Inr cr" es3 s2] c(6,7) db assms(4) h(2) hr(1)
  have L: "transaction_id (result_transaction cr) = new_id env" "db_ledger (app_database s') key =
      Some (Done (execution_fingerprint (number_to_text (rt_cache rt)) (rt_sha256 rt) t) (result_transaction cr))" by simp_all
  have f: "shutting_down k = False" using up by simp
  have "body r = Json_Body (json_of_transaction ?d (result_transaction cr))"
    using hr(3) c(8) by (simp add: creation_response_def json_ok_def response_json_of_def)
  with that [OF refl c(1)] c L show thesis unfolding f by blast
qed

section \<open>Repetitions\<close>

text \<open>What the guards and the input of a creation depend on is the same for every request.\<close>

lemma handler_deps_static:
  "authenticate (handler_deps rt app down env) req = authenticate (handler_deps rt app down' env') req"
  "max_body_bytes (handler_deps rt app down env) = max_body_bytes (handler_deps rt app down' env')"
  "create_input (handler_deps rt app down env) req = create_input (handler_deps rt app down' env') req"
  "json_of_transaction (handler_deps rt app down env) x = json_of_transaction (handler_deps rt app down' env') x"
proof -
  have f: "authenticator (handler_deps rt app dn e) = authenticate_key (rt_sha256 rt) (app_credentials app)"
    "max_body_bytes (handler_deps rt app dn e) = integer_of (http_max_body_bytes (app_config app))"
    "decode_utf8 (handler_deps rt app dn e) = rt_decode_utf8 rt" "date_text (handler_deps rt app dn e) = to_iso_string (rt_cache rt)"
    for dn e by (simp_all add: handler_deps_def Let_def)
  show "authenticate (handler_deps rt app down env) req = authenticate (handler_deps rt app down' env') req"
    "max_body_bytes (handler_deps rt app down env) = max_body_bytes (handler_deps rt app down' env')"
    "create_input (handler_deps rt app down env) req = create_input (handler_deps rt app down' env') req"
    "json_of_transaction (handler_deps rt app down env) x = json_of_transaction (handler_deps rt app down' env') x"
    unfolding authenticate_def create_input_def json_of_transaction_def f by (rule refl)+
qed

text \<open>
  C2: a creation that was answered with 201 can be repeated: after any number of other requests by
  any clients, and whatever clocks, Redis, the provider and the requests in between do, the same
  request is answered with 200 and the very same transaction, unless the service is over its rate
  limit (429) or the process is shutting down (503); in no case is the provider called or anything
  about any idempotency key changed.
\<close>
theorem created_replays:
  assumes "runtime_ok rt" "config_lease_ok (app_config app)" "db_ok (app_database s0)" "ordinary rt app env"
    and "serve rt app henv env req k s0 = (r, es, k1, s1)" "status r = 201"
    and "later rt app s1 s2"
    and "serve rt app henv' env' req k' s2 = (r', es', k2, s3)"
  shows "Metric Provider_Attempt \<notin> set es' \<and> db_ledger (app_database s3) = db_ledger (app_database s2) \<and>
    (if shutting_down k' then status r' = 503
     else status r' = 200 \<and> body r' = body r \<or> status r' = 429 \<and> Metric Rate_Limit_Rejected \<in> set es')"
proof -
  let ?d = "handler_deps rt app (shutting_down k') env'"
    and ?rid = "request_id_from req (generated_request_id henv') (random_uuid henv')"
  note lawful = ordinary_lawful [OF assms(4,1,2)]
  obtain t key x d0 service where c: "d0 = handler_deps rt app False env" "is_create req"
    "validate_declared_body_size req (max_body_bytes d0) = None" "authenticate d0 req = Some service"
    "create_input d0 req = Some (t, key)" "body r = Json_Body (json_of_transaction d0 x)" "transaction_id x = new_id env"
    "db_ledger (app_database s1) key = Some (Done (execution_fingerprint (number_to_text (rt_cache rt)) (rt_sha256 rt) t) x)"
    by (rule serve_created [OF assms(1,2) lawful assms(3,5,6)])
  have ok1: "db_ok (app_database s1)" using serve_keeps [OF assms(1,2) lawful assms(3,5)] by simp
  from later_keeps [OF assms(7,1,2)] ok1 c(8) have ok2: "db_ok (app_database s2)"
    and fin: "db_ledger (app_database s2) key = Some (Done (execution_fingerprint (number_to_text (rt_cache rt)) (rt_sha256 rt) t) x)"
    by (auto simp: keeps_done_def)
  obtain s3' where h: "handle_request ?d henv' req (Some k') s2 = (r', es', k2, s3')" "app_database s3 = app_database s3'"
    using assms(8) by (auto simp: serve_def split: prod.splits)
  have g: "validate_declared_body_size req (max_body_bytes ?d) = None" "authenticate ?d req = Some service"
    "create_input ?d req = Some (t, key)" "json_of_transaction ?d x = json_of_transaction d0 x"
    using c(1,3-5) handler_deps_static [of rt app "shutting_down k'" env'] by metis+
  show ?thesis
  proof (cases "shutting_down k'")
    case True
    have "is_transaction_route req" using c(2) by (simp add: is_transaction_route_def)
    from handle_request_refused [OF h(1) True this] h(2) True show ?thesis by auto
  next
    case False
    obtain a es1 s4 where l: "use_limiter ?d ?rid service s2 = (a, es1, s4)" by (metis prod_cases3)
    then obtain lm where lm: "a = Inr lm" "app_database s4 = app_database s2" "Metric Provider_Attempt \<notin> set es1"
      "\<not> allowed lm \<Longrightarrow> Metric Rate_Limit_Rejected \<in> set es1"
      by (auto elim: app_consume_effects)
    from app_create_replay [OF assms(1,2) create_input_valid [OF g(3)], of s4 x env' ?rid] ok2 fin lm(2) obtain s5
      where u: "use_create ?d ?rid t key s4 = (Inr \<lparr>result_transaction = x, created = False\<rparr>, [], s5)"
        "db_ledger (app_database s5) = db_ledger (app_database s2)" by auto
    note route = run_route_create [OF c(2) g(1,2) l [unfolded lm(1)] g(3) u(1)]
    show ?thesis
    proof (cases "allowed lm")
      case True
      with route have "run_route ?d req ?rid s2 = (creation_response ?d \<lparr>result_transaction = x, created = False\<rparr>, es1 @ [], s5)"
        by simp
      from handle_request_runs [OF h(1) False this] lm(3) h(2) u(2) c(6) g(4) False show ?thesis
        by (auto simp: creation_response_def json_ok_def response_json_of_def)
    next
      case False
      with route have "run_route ?d req ?rid s2 = (error_response ''RATE_LIMIT_EXCEEDED'' ''Too many requests'' 429 None
          [(''Retry-After'', js_decimal (retry_after_seconds lm))], es1 @ [warn_log ''rate_limit.rejected'' req ?rid], s4)"
        by simp
      from handle_request_runs [OF h(1) \<open>\<not> shutting_down k'\<close> this] lm(2,3) lm(4) [OF False] h(2) \<open>\<not> shutting_down k'\<close> show ?thesis
        by (auto simp: warn_log_def)
    qed
  qed
qed

section \<open>A creation and its repetition\<close>

text \<open>For the witness: a provider that approves, then one that does not answer.\<close>

definition demo_application :: application where
  "demo_application = \<lparr>app_config = demo_config, app_credentials = [\<lparr>stored_id = ''billing'', stored_digest = replicate 32 170\<rparr>],
     app_shutdown = \<lparr>grace_ms = 15000, close_timeout_ms = 1000\<rparr>\<rparr>"

definition demo_state :: application_state where
  "demo_state = \<lparr>app_database = empty_database, app_redis = [], app_breaker = closed_breaker, app_metrics = new_metrics\<rparr>"

definition demo_body :: string where
  "demo_body = ''{\"amount\":1099,\"currency\":\"BRL\",\"description\":\"order\"}''"

definition demo_post :: server_request where
  "demo_post = \<lparr>http_method = ''POST'', pathname = ''/transactions'', search_params = [],
     header = map_of [(''Authorization'', ''Bearer '' @ replicate 32 (CHR ''t'')), (''Content-Type'', ''application/json''),
       (''Idempotency-Key'', ''k1'')],
     body_reads = Some [Chunk (map (\<lambda>c. of_nat (code c)) demo_body)]\<rparr>"

definition demo_request_env :: "provider_response result \<Rightarrow> request_env" where
  "demo_request_env fetched = \<lparr>claim_time = 1000, created_time = 1000, completed_time = 1000, new_id = demo_id, meanwhile = id,
     process_time = 0, attempt_at = (\<lambda>_. demo_attempt (Inr demo_approval)), fetch_at = (\<lambda>_ _. fetched),
     limiter_time = 0, limiter_fault = Not_Sent Redis_Operation_Timeout_Error, cache_times = (0, 0),
     cache_faults = ((No_Fault, No_Fault), No_Fault), list_later = id, postgres_probe = Probe_Resolves 1, redis_probe = Probe_Hangs\<rparr>"

lemma demo_runtime_ok: "runtime_ok demo_runtime"
  by (simp add: runtime_ok_def demo_runtime_def text_driver_ok demo_sha_def)

lemma demo_lease_ok: "config_lease_ok (app_config demo_application)"
  by (simp add: config_lease_ok_def demo_application_def demo_config_def)

lemma demo_ordinary: "ordinary rt app (demo_request_env f)"
proof -
  have "to_lower demo_id = demo_id" by code_simp
  then show ?thesis by (simp add: ordinary_def demo_request_env_def later.now)
qed

lemma demo_body_parsed: "json_parse demo_body = Some (transaction_json demo_input)"
proof -
  have "json_stringify (\<lambda>_. []) (transaction_json demo_input) = demo_body" by code_simp
  moreover have "json_parse (json_stringify (\<lambda>_. []) (transaction_json demo_input)) = Some (transaction_json demo_input)"
    unfolding transaction_json_def by (intro json_parse_stringify) (simp_all add: demo_input_def max_safe_integer_def)
  ultimately show ?thesis by simp
qed

lemma demo_guards:
  "is_create demo_post" "validate_declared_body_size demo_post m = None"
  "authenticate (handler_deps demo_runtime demo_application False env) demo_post = Some ''billing''"
  "create_input (handler_deps demo_runtime demo_application False env) demo_post = Some (demo_input, ''k1'')"
proof -
  show "is_create demo_post" "validate_declared_body_size demo_post m = None"
    by (simp_all add: is_create_def demo_post_def validate_declared_body_size_def)
  have b: "bearer_token (''Bearer '' @ replicate 32 (CHR ''t'')) = Some (replicate 32 (CHR ''t''))" by code_simp
  note k = hex_decode_encode [of "replicate 32 170"]
  show "authenticate (handler_deps demo_runtime demo_application False env) demo_post = Some ''billing''"
    using b k by (simp add: authenticate_def demo_post_def handler_deps_def Let_def demo_application_def demo_runtime_def
        authenticate_key_def hash_api_key_def demo_sha_def)
  have "char_of (unat (of_nat (code c) :: byte)) = c" for c
    by (simp add: code_def unat_of_nat)
  then have bytes: "map (\<lambda>b. char_of (unat b)) (map (\<lambda>c. of_nat (code c) :: byte) demo_body) = demo_body"
    by (simp add: map_idI)
  have len: "length demo_body \<le> 16384" by code_simp
  have ct: "supported_content_type (Some ''application/json'')" "idempotency_key_schema ''k1'' = Some ''k1''" by code_simp+
  have ts: "transaction_schema (transaction_json demo_input) = Some demo_input"
  proof -
    have "currency_schema (JString ''BRL'') = Some ''BRL''" "description_schema (JString ''order'') = Some ''order''" by code_simp+
    then show ?thesis
      by (simp add: transaction_schema_def transaction_json_def transaction_keys_def demo_input_def js_get_def amount_schema_def
          is_safe_integer_js_int max_safe_integer_def)
  qed
  show "create_input (handler_deps demo_runtime demo_application False env) demo_post = Some (demo_input, ''k1'')"
    using ct len bytes demo_body_parsed ts
    by (simp add: create_input_def demo_post_def handler_deps_def Let_def demo_runtime_def demo_application_def demo_config_def
        read_bounded_json_def)
qed

lemma demo_run:
  assumes "inner_answer (envs 1) = Inr r" "fuel = Suc n"
  shows "\<exists>evs b. resilient_process (config_retry demo_config) rid envs 0 t key fuel closed_breaker = Some (Inr r, evs, b)"
proof -
  have "js_less (js_int 1) (max_attempts (config_retry demo_config))" by (simp add: demo_config_def default_retry_def)
  then show ?thesis
    using assms demo_acquire by (simp add: resilient_process_def begin_process_def next_attempt_def attempt_ended_def)
qed

lemma demo_provider:
  "\<exists>es b. payment_provider demo_runtime demo_config (demo_request_env (Inr approved_response)) rid demo_input ''k1''
      (demo_state\<lparr>app_database := db\<rparr>, []) = (Inr demo_result, demo_state\<lparr>app_database := db, app_breaker := b\<rparr>, es)"
proof -
  let ?env = "demo_request_env (Inr approved_response)"
  let ?at = "provider_attempt demo_runtime demo_config ?env rid demo_input ''k1''"
  have "inner_answer (?at 1) = Inr demo_result"
    by (simp add: provider_attempt_def provider_call_def http_process_def demo_request_env_def interpret_response_def
        approved_response_def response_ok_def provider_response_schema_def js_get_def demo_result_def)
  moreover have "provider_fuel demo_config = Suc 5" by (simp add: provider_fuel_def demo_config_def default_retry_def)
  ultimately obtain evs b where r: "resilient_process (config_retry demo_config) rid ?at 0 demo_input ''k1'' (provider_fuel demo_config)
      closed_breaker = Some (Inr demo_result, evs, b)"
    using demo_run by blast
  have m: "meanwhile ?env = id" "process_time ?env = 0" by (simp_all add: demo_request_env_def)
  show ?thesis unfolding payment_provider_def m
    using r by (simp add: demo_state_def)
qed

lemma demo_create:
  "\<exists>es s. app_create demo_runtime demo_config (demo_request_env (Inr approved_response)) rid demo_input ''k1'' demo_state =
    (Inr \<lparr>result_transaction = demo_transaction, created = True\<rparr>, es, s)"
proof -
  let ?env = "demo_request_env (Inr approved_response)" and ?R = "transaction_repository_of demo_runtime"
  obtain es b where p: "payment_provider demo_runtime demo_config ?env (Some rid) demo_input ''k1'' (demo_state\<lparr>app_database := demo_database\<rparr>, []) =
      (Inr demo_result, demo_state\<lparr>app_database := demo_database, app_breaker := b\<rparr>, es)"
    using demo_provider by blast
  have "begin_create (postgres_transaction_repository text_driver) (number_to_text (rt_cache demo_runtime)) demo_sha 30000 1000 demo_input ''k1'' empty_database =
      (Calling demo_input ''k1'' demo_fingerprint, demo_database)" by (rule demo_begin) simp
  then have bc: "begin_create ?R (number_to_text (rt_cache demo_runtime)) demo_sha 30000 1000 demo_input ''k1'' (demo_state, []) =
      (Calling demo_input ''k1'' demo_fingerprint, demo_state\<lparr>app_database := demo_database\<rparr>, [])"
    by (auto simp: begin_create_def Let_def transaction_repository_of_def at_part_def put_database_def demo_state_def demo_runtime_def
        split: prod.splits sum.splits claim_result.splits)
  let ?c = "completion ''k1'' demo_fingerprint demo_transaction 1000"
  obtain db where c: "postgres_complete ?c demo_database = (Inr (), db)"
  proof -
    obtain a db where a: "postgres_complete ?c demo_database = (a, db)" by fastforce
    have "ledger_complete ?c (db_ledger demo_database) \<noteq> None"
      using demo_database_ledger by (simp add: ledger_complete_def)
    with sql_complete_ledger [OF demo_database_ok demo_complete_ok a] have "a = Inr ()" by (auto split: option.splits)
    with a that show thesis by blast
  qed
  have f: "rt_sha256 demo_runtime = demo_sha" "integer_of (stale_timeout_ms demo_config) = 30000" "claim_time ?env = 1000"
    "new_id ?env = demo_id" "created_time ?env = 1000" "completed_time ?env = 1000"
    by (simp_all add: demo_runtime_def demo_config_def demo_request_env_def)
  have comp: "complete_idempotency_operation ?R ?c st = (Inr (), put_database db st)" if "app_database (fst st) = demo_database" for st
    using c that by (simp add: transaction_repository_of_def at_part_def postgres_transaction_repository_def)
  show ?thesis
    using bc p comp
    by (simp add: app_create_def create_transaction_execute_def create_env_of_def f demo_transaction_def [symmetric] Let_def
        split: prod.splits)
qed

lemma demo_served:
  assumes "serve demo_runtime demo_application demo_handler_env (demo_request_env (Inr approved_response)) demo_post new_tracker demo_state =
    (r, es, k1, s1)"
  shows "status r = 201"
proof -
  let ?env = "demo_request_env (Inr approved_response)"
  let ?d = "handler_deps demo_runtime demo_application False ?env"
    and ?rid = "request_id_from demo_post (generated_request_id demo_handler_env) (random_uuid demo_handler_env)"
  have up: "\<not> shutting_down new_tracker" by (simp add: new_tracker_def)
  obtain s2 where h: "handle_request ?d demo_handler_env demo_post (Some new_tracker) demo_state = (r, es, k1, s2)"
    using assms up by (auto simp: serve_def split: prod.splits)
  have cfg: "app_config demo_application = demo_config" by (simp add: demo_application_def)
  have l: "\<exists>es1. use_limiter ?d ?rid ''billing'' demo_state = (Inr pass, es1, demo_state)"
    by (auto simp: app_consume_def observed_consume_def redis_consume_def redis_call_def demo_request_env_def pass_def
        split: sum.splits)
  obtain es1 where l: "use_limiter ?d ?rid ''billing'' demo_state = (Inr pass, es1, demo_state)" using l by blast
  obtain es2 s3 where u: "use_create ?d ?rid demo_input ''k1'' demo_state =
      (Inr \<lparr>result_transaction = demo_transaction, created = True\<rparr>, es2, s3)"
    using demo_create [of ?rid] unfolding handler_deps_simps cfg by blast
  have "allowed pass" by (simp add: pass_def)
  with run_route_create [OF demo_guards(1,2,3) l demo_guards(4) u] have
    "run_route ?d demo_post ?rid demo_state = (creation_response ?d \<lparr>result_transaction = demo_transaction, created = True\<rparr>, es1 @ es2, s3)"
    by simp
  from handle_request_runs [OF h up this] show ?thesis by simp
qed

theorem created_replays_witness:
  "let (r, es, k1, s1) = serve demo_runtime demo_application demo_handler_env (demo_request_env (Inr approved_response)) demo_post
       new_tracker demo_state;
     (r', es', k2, s2) = serve demo_runtime demo_application demo_handler_env (demo_request_env (Inl Abort_Error)) demo_post
       new_tracker s1
   in status r = 201 \<and> status r' \<in> {200, 429} \<and> Metric Provider_Attempt \<notin> set es'"
proof -
  obtain r es k1 s1 where a: "serve demo_runtime demo_application demo_handler_env (demo_request_env (Inr approved_response)) demo_post
      new_tracker demo_state = (r, es, k1, s1)" by (metis prod_cases4)
  obtain r' es' k2 s2 where b: "serve demo_runtime demo_application demo_handler_env (demo_request_env (Inl Abort_Error)) demo_post
      new_tracker s1 = (r', es', k2, s2)" by (metis prod_cases4)
  have ok: "db_ok (app_database demo_state)" by (simp add: demo_state_def db_ok_empty)
  have up: "\<not> shutting_down new_tracker" by (simp add: new_tracker_def)
  note st = demo_served [OF a]
  from created_replays [OF demo_runtime_ok demo_lease_ok ok demo_ordinary a st later.now b] up
  have "Metric Provider_Attempt \<notin> set es'" "status r' = 200 \<or> status r' = 429" by auto
  with a b st show ?thesis by simp
qed

end
