(* ===== verification/Application_Reads.thy ===== *)
theory Application_Reads
  imports Application_Runs
begin

text \<open>
  Reading through the whole service of \<^verbatim>\<open>src/src/main.ts\<close>: the cache as it is wired there - Redis,
  its failures reported, observed - keeps the cache contract; the limiter, which shares Redis with
  it, never makes an entry appear; so in every state the service can be in, Redis holds only
  transactions of the database.
\<close>

section \<open>The cache of the application\<close>

interpretation app_cache: watched_cache "reporting_cache cfg now faults rid" "\<lambda>_. True" "redis_holds cfg"
  "runtime_dates (cache_rt cfg)" for cfg now faults rid
proof unfold_locales
  fix st st' :: "redis \<times> effect list" and i a
  assume "cache_get (reporting_cache cfg now faults rid) i st = (a, st')"
  then have "cache_get (redis_transaction_cache cfg now faults) i (fst st) = (a, fst st')"
    by (auto simp: reporting_cache_def redis_transaction_cache_def split: prod.splits)
  from redis_cache.get_law [OF _ this] show "True \<and> (\<forall>t. a = Inr (Some t) \<longrightarrow> redis_holds cfg (fst st) i = Some t) \<and>
      (\<forall>j u. redis_holds cfg (fst st') j = Some u \<longrightarrow> redis_holds cfg (fst st) j = Some u)"
    by simp
next
  fix st st' :: "redis \<times> effect list" and t :: transaction and a
  assume d: "runtime_dates (cache_rt cfg) t" and "cache_set (reporting_cache cfg now faults rid) t st = (a, st')"
  then have "cache_set (redis_transaction_cache cfg now faults) t (fst st) = (a, fst st')"
    by (auto simp: reporting_cache_def redis_transaction_cache_def split: prod.splits)
  from redis_cache.set_law [OF _ d this] show "True \<and>
      (\<forall>j u. redis_holds cfg (fst st') j = Some u \<longrightarrow> redis_holds cfg (fst st) j = Some u \<or> j = transaction_id t \<and> u = t)"
    by simp
qed

section \<open>The limiter and the cache in one Redis\<close>

lemma decimal_not_entry: "decode_entry rt i (js_decimal n) = None"
proof -
  obtain c r where c: "js_decimal n = c # r" "is_digit c \<or> c = CHR ''-''" using js_decimal_start by blast
  have ns: "\<not> is_json_space c" using c(2) digit_not_json_space by auto
  have ne: "c \<noteq> quote" "c \<noteq> CHR ''{''" "c \<noteq> CHR ''[''" "c \<noteq> CHR ''n''" "c \<noteq> CHR ''t''" "c \<noteq> CHR ''f''"
    using c(2) by (auto simp: is_digit_def quote_def)
  have "\<exists>x. v = JNumber x" if "json_parse (js_decimal n) = Some v" for v
    using that ns ne c(1)
    by (auto simp: json_parse_def starts_with_def Let_def skip_space_def split: option.splits if_splits)
  then show ?thesis by (auto simp: decode_entry_def cached_transaction_schema_def split: option.splits)
qed

lemma redis_holds_update:
  assumes "redis_holds cfg (js_set key x r) i = Some t"
    and "item_value x = js_decimal n \<or> (\<exists>y. js_get r key = Some y \<and> item_value x = item_value y)"
  shows "redis_holds cfg r i = Some t"
  using assms by (auto simp: redis_holds_def decimal_not_entry split: sum.splits option.splits if_splits)

lemma redis_holds_pexpire: "redis_holds cfg (redis_pexpire ae now key ms r) i = Some t \<Longrightarrow> redis_holds cfg r i = Some t"
  by (auto simp: redis_pexpire_def redis_lookup_def split: option.splits if_splits elim!: redis_holds_update)

lemma redis_holds_incr: "redis_incr ae now key r = (a, r') \<Longrightarrow> redis_holds cfg r' i = Some t \<Longrightarrow> redis_holds cfg r i = Some t"
  by (auto simp: redis_incr_def split: option.splits if_splits elim!: redis_holds_update)

lemma redis_holds_consume:
  assumes "redis_consume ae fault p mx w now subject r = (a, failures, r')" "redis_holds cfg r' i = Some t"
  shows "redis_holds cfg r i = Some t"
proof -
  have s: "redis_holds cfg r i = Some t"
    if "redis_holds cfg (snd (consume_fixed_window_script ae now key w r)) i = Some t" for key
    using that
    by (auto simp: consume_fixed_window_script_def Let_def split: prod.splits sum.splits if_splits
        dest: redis_holds_pexpire redis_holds_incr)
  have "r' = r \<or> (\<exists>key. r' = snd (consume_fixed_window_script ae now key w r))"
    using assms(1) by (cases fault) (auto simp: redis_consume_def redis_call_def split: sum.splits prod.splits, (metis snd_conv)+)
  with s assms(2) show ?thesis by blast
qed

section \<open>Rows stay\<close>

definition keeps_rows :: "database \<Rightarrow> database \<Rightarrow> bool" where
  "keeps_rows a b \<longleftrightarrow> (\<forall>i t. js_get (transactions_table a) i = Some t \<longrightarrow> js_get (transactions_table b) i = Some t)"

lemma keeps_rows_same [simp]: "transactions_table b = transactions_table a \<Longrightarrow> keeps_rows a b"
  by (simp add: keeps_rows_def)

lemma keeps_rows_trans: "keeps_rows a b \<Longrightarrow> keeps_rows b c \<Longrightarrow> keeps_rows a c"
  by (simp add: keeps_rows_def)

lemma claim_step_rows: "transactions_table (snd (claim_step drv r ph db)) = transactions_table db"
  by (cases ph) (auto simp: sql_insert_operation_def sql_reclaim_operation_def Let_def split: option.splits prod.splits sum.splits if_splits)

lemma claim_run_rows: "transactions_table (snd (claim_run drv r ph db)) = transactions_table db"
proof (induction drv r ph db rule: claim_run.induct)
  case (1 drv r ph db)
  then show ?case
    using claim_step_rows [of drv r ph db]
    by (subst claim_run.simps) (auto simp del: claim_step.simps split: claim_phase.splits prod.splits)
qed

lemma repository_rows:
  "postgres_claim drv r db = (a, db') \<Longrightarrow> transactions_table db' = transactions_table db"
  "postgres_release rr db = (b, db') \<Longrightarrow> transactions_table db' = transactions_table db"
  "postgres_complete cr db = (b, db') \<Longrightarrow> keeps_rows db db'"
proof -
  show "postgres_claim drv r db = (a, db') \<Longrightarrow> transactions_table db' = transactions_table db"
    using claim_run_rows [of drv r "Try_Insert 0" db] by (simp add: postgres_claim_def)
  show "postgres_release rr db = (b, db') \<Longrightarrow> transactions_table db' = transactions_table db"
    by (auto simp: postgres_release_def split: option.splits if_splits)
  show "postgres_complete cr db = (b, db') \<Longrightarrow> keeps_rows db db'"
    by (auto simp: postgres_complete_def sql_insert_transaction_def sql_complete_operation_def Let_def keeps_rows_def
        split: option.splits if_splits)
qed

lemma find_row:
  assumes "driver_ok drv" "db_ok db"
  shows "postgres_find_by_id drv i db = Inr (Some t) \<longleftrightarrow> is_uuid i \<and> js_get (transactions_table db) (to_lower i) = Some t"
proof (cases "is_uuid i")
  case True
  show ?thesis
  proof (cases "js_get (transactions_table db) (to_lower i)")
    case (Some u)
    with map_transaction_row [OF assms(1)] db_ok_transaction [OF assms(2) Some] True show ?thesis
      by (auto simp: postgres_find_by_id_def)
  qed (simp add: postgres_find_by_id_def)
qed (simp add: postgres_find_by_id_def)

section \<open>Redis holds transactions of the database\<close>

definition cache_agrees :: "runtime \<Rightarrow> application_config \<Rightarrow> application_state \<Rightarrow> bool" where
  "cache_agrees rt c s \<longleftrightarrow> (\<forall>i t. redis_holds (redis_cache_of rt c) (app_redis s) i = Some t \<longrightarrow>
     is_uuid i \<and> js_get (transactions_table (app_database s)) (to_lower i) = Some t)"

definition reads_kept :: "runtime \<Rightarrow> application_config \<Rightarrow> application_state \<Rightarrow> application_state \<Rightarrow> bool" where
  "reads_kept rt c s s' \<longleftrightarrow> (cache_agrees rt c s \<longrightarrow> cache_agrees rt c s' \<and> keeps_rows (app_database s) (app_database s'))"

lemma reads_kept_trans: "reads_kept rt c a b \<Longrightarrow> reads_kept rt c b d \<Longrightarrow> reads_kept rt c a d"
  using keeps_rows_trans by (auto simp: reads_kept_def)

lemma reads_kept_rows: "keeps_rows (app_database s) (app_database s') \<Longrightarrow> app_redis s' = app_redis s \<Longrightarrow> reads_kept rt c s s'"
  unfolding reads_kept_def cache_agrees_def keeps_rows_def by metis

lemma reads_kept_redis:
  assumes "app_database s' = app_database s"
    and "\<And>i t. redis_holds (redis_cache_of rt c) (app_redis s') i = Some t \<Longrightarrow> redis_holds (redis_cache_of rt c) (app_redis s) i = Some t"
  shows "reads_kept rt c s s'"
  using assms by (auto simp: reads_kept_def cache_agrees_def)

text \<open>What \<open>GetTransaction\<close> answers through the service is what the database holds.\<close>

lemma app_get_current:
  assumes "runtime_ok rt" "\<And>t. runtime_dates (rt_cache rt) t" "db_ok (app_database s)" "cache_agrees rt c s"
    and "app_get rt c env rid i s = (a, es, s')"
  shows "a = uncached_answer (postgres_transaction_repository (rt_driver rt)) i (app_database s) \<and>
    cache_agrees rt c s' \<and> app_database s' = app_database s"
proof -
  let ?R = "postgres_transaction_repository (rt_driver rt)" and ?cfg = "redis_cache_of rt c"
  have drv: "driver_ok (rt_driver rt)" using assms(1) by (simp add: runtime_ok_def)
  have find: "find_by_id ?R j db = postgres_find_by_id (rt_driver rt) j db" for j db
    by (simp add: postgres_transaction_repository_def)
  obtain r es0 where g: "get_transaction_execute ?R (Some (transaction_cache_of rt c env (Some rid))) i (app_database s)
      (app_redis s, []) = (a, r, es0)" "s' = s\<lparr>app_redis := r\<rparr>"
    using assms(5) by (auto simp: app_get_def split: prod.splits)
  have coh: "app_cache.observed.coherent ?cfg ?R (app_database s) (app_redis s, [])"
    using assms(4) by (simp add: app_cache.observed.coherent_def cache_agrees_def find find_row [OF drv assms(3)])
  have own: "find_by_id ?R (transaction_id t) (app_database s) = Inr (Some t) \<and> runtime_dates (cache_rt ?cfg) t"
    if "find_by_id ?R j (app_database s) = Inr (Some t)" for j t
  proof -
    from that have t: "js_get (transactions_table (app_database s)) (to_lower j) = Some t"
      by (simp add: find find_row [OF drv assms(3)])
    from db_ok_transaction [OF assms(3) this] t show ?thesis
      using assms(2) by (auto simp: find find_row [OF drv assms(3)] transaction_row_ok_def redis_cache_of_def)
  qed
  from app_cache.observed.get_transaction_transparent [OF coh _ g(1) [unfolded transaction_cache_of_def]] own
  have "a = uncached_answer ?R i (app_database s)" "app_cache.observed.coherent ?cfg ?R (app_database s) (r, es0)" by blast+
  with g(2) show ?thesis by (simp add: app_cache.observed.coherent_def cache_agrees_def find find_row [OF drv assms(3)])
qed

section \<open>Every request keeps it\<close>

lemma begin_create_reads:
  assumes "begin_create (transaction_repository_of rt) sn sha T now t key st = (ph, st')"
  shows "reads_kept rt c (fst st) (fst st')"
proof -
  obtain a db where d: "postgres_claim (rt_driver rt) (create_claim T now key (create_request_fingerprint sn sha (normalize_transaction_input t)))
      (app_database (fst st)) = (a, db)" by fastforce
  from assms d have "fst st' = (fst st)\<lparr>app_database := db\<rparr>"
    by (auto simp: begin_create_def Let_def transaction_repository_of_def at_part_def put_database_def
        postgres_transaction_repository_def split: prod.splits sum.splits claim_result.splits)
  with repository_rows(1) [OF d] show ?thesis by (intro reads_kept_rows) simp_all
qed

lemma finish_create_reads:
  assumes "finish_create (transaction_repository_of rt) i n1 n2 ph st = (a, st')"
  shows "reads_kept rt c (fst st) (fst st')"
proof -
  have "keeps_rows (app_database (fst st)) (app_database (fst st')) \<and> app_redis (fst st') = app_redis (fst st)"
    using assms
    by (cases ph) (auto simp: Let_def transaction_repository_of_def at_part_def put_database_def
        postgres_transaction_repository_def dest: repository_rows split: prod.splits sum.splits)
  then show ?thesis by (intro reads_kept_rows) simp_all
qed

lemma app_create_reads:
  assumes "runtime_ok rt" "config_lease_ok c'" "valid_input t key" "db_ok (app_database s)"
    and "\<And>x. db_ok (app_database x) \<Longrightarrow> reads_kept rt c x (meanwhile env x)" "app_create rt c' env rid t key s = (a, es, s')"
  shows "reads_kept rt c s s'"
proof -
  let ?R = "transaction_repository_of rt" and ?env = "create_env_of rt c' env (Some rid)"
  have ex: "create_transaction_execute ?R (number_to_text (rt_cache rt)) (rt_sha256 rt) (integer_of (stale_timeout_ms c'))
      ?env t key (s, []) = (a, s', es)"
    using assms(6) by (auto simp: app_create_def split: prod.splits)
  obtain ph st1 where b: "begin_create ?R (number_to_text (rt_cache rt)) (rt_sha256 rt) (integer_of (stale_timeout_ms c'))
      (claim_time env) t key (s, []) = (ph, st1)" by (rule prod.exhaust)
  note kept = begin_create_reads [OF b, where c = c]
  have st: "driver_ok (rt_driver rt) \<and> db_ok (app_database (fst (s, [] :: effect list)))"
    using assms(1,4) by (simp add: runtime_ok_def)
  from app_store.whole.begin_create_ledger [OF st valid_claim_ok [OF assms(1-3)] b [unfolded transaction_repository_of_def]]
  have ok: "db_ok (app_database (fst st1))" by blast
  show ?thesis
  proof (cases "\<exists>n k fp. ph = Calling n k fp")
    case False
    with ex b have "finish_create ?R (new_id env) (created_time env) (completed_time env) ph st1 = (a, s', es)"
      by (cases ph) (simp_all add: create_transaction_execute_def create_env_of_def del: finish_create.simps)
    then show ?thesis using finish_create_reads kept reads_kept_trans by (metis fst_conv)
  next
    case True
    then obtain n k fp where ph: "ph = Calling n k fp" by blast
    obtain ans st2 where p: "payment_provider rt c' env (Some rid) n k st1 = (ans, st2)" by (rule prod.exhaust)
    then have "app_database (fst st2) = app_database (meanwhile env (fst st1))" "app_redis (fst st2) = app_redis (meanwhile env (fst st1))"
      by (auto simp: payment_provider_def Let_def split: option.splits prod.splits)
    then have "reads_kept rt c (meanwhile env (fst st1)) (fst st2)" by (intro reads_kept_rows) simp_all
    with kept assms(5) [OF ok] have "reads_kept rt c s (fst st2)" using reads_kept_trans by (metis fst_conv)
    moreover have "finish_create ?R (new_id env) (created_time env) (completed_time env)
        (provider_answered ans (Calling n k fp)) st2 = (a, s', es)"
      using ex b ph p by (simp add: create_transaction_execute_def create_env_of_def)
    ultimately show ?thesis using finish_create_reads reads_kept_trans by (metis fst_conv)
  qed
qed

lemma app_consume_reads: "app_consume rt c' env rid service s = (a, es, s') \<Longrightarrow> reads_kept rt c s s'"
  by (rule reads_kept_redis)
    (auto simp: app_consume_def observed_consume_def split: prod.splits dest!: redis_holds_consume)

lemma handler_deps_reads:
  assumes "runtime_ok rt" "\<And>t. runtime_dates (rt_cache rt) t" "config_lease_ok (app_config app)" "lawful env"
    and "\<And>x. db_ok (app_database x) \<Longrightarrow> reads_kept rt (app_config app) x (meanwhile env x)"
  shows "deps_keep (\<lambda>s. db_ok (app_database s) \<and> cache_agrees rt (app_config app) s \<and> reads_kept rt (app_config app) s0 s)
    (handler_deps rt app down env)"
proof -
  let ?c = "app_config app"
  let ?P = "\<lambda>s. db_ok (app_database s) \<and> cache_agrees rt ?c s \<and> reads_kept rt ?c s0 s"
  have step: "?P s'" if "?P s" "db_ok (app_database s')" "reads_kept rt ?c s s'" for s s'
    using that reads_kept_trans by (auto simp: reads_kept_def [of rt ?c s s'])
  have cr: "?P (snd (snd (app_create rt ?c env rid t key s)))" if "valid_input t key" "?P s" for rid t key s
  proof -
    obtain a es s' where u: "app_create rt ?c env rid t key s = (a, es, s')" by (metis prod_cases3)
    from step [OF that(2) _ app_create_reads [OF assms(1,3) that(1) _ assms(5) u]] app_create_keeps [OF assms(1,3,4) that(1) _ u] that(2) u
    show ?thesis by simp
  qed
  have ge: "?P (snd (snd (app_get rt ?c env rid i s)))" if "?P s" for rid i s
  proof -
    obtain a es s' where u: "app_get rt ?c env rid i s = (a, es, s')" by (metis prod_cases3)
    from app_get_current [OF assms(1,2) _ _ u] that have "cache_agrees rt ?c s'" "app_database s' = app_database s" by blast+
    moreover from this that have "reads_kept rt ?c s0 s'" by (simp add: reads_kept_def)
    ultimately show ?thesis using that u by simp
  qed
  have co: "?P (snd (snd (app_consume rt ?c env rid i s)))" if "?P s" for rid i s
  proof -
    obtain a es s' where u: "app_consume rt ?c env rid i s = (a, es, s')" by (metis prod_cases3)
    then have "app_database s' = app_database s" by (auto elim: app_consume_effects)
    with step [OF that _ app_consume_reads [OF u]] that u show ?thesis by simp
  qed
  have re: "snd (snd (app_list rt env rid p n s)) = s" "snd (snd (app_readiness ?c dn env s)) = s" for rid p n dn s
    by (simp_all add: app_list_def app_readiness_def split: prod.splits)
  show ?thesis
    unfolding deps_keep_def handler_deps_simps using cr ge co re by (intro conjI allI impI) (auto simp: re)
qed

lemma serve_reads:
  assumes "runtime_ok rt" "\<And>t. runtime_dates (rt_cache rt) t" "config_lease_ok (app_config app)" "lawful env"
    and "\<And>x. db_ok (app_database x) \<Longrightarrow> reads_kept rt (app_config app) x (meanwhile env x)"
    and "db_ok (app_database s)" "cache_agrees rt (app_config app) s" "serve rt app henv env req k s = (r, es, k', s')"
  shows "cache_agrees rt (app_config app) s' \<and> keeps_rows (app_database s) (app_database s')"
proof -
  obtain s1 where h: "handle_request (handler_deps rt app (shutting_down k) env) henv req (Some k) s = (r, es, k', s1)"
    "app_database s' = app_database s1" "app_redis s' = app_redis s1"
    using assms(8) by (auto simp: serve_def split: prod.splits)
  have "reads_kept rt (app_config app) s s" by (simp add: reads_kept_def keeps_rows_def)
  with deps_keep_handle [OF handler_deps_reads [OF assms(1-5), of s] _ h(1)] assms(6,7) h(2,3) show ?thesis
    by (simp add: reads_kept_def cache_agrees_def)
qed

lemma later_reads:
  assumes "later rt app s0 s" "runtime_ok rt" "\<And>t. runtime_dates (rt_cache rt) t" "config_lease_ok (app_config app)"
  shows "db_ok (app_database s0) \<longrightarrow> reads_kept rt (app_config app) s0 s"
  using assms
proof (induction rule: later.induct)
  case (now s)
  show ?case by (simp add: reads_kept_def keeps_rows_def)
next
  case (request s0 s env henv req k r es k' s')
  then have "ordinary rt app env" by (simp add: ordinary_def)
  note lawful = ordinary_lawful [OF this request.prems(1,3)]
  have m: "db_ok (app_database x) \<Longrightarrow> reads_kept rt (app_config app) x (meanwhile env x)" for x
    using request.IH(2) request.prems by blast
  have "reads_kept rt (app_config app) s s'" if "db_ok (app_database s)"
    unfolding reads_kept_def using serve_reads [OF request.prems lawful m that _ request.hyps(4)] by blast
  with request.IH(1) request.prems later_keeps [OF request.hyps(1) request.prems(1,3)] show ?case
    using reads_kept_trans by blast
qed

section \<open>Reading a transaction\<close>

text \<open>A request for one transaction, with and without a service behind it.\<close>

lemma run_route_get:
  assumes "http_method req = ''GET''" "id_of_path (pathname req) = Some i" "uuid_schema d i"
  shows "authenticate d req = None \<Longrightarrow> run_route d req rid s = (unauthorized, [warn_log ''auth.failed'' req rid], s)"
    "authenticate d req = Some service \<Longrightarrow> use_limiter d rid service s = (Inr l, es1, s1) \<Longrightarrow>
      use_get d rid i s1 = (a, es2, s2) \<Longrightarrow> run_route d req rid s =
      (if allowed l then (case a of Inl e \<Rightarrow> map_application_error e | Inr t \<Rightarrow> json_ok (json_of_transaction d t) 200, es1 @ es2, s2)
       else (error_response ''RATE_LIMIT_EXCEEDED'' ''Too many requests'' 429 None
          [(''Retry-After'', js_decimal (retry_after_seconds l))], es1 @ [warn_log ''rate_limit.rejected'' req rid], s1))"
proof -
  have tr: "is_transaction_route req" "\<not> is_create req" using assms by (simp_all add: is_transaction_route_def is_create_def)
  have "pathname req \<noteq> ''/transactions''" using assms(2) by (auto simp: id_of_path_def split: if_splits)
  then have t: "transaction_route d req rid s1 = get_route d rid i s1" for s1 using assms by (simp add: transaction_route_def)
  show "authenticate d req = None \<Longrightarrow> run_route d req rid s = (unauthorized, [warn_log ''auth.failed'' req rid], s)"
    using transaction_route_guarded(1) [OF tr(1), of d rid s] tr(2) by (simp add: run_route_def guarded_route_def)
  show "run_route d req rid s =
      (if allowed l then (case a of Inl e \<Rightarrow> map_application_error e | Inr t \<Rightarrow> json_ok (json_of_transaction d t) 200, es1 @ es2, s2)
       else (error_response ''RATE_LIMIT_EXCEEDED'' ''Too many requests'' 429 None
          [(''Retry-After'', js_decimal (retry_after_seconds l))], es1 @ [warn_log ''rate_limit.rejected'' req rid], s1))"
    if "authenticate d req = Some service" "use_limiter d rid service s = (Inr l, es1, s1)" "use_get d rid i s1 = (a, es2, s2)"
    using transaction_route_guarded(1) [OF tr(1), of d rid s] tr(2) that t [of s1] assms(3)
    by (cases a) (simp_all add: run_route_def guarded_route_def get_route_def)
qed

lemma done_row:
  assumes "db_ok db" "db_ledger db key = Some (Done fp x)"
  shows "js_get (transactions_table db) (transaction_id x) = Some x"
proof -
  obtain opn where o: "js_get (operations_table db) key = Some opn" "db_entry db opn = Done fp x"
    using assms(2) by (auto simp: db_ledger_def)
  then have c: "operation_status opn = Completed" by (auto simp: db_entry_def split: operation_status.splits)
  from db_okD [OF assms(1) o(1)] c obtain i where i: "operation_transaction_id opn = Some i" "js_get (transactions_table db) i \<noteq> None"
    by (auto simp: db_operation_ok_def operation_row_ok_def)
  then obtain t where t: "js_get (transactions_table db) i = Some t" by blast
  with o(2) c i(1) have "x = t" by (simp add: db_entry_def)
  with db_ok_transaction [OF assms(1) t] t show ?thesis by simp
qed

text \<open>
  C3: what was created can be read.  After a creation answered with 201 and any number of other
  requests by any clients, a request for the transaction by its identifier is answered with 200
  and the very body of the creation - whatever Redis holds, has lost or fails at, and although
  the rate limiter writes to the same Redis - unless the process is shutting down (503), the
  request has no valid credential (401) or its service is over its rate limit (429); and it leaves
  the database as it was.  Redis need only hold transactions of the database at the start, as when
  it is empty.
\<close>
theorem created_readable:
  assumes "runtime_ok rt" "\<And>t. runtime_dates (rt_cache rt) t" "config_lease_ok (app_config app)"
    and "db_ok (app_database s0)" "cache_agrees rt (app_config app) s0" "ordinary rt app env"
    and "serve rt app henv env req k s0 = (r, es, k1, s1)" "status r = 201"
    and "later rt app s1 s2"
    and "http_method req' = ''GET''" "id_of_path (pathname req') = Some (new_id env)" "is_uuid_text (rt_cache rt) (new_id env)"
    and "serve rt app henv' env' req' k' s2 = (r', es', k2, s3)"
  shows "app_database s3 = app_database s2 \<and>
    (if shutting_down k' then status r' = 503
     else if authenticate (handler_deps rt app False env') req' = None then status r' = 401
     else status r' = 200 \<and> body r' = body r \<or> status r' = 429 \<and> Metric Rate_Limit_Rejected \<in> set es')"
proof -
  let ?c = "app_config app" and ?R = "postgres_transaction_repository (rt_driver rt)"
  let ?d = "handler_deps rt app (shutting_down k') env'"
    and ?rid = "request_id_from req' (generated_request_id henv') (random_uuid henv')"
  note lawful = ordinary_lawful [OF assms(6,1,3)]
  obtain t key x d0 service0 where c: "d0 = handler_deps rt app False env" "is_create req"
    "validate_declared_body_size req (max_body_bytes d0) = None" "authenticate d0 req = Some service0"
    "create_input d0 req = Some (t, key)" "body r = Json_Body (json_of_transaction d0 x)" "transaction_id x = new_id env"
    "db_ledger (app_database s1) key = Some (Done (execution_fingerprint (number_to_text (rt_cache rt)) (rt_sha256 rt) t) x)"
    by (rule serve_created [OF assms(1,3) lawful assms(4,7,8)])
  have m: "db_ok (app_database y) \<Longrightarrow> reads_kept rt ?c y (meanwhile env y)" for y
    using later_reads [OF _ assms(1-3)] assms(6) by (simp add: ordinary_def)
  have ok1: "db_ok (app_database s1)" using serve_keeps [OF assms(1,3) lawful assms(4,7)] by simp
  have ag1: "cache_agrees rt ?c s1" using serve_reads [OF assms(1-3) lawful m assms(4,5,7)] by simp
  have ok2: "db_ok (app_database s2)" using later_keeps [OF assms(9,1,3)] ok1 by simp
  from later_reads [OF assms(9,1-3)] ok1 ag1 have ag2: "cache_agrees rt ?c s2" "keeps_rows (app_database s1) (app_database s2)"
    by (simp_all add: reads_kept_def)
  have row: "js_get (transactions_table (app_database s2)) (new_id env) = Some x"
    using done_row [OF ok1 c(8)] ag2(2) c(7) by (simp add: keeps_rows_def)
  have drv: "driver_ok (rt_driver rt)" using assms(1) by (simp add: runtime_ok_def)
  have "postgres_find_by_id (rt_driver rt) (new_id env) (app_database s2) = Inr (Some x)"
    using row db_ok_transaction [OF ok2 row] by (auto simp: find_row [OF drv ok2] transaction_row_ok_def)
  then have found: "uncached_answer ?R (new_id env) (app_database s2) = Inr x"
    by (simp add: uncached_answer_def postgres_transaction_repository_def)
  obtain s3' where h: "handle_request ?d henv' req' (Some k') s2 = (r', es', k2, s3')" "app_database s3 = app_database s3'"
    using assms(13) by (auto simp: serve_def split: prod.splits)
  have u: "uuid_schema ?d (new_id env)" using assms(12) by (simp add: handler_deps_def Let_def)
  show ?thesis
  proof (cases "shutting_down k'")
    case True
    have "is_transaction_route req'" using assms(10,11) by (simp add: is_transaction_route_def)
    from handle_request_refused [OF h(1) True this] h(2) True show ?thesis by auto
  next
    case up: False
    note route = run_route_get [OF assms(10,11) u]
    have same: "authenticate (handler_deps rt app False env') req' = authenticate ?d req'" by (rule handler_deps_static(1))
    show ?thesis
    proof (cases "authenticate ?d req'")
      case None
      from handle_request_runs [OF h(1) up route(1) [OF None]] h(2) up same None show ?thesis
        by (simp add: unauthorized_def error_response_def response_json_of_def)
    next
      case (Some service)
      obtain a0 es1 s4 where l: "use_limiter ?d ?rid service s2 = (a0, es1, s4)" by (metis prod_cases3)
      then obtain lm where lm: "a0 = Inr lm" "app_database s4 = app_database s2" "\<not> allowed lm \<Longrightarrow> Metric Rate_Limit_Rejected \<in> set es1"
        by (auto elim: app_consume_effects)
      have ag4: "cache_agrees rt ?c s4"
        using app_consume_reads [of rt ?c env' ?rid service s2 a0 es1 s4 ?c] l ag2(1) by (simp add: reads_kept_def)
      obtain a es2 s5 where g: "use_get ?d ?rid (new_id env) s4 = (a, es2, s5)" by (metis prod_cases3)
      from app_get_current [OF assms(1,2) _ ag4, of env' ?rid "new_id env" a es2 s5] g ok2 lm(2) found
      have a: "a = Inr x" "app_database s5 = app_database s2" by simp_all
      have js: "json_of_transaction ?d x = json_of_transaction d0 x" unfolding c(1) by (rule handler_deps_static(4))
      note run = route(2) [OF Some l [unfolded lm(1)] g]
      show ?thesis
      proof (cases "allowed lm")
        case True
        with run a have "run_route ?d req' ?rid s2 = (json_ok (json_of_transaction ?d x) 200, es1 @ es2, s5)" by simp
        from handle_request_runs [OF h(1) up this] a(2) lm(2) h(2) up same Some c(6) js show ?thesis
          by (simp add: json_ok_def response_json_of_def)
      next
        case False
        with run have "run_route ?d req' ?rid s2 = (error_response ''RATE_LIMIT_EXCEEDED'' ''Too many requests'' 429 None
          [(''Retry-After'', js_decimal (retry_after_seconds lm))], es1 @ [warn_log ''rate_limit.rejected'' req' ?rid], s4)" by simp
        from handle_request_runs [OF h(1) up this] lm(2) lm(3) [OF False] h(2) up same Some show ?thesis
          by (auto simp: error_response_def response_json_of_def)
      qed
    qed
  qed
qed

text \<open>The creation of \<open>Application_Runs\<close>, then a request for what it created.\<close>

definition demo_get :: server_request where
  "demo_get = \<lparr>http_method = ''GET'', pathname = ''/transactions/'' @ demo_id, search_params = [],
     header = map_of [(''Authorization'', ''Bearer '' @ replicate 32 (CHR ''t''))], body_reads = None\<rparr>"

theorem created_readable_witness:
  "let (r, es, k1, s1) = serve demo_runtime demo_application demo_handler_env (demo_request_env (Inr approved_response)) demo_post
       new_tracker demo_state;
     (r', es', k2, s2) = serve demo_runtime demo_application demo_handler_env (demo_request_env (Inl Abort_Error)) demo_get
       new_tracker s1
   in status r = 201 \<and> (status r' = 200 \<and> body r' = body r \<or> status r' = 429) \<and> app_database s2 = app_database s1"
proof -
  obtain r es k1 s1 where a: "serve demo_runtime demo_application demo_handler_env (demo_request_env (Inr approved_response)) demo_post
      new_tracker demo_state = (r, es, k1, s1)" by (metis prod_cases4)
  obtain r' es' k2 s2 where b: "serve demo_runtime demo_application demo_handler_env (demo_request_env (Inl Abort_Error)) demo_get
      new_tracker s1 = (r', es', k2, s2)" by (metis prod_cases4)
  have ok: "db_ok (app_database demo_state)" by (simp add: demo_state_def db_ok_empty)
  have ag: "cache_agrees demo_runtime (app_config demo_application) demo_state"
    by (simp add: cache_agrees_def demo_state_def redis_holds_def split: sum.splits)
  have dates: "runtime_dates (rt_cache demo_runtime) t" for t using plain_runtime_dates by (simp add: demo_runtime_def)
  have i: "is_uuid demo_id" "id_of_path (pathname demo_get) = Some demo_id" by code_simp+
  have g: "http_method demo_get = ''GET''" "id_of_path (pathname demo_get) = Some (new_id (demo_request_env (Inr approved_response)))"
    "is_uuid_text (rt_cache demo_runtime) (new_id (demo_request_env (Inr approved_response)))"
    using i by (simp_all add: demo_request_env_def demo_runtime_def plain_runtime_def) (simp add: demo_get_def)
  have up: "\<not> shutting_down new_tracker" by (simp add: new_tracker_def)
  have auth: "authenticate (handler_deps demo_runtime demo_application False env) demo_get = Some ''billing''" for env
    using demo_guards(3) [of env] by (simp add: authenticate_def demo_get_def demo_post_def)
  note st = demo_served [OF a]
  from created_readable [OF demo_runtime_ok dates demo_lease_ok ok ag demo_ordinary a st later.now g b] up auth
  have "status r' = 200 \<and> body r' = body r \<or> status r' = 429" "app_database s2 = app_database s1" by auto
  with a b st show ?thesis by simp
qed

end
