(* ===== verification/Fake_Provider.thy ===== *)
theory Fake_Provider
  imports Http_Provider Http_Server
begin

text \<open>
  \<^verbatim>\<open>src/src/dev/fake-provider.ts\<close>, the provider of local environments and tests, and its start in
  \<^verbatim>\<open>src/src/dev/provider.ts\<close>; then \<open>HttpPaymentProvider\<close> talking to it.  The handler gives up
  control while it waits out the latency and while it reads the body: \<open>during_latency\<close> and
  \<open>during_read\<close> are what other requests do to it then.
\<close>

section \<open>Outcomes\<close>

datatype fake_outcome =
    Outcome_Success
  | Outcome_Timeout
  | Outcome_Network_Error
  | Outcome_Invalid_Json
  | Outcome_Invalid_Schema
  | Outcome_Status int

definition supported_statuses :: "int list" where
  "supported_statuses = [400, 401, 403, 404, 409, 429, 500, 502, 503, 504]"

definition named_outcome :: "string \<Rightarrow> fake_outcome option" where
  "named_outcome = map_of
     [(''success'', Outcome_Success), (''timeout'', Outcome_Timeout), (''network_error'', Outcome_Network_Error),
      (''invalid_json'', Outcome_Invalid_Json), (''invalid_schema'', Outcome_Invalid_Schema)]"

definition parse_outcome :: "string \<Rightarrow> fake_outcome result" where
  "parse_outcome part =
     (let value = to_lower (js_trim part) in
      case named_outcome value of
        Some out \<Rightarrow> Inr out
      | None \<Rightarrow>
          (let st = string_to_number value in
           if is_integer_number st \<and> st \<in> set (map js_int supported_statuses) then Inr (Outcome_Status (integer_of st))
           else Inl (Plain_Error (''Unsupported fake provider outcome: '' @ part))))"

text \<open>\<open>map\<close> with a function that may throw.\<close>

fun map_throwing :: "('a \<Rightarrow> 'b result) \<Rightarrow> 'a list \<Rightarrow> 'b list result" where
  "map_throwing f [] = Inr []"
| "map_throwing f (x # xs) = r_bind (f x) (\<lambda>y. r_bind (map_throwing f xs) (\<lambda>ys. Inr (y # ys)))"

definition parse_fake_provider_outcomes :: "string option \<Rightarrow> fake_outcome list result" where
  "parse_fake_provider_outcomes raw =
     (case raw of
        None \<Rightarrow> Inr [Outcome_Success]
      | Some s \<Rightarrow>
          if js_trim s = [] then Inr [Outcome_Success] else map_throwing parse_outcome (js_split (CHR '','') s))"

section \<open>The handler\<close>

record fake_config =
  outcomes :: "fake_outcome list"
  latency_ms :: int
  timeout_delay_ms :: int

record fake_provider =
  recorded :: "(string, provider_result) js_map"
  outcome_index :: nat
  transaction_sequence :: nat

definition validate_delay :: "string \<Rightarrow> js_number \<Rightarrow> unit result" where
  "validate_delay name v =
     (if \<not> is_safe_integer v \<or> js_less v (js_int 0)
      then Inl (Plain_Error (name @ '' must be a non-negative safe integer'')) else Inr ())"

definition new_fake_provider :: "fake_outcome list \<Rightarrow> js_number option \<Rightarrow> js_number option \<Rightarrow> (fake_config \<times> fake_provider) result" where
  "new_fake_provider os latency timeout_delay =
     (if os = [] then Inl (Plain_Error ''Fake provider requires at least one outcome'')
      else
        (let l = (case latency of None \<Rightarrow> js_int 0 | Some v \<Rightarrow> v); d = (case timeout_delay of None \<Rightarrow> js_int 60000 | Some v \<Rightarrow> v) in
         r_then (validate_delay ''latencyMs'' l)
         (r_then (validate_delay ''timeoutDelayMs'' d)
         (Inr (\<lparr>outcomes = os, latency_ms = integer_of l, timeout_delay_ms = integer_of d\<rparr>,
               \<lparr>recorded = [], outcome_index = 0, transaction_sequence = 0\<rparr>)))))"

definition fake_error :: "string \<Rightarrow> int \<Rightarrow> http_response" where
  "fake_error e st = response_json_of (JObject [(''error'', JString e)]) st []"

definition json_of_result :: "provider_result \<Rightarrow> json" where
  "json_of_result p = JObject
     [(''providerTransactionId'', JString (result_provider_transaction_id p)), (''decision'', JString ''approved'')]"

text \<open>The checks before the latency: the idempotency key, or the response.\<close>

definition fake_admit :: "server_request \<Rightarrow> http_response + string" where
  "fake_admit req =
     (if http_method req \<noteq> ''POST'' \<or> pathname req \<noteq> ''/transactions'' then Inl (fake_error ''not_found'' 404)
      else case header req ''Idempotency-Key'' of
        None \<Rightarrow> Inl (fake_error ''missing_idempotency_key'' 400)
      | Some key \<Rightarrow> if js_trim key = [] then Inl (fake_error ''missing_idempotency_key'' 400) else Inr key)"

definition provider_request_schema :: "json \<Rightarrow> transaction_input option" where
  "provider_request_schema v =
     (case v of
        JObject ms \<Rightarrow>
          (if \<not> list_all (\<lambda>(k, _). k \<in> set [''amount'', ''currency'', ''description'']) ms then None
           else (case (js_get ms ''amount'', js_get ms ''currency'', js_get ms ''description'') of
                   (Some (JNumber a), Some (JString c), Some (JString d)) \<Rightarrow>
                     if is_safe_integer a \<and> js_less (js_int 0) a \<and> length c = 3 \<and> 1 \<le> length d \<and> length d \<le> 200
                     then Some \<lparr>amount = integer_of a, currency = c, description = d\<rparr> else None
                 | _ \<Rightarrow> None))
      | _ \<Rightarrow> None)"

text \<open>What the handler ends with: a response, or the error it throws after \<open>onNetworkError\<close>.\<close>

datatype fake_answer = Fake_Responds http_response | Fake_Throws error

definition next_outcome :: "fake_config \<Rightarrow> fake_provider \<Rightarrow> fake_outcome" where
  "next_outcome cfg s = (if outcome_index s < length (outcomes cfg) then outcomes cfg ! outcome_index s else Outcome_Success)"

definition fake_result :: "nat \<Rightarrow> provider_result" where
  "fake_result n = \<lparr>result_provider_transaction_id = ''fake-provider-'' @ pad_start 6 (CHR ''0'') (nat_digits n), decision = Approved\<rparr>"

text \<open>The body has been read: the answer, the milliseconds slept, the state.\<close>

definition fake_process :: "(json \<Rightarrow> json) \<Rightarrow> fake_config \<Rightarrow> string \<Rightarrow> json option \<Rightarrow> fake_provider \<Rightarrow>
    fake_answer \<times> int \<times> fake_provider" where
  "fake_process issues cfg key request_json s =
     (case request_json of
        None \<Rightarrow> (Fake_Responds (fake_error ''invalid_json'' 400), 0, s)
      | Some v \<Rightarrow>
          (case provider_request_schema v of
             None \<Rightarrow> (Fake_Responds (response_json_of
                 (JObject [(''error'', JString ''invalid_transaction''), (''issues'', issues v)]) 422 []), 0, s)
           | Some _ \<Rightarrow>
               (let out = next_outcome cfg s;
                    s1 = s\<lparr>outcome_index := outcome_index s + 1\<rparr>;
                    sequence = transaction_sequence s1 + 1;
                    p = fake_result sequence;
                    s2 = s1\<lparr>transaction_sequence := sequence, recorded := js_set key p (recorded s1)\<rparr> in
                case out of
                  Outcome_Status st \<Rightarrow> (Fake_Responds (fake_error (''configured_'' @ js_decimal st) st), 0, s1)
                | Outcome_Success \<Rightarrow> (Fake_Responds (response_json_of (json_of_result p) 201 []), 0, s2)
                | Outcome_Timeout \<Rightarrow> (Fake_Responds (response_json_of (json_of_result p) 201 []), timeout_delay_ms cfg, s2)
                | Outcome_Network_Error \<Rightarrow> (Fake_Throws (Plain_Error ''Configured fake provider network failure''), 0, s2)
                | Outcome_Invalid_Json \<Rightarrow>
                    (Fake_Responds \<lparr>status = 201, headers = [(''Content-Type'', ''application/json'')], body = Text_Body ''not-json''\<rparr>, 0, s2)
                | Outcome_Invalid_Schema \<Rightarrow>
                    (Fake_Responds (response_json_of (JObject [(''decision'', JString ''approved'')]) 201 []), 0, s2))))"

definition fake_handle :: "(json \<Rightarrow> json) \<Rightarrow> fake_config \<Rightarrow> (fake_provider \<Rightarrow> fake_provider) \<Rightarrow> (fake_provider \<Rightarrow> fake_provider) \<Rightarrow>
    server_request \<Rightarrow> json option \<Rightarrow> fake_provider \<Rightarrow> fake_answer \<times> int \<times> fake_provider" where
  "fake_handle issues cfg during_latency during_read req request_json s =
     (case fake_admit req of
        Inl r \<Rightarrow> (Fake_Responds r, 0, s)
      | Inr key \<Rightarrow>
          (let s1 = (if 0 < latency_ms cfg then during_latency s else s) in
           case js_get (recorded s1) key of
             Some p \<Rightarrow> (Fake_Responds (response_json_of (json_of_result p) 200 []), latency_ms cfg, s1)
           | None \<Rightarrow>
               (case fake_process issues cfg key request_json (during_read s1) of
                  (a, slept, s2) \<Rightarrow> (a, latency_ms cfg + slept, s2))))"

section \<open>Start-up\<close>

definition read_non_negative_integer :: "environment \<Rightarrow> string \<Rightarrow> int \<Rightarrow> js_number result" where
  "read_non_negative_integer env name fallback =
     (let v = (case env name of None \<Rightarrow> js_int fallback | Some s \<Rightarrow> string_to_number s) in
      if \<not> is_safe_integer v \<or> js_less v (js_int 0) then Inl (Plain_Error (name @ '' must be a non-negative safe integer'')) else Inr v)"

definition dev_provider_main :: "environment \<Rightarrow> (fake_config \<times> fake_provider) result" where
  "dev_provider_main env =
     r_bind (parse_fake_provider_outcomes (env ''PROVIDER_OUTCOMES'')) (\<lambda>os.
     r_bind (read_non_negative_integer env ''PROVIDER_LATENCY_MS'' 0) (\<lambda>latency.
     r_bind (read_non_negative_integer env ''PROVIDER_TIMEOUT_DELAY_MS'' 60000) (\<lambda>timeout_delay.
       new_fake_provider os (Some latency) (Some timeout_delay))))"

text \<open>Once its variables are read nothing can fail: the provider starts.\<close>

lemma map_throwing_length: "map_throwing f xs = Inr ys \<Longrightarrow> length ys = length xs"
  by (induction xs arbitrary: ys) (auto simp: r_bind_Inr_iff)

lemma dev_provider_starts:
  assumes "parse_fake_provider_outcomes (env ''PROVIDER_OUTCOMES'') = Inr os"
    and "read_non_negative_integer env ''PROVIDER_LATENCY_MS'' 0 = Inr l"
    and "read_non_negative_integer env ''PROVIDER_TIMEOUT_DELAY_MS'' 60000 = Inr d"
  shows "\<exists>s. dev_provider_main env = Inr (\<lparr>outcomes = os, latency_ms = integer_of l, timeout_delay_ms = integer_of d\<rparr>, s)"
proof -
  have "os \<noteq> []"
    using assms(1) js_split_nonempty
    by (auto simp: parse_fake_provider_outcomes_def split: option.splits if_splits dest!: map_throwing_length)
  then show ?thesis
    using assms by (auto simp: dev_provider_main_def new_fake_provider_def validate_delay_def read_non_negative_integer_def Let_def
        split: if_splits)
qed

section \<open>The HTTP provider against it\<close>

text \<open>
  The server's view of a request and the client's view of an answer: a body is the text of the JSON
  value sent; a response after the client's deadline is a request aborted, an error thrown a
  connection lost.
\<close>

definition received :: "(string \<Rightarrow> string) \<Rightarrow> http_request \<Rightarrow> server_request" where
  "received path_of q = \<lparr>http_method = request_method q, pathname = path_of (request_url q), search_params = [],
     header = map_of (request_headers q), body_reads = None\<rparr>"

definition exchange :: "(json \<Rightarrow> json) \<Rightarrow> (string \<Rightarrow> string) \<Rightarrow> fake_config \<Rightarrow> int \<Rightarrow> fake_provider \<Rightarrow> http_request \<Rightarrow>
    provider_response result \<times> fake_provider" where
  "exchange issues path_of cfg timeout s q =
     (case fake_handle issues cfg id id (received path_of q) (json_parse (request_body q)) s of
        (Fake_Throws e, slept, s') \<Rightarrow> (Inl e, s')
      | (Fake_Responds r, slept, s') \<Rightarrow>
          (if timeout \<le> slept then Inl Abort_Error
           else Inr \<lparr>response_status = status r, response_json =
               (case parsed_body (body r) of None \<Rightarrow> Inl (Plain_Error ''SyntaxError'') | Some v \<Rightarrow> Inr v)\<rparr>, s'))"

definition fake_call :: "(js_number \<Rightarrow> string) \<Rightarrow> (json \<Rightarrow> json) \<Rightarrow> (string \<Rightarrow> string) \<Rightarrow> fake_config \<Rightarrow> string \<Rightarrow> int \<Rightarrow> string option \<Rightarrow>
    transaction_input \<Rightarrow> string \<Rightarrow> fake_provider \<Rightarrow> provider_result result \<times> fake_provider" where
  "fake_call sn issues path_of cfg url timeout rid t key s =
     (fst (http_process sn url timeout (\<lambda>q. fst (exchange issues path_of cfg timeout s q)) rid t key),
      snd (exchange issues path_of cfg timeout s (provider_request sn url rid t key)))"

lemma provider_request_accepted:
  assumes "valid_input t key"
  shows "json_parse (request_body (provider_request sn url rid t key)) = Some (transaction_json t)"
    "provider_request_schema (transaction_json t) = Some t"
    "path_of url = ''/transactions'' \<Longrightarrow> fake_admit (received path_of (provider_request sn url rid t key)) = Inr key"
proof -
  have v: "1 \<le> amount t" "amount t \<le> max_safe_integer" "length (currency t) = 3" "1 \<le> length (description t)"
    "length (description t) \<le> 200" "1 \<le> length key" "list_all is_key_char key"
    using assms by (simp_all add: valid_input_def)
  have "json_parse (json_stringify sn (transaction_json t)) = Some (transaction_json t)"
    unfolding transaction_json_def using v by (intro json_parse_stringify) auto
  then show "json_parse (request_body (provider_request sn url rid t key)) = Some (transaction_json t)"
    by (simp add: provider_request_def)
  show "provider_request_schema (transaction_json t) = Some t"
    using v by (cases t) (simp add: provider_request_schema_def transaction_json_def js_get_def is_safe_integer_js_int)
  have "list_all (\<lambda>c. \<not> is_js_space c) ''._:-''" by code_simp
  then have "\<not> is_js_space c" if "is_key_char c" for c
    using that digit_not_space by (auto simp: is_key_char_def is_alpha_def list_all_iff) (auto simp: is_js_space_def)
  then have "js_trim key = key" using v(7) by (intro js_trim_id) (auto simp: list_all_iff hd_in_set last_in_set)
  then have "js_trim key \<noteq> []" using v(6) by auto
  then show "path_of url = ''/transactions'' \<Longrightarrow> fake_admit (received path_of (provider_request sn url rid t key)) = Inr key"
    by (simp add: fake_admit_def received_def provider_request_def)
qed

lemma provider_response_result:
  "result_provider_transaction_id p \<noteq> [] \<Longrightarrow> provider_response_schema (json_of_result p) = Some p"
  by (cases p; cases "decision p") (auto simp: provider_response_schema_def json_of_result_def js_get_def Suc_le_eq)

text \<open>Every recorded result is one of those made.\<close>

definition fake_ok :: "fake_provider \<Rightarrow> bool" where
  "fake_ok s \<longleftrightarrow> (\<forall>k p. js_get (recorded s) k = Some p \<longrightarrow> result_provider_transaction_id p \<noteq> [])"

lemma fake_process_ok:
  assumes "fake_ok s" "fake_process issues cfg key v s = (a, slept, s')"
  shows "fake_ok s' \<and> (\<forall>k p. js_get (recorded s) k = Some p \<longrightarrow> k \<noteq> key \<longrightarrow> js_get (recorded s') k = Some p)"
  using assms
  by (auto simp: fake_process_def fake_ok_def fake_result_def Let_def split: option.splits fake_outcome.splits if_splits)

text \<open>What the first call of a key comes to under an outcome that records it.\<close>

definition first_answer :: "fake_config \<Rightarrow> int \<Rightarrow> fake_outcome \<Rightarrow> provider_result \<Rightarrow> provider_result result" where
  "first_answer cfg timeout out p =
     (case out of
        Outcome_Success \<Rightarrow> Inr p
      | Outcome_Timeout \<Rightarrow> if timeout \<le> latency_ms cfg + timeout_delay_ms cfg then Inl Provider_Timeout_Error else Inr p
      | Outcome_Network_Error \<Rightarrow> Inl Provider_Network_Error
      | Outcome_Status st \<Rightarrow> Inl (if st = 429 then Provider_Rate_Limited_Error else if 500 \<le> st then Provider_Server_Error st
          else Provider_Rejected_Error (Some st))
      | _ \<Rightarrow> Inl Provider_Invalid_Response_Error)"

definition records_result :: "fake_outcome \<Rightarrow> bool" where
  "records_result out = (case out of Outcome_Status _ \<Rightarrow> False | _ \<Rightarrow> True)"

lemma fake_call_known:
  assumes "valid_input t key" "path_of url = ''/transactions''" "latency_ms cfg < timeout"
    and "js_get (recorded s) key = Some p" "result_provider_transaction_id p \<noteq> []"
  shows "fake_call sn issues path_of cfg url timeout rid t key s = (Inr p, s)"
proof -
  note q = provider_request_accepted(1) [OF assms(1), of sn url rid] provider_request_accepted(2) [OF assms(1)]
    provider_request_accepted(3) [where path_of = path_of and url = url, OF assms(1,2), of sn rid]
  have "exchange issues path_of cfg timeout s (provider_request sn url rid t key) =
      (Inr \<lparr>response_status = 200, response_json = Inr (json_of_result p)\<rparr>, s)"
    using q(3) assms(3,4) by (simp add: exchange_def fake_handle_def response_json_of_def parsed_body_def)
  then show ?thesis
    using provider_response_result [OF assms(5)]
    by (simp add: fake_call_def http_process_def interpret_response_def response_ok_def)
qed

lemma fake_call_new:
  assumes "valid_input t key" "path_of url = ''/transactions''" "latency_ms cfg < timeout"
    and "js_get (recorded s) key = None" "\<And>st. next_outcome cfg s = Outcome_Status st \<Longrightarrow> st \<in> set supported_statuses"
  shows "fst (fake_call sn issues path_of cfg url timeout rid t key s) =
      first_answer cfg timeout (next_outcome cfg s) (fake_result (transaction_sequence s + 1)) \<and>
    js_get (recorded (snd (fake_call sn issues path_of cfg url timeout rid t key s))) key =
      (if records_result (next_outcome cfg s) then Some (fake_result (transaction_sequence s + 1)) else None)"
proof -
  let ?p = "fake_result (transaction_sequence s + 1)" and ?q = "provider_request sn url rid t key"
  note q = provider_request_accepted(1) [OF assms(1), of sn url rid] provider_request_accepted(2) [OF assms(1)]
    provider_request_accepted(3) [where path_of = path_of and url = url, OF assms(1,2), of sn rid]
  have ok: "provider_response_schema (json_of_result ?p) = Some ?p"
    by (rule provider_response_result) (simp add: fake_result_def)
  have bad: "json_parse ''not-json'' = None" "provider_response_schema (JObject [(''decision'', JString ''approved'')]) = None"
    by code_simp+
  have h: "fake_handle issues cfg id id (received path_of ?q) (json_parse (request_body ?q)) s =
      (case fake_process issues cfg key (Some (transaction_json t)) s of (a, slept, s2) \<Rightarrow> (a, latency_ms cfg + slept, s2))"
    using q(1,3) assms(4) by (simp add: fake_handle_def)
  show ?thesis
    using assms(3,4,5) q(2) ok bad unfolding fake_call_def http_process_def exchange_def h
    by (cases "next_outcome cfg s")
      (auto simp: fake_process_def Let_def interpret_response_def response_ok_def first_answer_def rethrown_def
        response_json_of_def parsed_body_def fake_error_def supported_statuses_def records_result_def)
qed

text \<open>Every configured status is one of those supported.\<close>

lemma map_throwing_set: "map_throwing f xs = Inr ys \<Longrightarrow> y \<in> set ys \<Longrightarrow> \<exists>x\<in>set xs. f x = Inr y"
  by (induction xs arbitrary: ys) (auto simp: r_bind_Inr_iff)

lemma parse_outcome_status: "parse_outcome part = Inr (Outcome_Status st) \<Longrightarrow> st \<in> set supported_statuses"
  by (auto simp: parse_outcome_def named_outcome_def Let_def supported_statuses_def split: if_splits option.splits)

lemma parse_outcomes_statuses:
  "parse_fake_provider_outcomes raw = Inr os \<Longrightarrow> Outcome_Status st \<in> set os \<Longrightarrow> st \<in> set supported_statuses"
  by (auto simp: parse_fake_provider_outcomes_def split: option.splits if_splits dest!: map_throwing_set intro: parse_outcome_status)


definition lost_config :: fake_config where
  "lost_config = \<lparr>outcomes = [Outcome_Network_Error, Outcome_Success], latency_ms = 5, timeout_delay_ms = 60000\<rparr>"

definition empty_fake :: fake_provider where
  "empty_fake = \<lparr>recorded = [], outcome_index = 0, transaction_sequence = 0\<rparr>"

lemma lost_config_parsed: "parse_fake_provider_outcomes (Some ''network_error, success'') = Inr (outcomes lost_config)"
  by code_simp


end
