(* ===== verification/Migrations.thy ===== *)
theory Migrations
  imports Postgres_Repository Config
begin

text \<open>
  \<^verbatim>\<open>src/src/infrastructure/database/migrate.ts\<close>: the migrations of the database, and any number
  of processes running them at once against one database.  A run is a sequence of statements; the
  callback of \<open>sql.begin\<close> is one transaction, so one atomic step.  What the statements of a file
  do to the rest of the database (\<open>run_file\<close>) is a parameter.
\<close>

section \<open>The files\<close>

definition is_file_char :: "char \<Rightarrow> bool" where
  "is_file_char c \<longleftrightarrow> (97 \<le> code c \<and> code c \<le> 122) \<or> is_digit c \<or> c = CHR ''_''"

text \<open>The test of the regular expression; the lemma below is its reading as a language.\<close>

definition is_migration_file :: "string \<Rightarrow> bool" where
  "is_migration_file file =
     (takeWhile is_digit file \<noteq> [] \<and>
      (case dropWhile is_digit file of
         [] \<Rightarrow> False
       | c # r \<Rightarrow> c = CHR ''_'' \<and> 4 < length r \<and> drop (length r - 4) r = ''.sql'' \<and>
           list_all is_file_char (take (length r - 4) r)))"

lemma is_migration_file_iff:
  "is_migration_file file \<longleftrightarrow>
    (\<exists>d w. file = d @ ''_'' @ w @ ''.sql'' \<and> d \<noteq> [] \<and> list_all is_digit d \<and> w \<noteq> [] \<and> list_all is_file_char w)"
proof
  assume m: "is_migration_file file"
  then obtain c r where r: "dropWhile is_digit file = c # r" by (auto simp: is_migration_file_def split: list.splits)
  let ?w = "take (length r - 4) r"
  from m r have ok: "takeWhile is_digit file \<noteq> []" "c = CHR ''_''" "4 < length r" "drop (length r - 4) r = ''.sql''"
    "list_all is_file_char ?w"
    by (simp_all add: is_migration_file_def)
  have "file = takeWhile is_digit file @ c # r" using takeWhile_dropWhile_id [of is_digit "file"] r by simp
  also have "r = ?w @ ''.sql''" using append_take_drop_id [of "length r - 4" r] ok(4) by metis
  finally have "file = takeWhile is_digit file @ ''_'' @ ?w @ ''.sql''" using ok(2) by simp
  moreover have "?w \<noteq> []" using ok(3) by auto
  moreover have "list_all is_digit (takeWhile is_digit file)" by (auto simp: list_all_iff dest: set_takeWhileD)
  ultimately show "\<exists>d w. file = d @ ''_'' @ w @ ''.sql'' \<and> d \<noteq> [] \<and> list_all is_digit d \<and> w \<noteq> [] \<and> list_all is_file_char w"
    using ok(1,5) by blast
next
  assume "\<exists>d w. file = d @ ''_'' @ w @ ''.sql'' \<and> d \<noteq> [] \<and> list_all is_digit d \<and> w \<noteq> [] \<and> list_all is_file_char w"
  then obtain d w where f: "file = d @ ''_'' @ w @ ''.sql''" "d \<noteq> []" "list_all is_digit d" "w \<noteq> []" "list_all is_file_char w" by blast
  have u: "\<not> is_digit CHR ''_''" by code_simp
  have "takeWhile is_digit file = d" "dropWhile is_digit file = CHR ''_'' # w @ ''.sql''"
    using f(1,3) u by (simp_all add: list_all_iff)
  then show "is_migration_file file" using f(2,4,5) by (simp add: is_migration_file_def)
qed

text \<open>\<open>sort()\<close> without a comparator: by code units.\<close>

definition migration_files :: "string list \<Rightarrow> string list" where
  "migration_files entries = js_sort code_compare (filter is_migration_file entries)"

lemma set_migration_files [simp]: "set (migration_files entries) = {f \<in> set entries. is_migration_file f}"
  by (auto simp: migration_files_def)

lemma distinct_migration_files [simp]: "distinct entries \<Longrightarrow> distinct (migration_files entries)"
  by (metis distinct_filter migration_files_def mset_eq_imp_distinct_iff mset_js_sort)

interpretation code_order: comparator code_compare
proof
  show "code_compare x y \<le> 0 \<or> code_compare y x \<le> 0" for x y using code_compare_swap [of x y] by linarith
qed (rule code_compare_trans)

section \<open>A run\<close>

record 'd migrated_database =
  schema_migrations :: "(string \<times> int) list option"
  contents :: 'd

definition migration_versions :: "'d migrated_database \<Rightarrow> string list" where
  "migration_versions db = (case schema_migrations db of None \<Rightarrow> [] | Some rows \<Rightarrow> map fst rows)"

definition create_migrations_table :: "'d migrated_database \<Rightarrow> 'd migrated_database" where
  "create_migrations_table db =
     (case schema_migrations db of None \<Rightarrow> db\<lparr>schema_migrations := Some []\<rparr> | Some _ \<Rightarrow> db)"

definition undefined_table :: error where "undefined_table = Plain_Error ''relation schema_migrations does not exist''"

definition duplicate_version :: error where "duplicate_version = Plain_Error ''duplicate key value violates unique constraint''"

text \<open>The transaction: an error in the file or a version already recorded rolls everything back.\<close>

definition apply_migration :: "(string \<Rightarrow> 'd \<Rightarrow> 'd result) \<Rightarrow> int \<Rightarrow> string \<Rightarrow> 'd migrated_database \<Rightarrow>
    'd migrated_database result" where
  "apply_migration run_file now file db =
     r_bind (run_file file (contents db)) (\<lambda>d.
       case schema_migrations db of
         None \<Rightarrow> Inl undefined_table
       | Some rows \<Rightarrow>
           if file \<in> set (map fst rows) then Inl duplicate_version
           else Inr (db\<lparr>contents := d, schema_migrations := Some (rows @ [(file, now)])\<rparr>))"

text \<open>Where a run is: before a statement, or done.\<close>

datatype migration_phase =
    Creating_Table
  | Reading_Directory
  | Checking "string list"
  | Applying string "string list"
  | Migrated
  | Migration_Failed error

text \<open>A connection may be lost before a statement reaches the server, or before its answer comes back.\<close>

datatype connection_fault = Answered | Lost_Request error | Lost_Answer error

fun with_connection :: "connection_fault \<Rightarrow> 'd migrated_database \<Rightarrow> migration_phase \<times> 'd migrated_database \<Rightarrow>
    migration_phase \<times> 'd migrated_database" where
  "with_connection Answered db (p, db') = (p, db')"
| "with_connection (Lost_Request e) db (p, db') = (Migration_Failed e, db)"
| "with_connection (Lost_Answer e) db (p, db') = (Migration_Failed e, db')"

fun migration_step :: "(string \<Rightarrow> 'd \<Rightarrow> 'd result) \<Rightarrow> string list result \<Rightarrow> connection_fault \<Rightarrow> int \<Rightarrow>
    migration_phase \<Rightarrow> 'd migrated_database \<Rightarrow> migration_phase \<times> 'd migrated_database" where
  "migration_step run_file directory fault now Creating_Table db =
     with_connection fault db (Reading_Directory, create_migrations_table db)"
| "migration_step run_file directory fault now Reading_Directory db =
     (case directory of Inl e \<Rightarrow> (Migration_Failed e, db) | Inr entries \<Rightarrow> (Checking (migration_files entries), db))"
| "migration_step run_file directory fault now (Checking []) db = (Migrated, db)"
| "migration_step run_file directory fault now (Checking (file # files)) db =
     with_connection fault db
       (case schema_migrations db of
          None \<Rightarrow> Migration_Failed undefined_table
        | Some rows \<Rightarrow> if filter (\<lambda>row. fst row = file) rows \<noteq> [] then Checking files else Applying file files, db)"
| "migration_step run_file directory fault now (Applying file files) db =
     with_connection fault db
       (case apply_migration run_file now file db of
          Inl e \<Rightarrow> (Migration_Failed e, db)
        | Inr db' \<Rightarrow> (Checking files, db'))"
| "migration_step run_file directory fault now p db = (p, db)"

text \<open>\<open>runMigrations\<close>: \<open>None\<close> would be a run that has not ended within its fuel; none does (below).\<close>

definition migration_result :: "migration_phase \<Rightarrow> unit result option" where
  "migration_result p = (case p of Migrated \<Rightarrow> Some (Inr ()) | Migration_Failed e \<Rightarrow> Some (Inl e) | _ \<Rightarrow> None)"

fun migration_loop :: "(string \<Rightarrow> 'd \<Rightarrow> 'd result) \<Rightarrow> string list result \<Rightarrow> (nat \<Rightarrow> connection_fault \<times> int) \<Rightarrow> nat \<Rightarrow>
    migration_phase \<Rightarrow> 'd migrated_database \<Rightarrow> unit result option \<times> 'd migrated_database" where
  "migration_loop run_file directory weather 0 p db = (migration_result p, db)"
| "migration_loop run_file directory weather (Suc n) p db =
     (case migration_step run_file directory (fst (weather n)) (snd (weather n)) p db of
        (p', db') \<Rightarrow> migration_loop run_file directory weather n p' db')"

definition migration_fuel :: "string list result \<Rightarrow> nat" where
  "migration_fuel directory = (case directory of Inl _ \<Rightarrow> 2 | Inr entries \<Rightarrow> 2 * length entries + 3)"

definition run_migrations :: "(string \<Rightarrow> 'd \<Rightarrow> 'd result) \<Rightarrow> string list result \<Rightarrow> (nat \<Rightarrow> connection_fault \<times> int) \<Rightarrow>
    'd migrated_database \<Rightarrow> unit result option \<times> 'd migrated_database" where
  "run_migrations run_file directory weather db =
     migration_loop run_file directory weather (migration_fuel directory) Creating_Table db"

text \<open>The script: \<open>finally\<close> closes the connection, and an error of closing replaces the outcome.\<close>

definition migrate_main :: "(string \<Rightarrow> 'd \<Rightarrow> 'd result) \<Rightarrow> string list result \<Rightarrow> (nat \<Rightarrow> connection_fault \<times> int) \<Rightarrow>
    (string \<Rightarrow> unit result) \<Rightarrow> unit result \<Rightarrow> environment \<Rightarrow> 'd migrated_database \<Rightarrow>
    unit result option \<times> 'd migrated_database" where
  "migrate_main run_file directory weather connect closing env db =
     (let missing = (Some (Inl (Plain_Error ''DATABASE_URL is required to run migrations'')), db) in
      case env ''DATABASE_URL'' of
        None \<Rightarrow> missing
      | Some url \<Rightarrow>
          (if js_trim url = [] then missing
           else case connect url of
             Inl e \<Rightarrow> (Some (Inl e), db)
           | Inr _ \<Rightarrow>
               (case run_migrations run_file directory weather db of
                  (None, db') \<Rightarrow> (None, db')
                | (Some r, db') \<Rightarrow> (Some (case closing of Inl e \<Rightarrow> Inl e | Inr _ \<Rightarrow> r), db'))))"

section \<open>Every run ends\<close>

fun steps_left :: "string list result \<Rightarrow> migration_phase \<Rightarrow> nat" where
  "steps_left directory Creating_Table = migration_fuel directory"
| "steps_left directory Reading_Directory = migration_fuel directory - 1"
| "steps_left directory (Checking files) = 2 * length files + 1"
| "steps_left directory (Applying file files) = 2 * length files + 2"
| "steps_left directory _ = 0"

lemma length_migration_files: "length (migration_files entries) \<le> length entries"
  by (simp add: migration_files_def)

lemma with_connection_phase:
  "fst (with_connection fault db pd) = fst pd \<or> (\<exists>e. fst (with_connection fault db pd) = Migration_Failed e)"
  by (cases pd; cases fault) auto

lemma steps_left_decrease:
  "steps_left directory (fst (migration_step run_file directory fault now p db)) \<le> steps_left directory p - 1"
proof (cases p)
  case (Checking files)
  then show ?thesis
    using with_connection_phase [of fault db] by (cases files; cases fault) (auto split: option.splits)
next
  case (Applying f fs)
  then show ?thesis by (cases fault) (auto split: sum.splits)
next
  case Reading_Directory
  then show ?thesis
    using length_migration_files by (auto simp: migration_fuel_def split: sum.splits)
next
  case Creating_Table
  then show ?thesis by (cases fault) auto
qed auto

lemma migration_loop_ends:
  "steps_left directory p \<le> n \<Longrightarrow> fst (migration_loop run_file directory weather n p db) \<noteq> None"
proof (induction n arbitrary: p db)
  case 0
  then show ?case by (cases p) (auto simp: migration_result_def migration_fuel_def split: sum.splits)
next
  case (Suc n)
  let ?s = "migration_step run_file directory (fst (weather n)) (snd (weather n)) p db"
  have "steps_left directory (fst ?s) \<le> n"
    using steps_left_decrease [of directory run_file "fst (weather n)" "snd (weather n)" p db] Suc.prems by linarith
  from Suc.IH [OF this, of "snd ?s"] show ?case by (simp add: case_prod_beta)
qed

lemma run_migrations_ends: "fst (run_migrations run_file directory weather db) \<noteq> None"
  unfolding run_migrations_def by (rule migration_loop_ends) simp

section \<open>What a run does\<close>

text \<open>Reference: the files applied one after another, up to the first error.\<close>

fun apply_until :: "(string \<Rightarrow> 'd \<Rightarrow> 'd result) \<Rightarrow> string list \<Rightarrow> 'd \<Rightarrow> string list \<times> 'd \<times> unit result" where
  "apply_until run_file [] d = ([], d, Inr ())"
| "apply_until run_file (f # fs) d =
     (case run_file f d of
        Inl e \<Rightarrow> ([], d, Inl e)
      | Inr d1 \<Rightarrow> (case apply_until run_file fs d1 of (done, d2, r) \<Rightarrow> (f # done, d2, r)))"

definition unrecorded :: "'d migrated_database \<Rightarrow> string list \<Rightarrow> string list" where
  "unrecorded db files = filter (\<lambda>f. f \<notin> set (migration_versions db)) files"

lemma migration_loop_done [simp]:
  "migration_loop run_file directory weather n Migrated db = (Some (Inr ()), db)"
  "migration_loop run_file directory weather n (Migration_Failed e) db = (Some (Inl e), db)"
  by (induction n) (auto simp: migration_result_def)

lemma recorded_row: "schema_migrations db = Some rows \<Longrightarrow>
    filter (\<lambda>row. fst row = f) rows \<noteq> [] \<longleftrightarrow> f \<in> set (migration_versions db)"
  by (auto simp: migration_versions_def filter_empty_conv)

lemma apply_migration_new:
  "schema_migrations db = Some rows \<Longrightarrow> f \<notin> set (migration_versions db) \<Longrightarrow>
    apply_migration run_file now f db =
      (case run_file f (contents db) of
         Inl e \<Rightarrow> Inl e
       | Inr d \<Rightarrow> Inr (db\<lparr>contents := d, schema_migrations := Some (rows @ [(f, now)])\<rparr>))"
  by (auto simp: apply_migration_def migration_versions_def split: sum.splits)

lemma migration_loop_alone:
  assumes "\<And>i. fst (weather i) = Answered" "schema_migrations db = Some rows" "distinct files" "2 * length files + 1 \<le> n"
  shows "\<exists>db'. migration_loop run_file directory weather n (Checking files) db =
      (Some (snd (snd (apply_until run_file (unrecorded db files) (contents db)))), db') \<and>
    migration_versions db' = migration_versions db @ fst (apply_until run_file (unrecorded db files) (contents db)) \<and>
    contents db' = fst (snd (apply_until run_file (unrecorded db files) (contents db))) \<and>
    schema_migrations db' \<noteq> None \<and> (unrecorded db files = [] \<longrightarrow> db' = db)"
  using assms(2-)
proof (induction files arbitrary: n db rows)
  case Nil
  then show ?case by (cases n) (simp_all add: unrecorded_def)
next
  case (Cons f fs)
  then obtain m where n: "n = Suc (Suc m)" "2 * length fs + 1 \<le> m" by (cases n; cases "n - 1") auto
  show ?case
  proof (cases "f \<in> set (migration_versions db)")
    case True
    then have "migration_loop run_file directory weather n (Checking (f # fs)) db =
        migration_loop run_file directory weather (Suc m) (Checking fs) db"
      using recorded_row [OF Cons.prems(1)] assms(1) Cons.prems(1) by (simp add: n)
    with Cons.IH [of db rows "Suc m"] Cons.prems n True show ?thesis by (simp add: unrecorded_def)
  next
    case False
    have u: "unrecorded db (f # fs) = f # unrecorded db fs" using False by (simp add: unrecorded_def)
    have step: "migration_loop run_file directory weather n (Checking (f # fs)) db =
        migration_loop run_file directory weather (Suc m) (Applying f fs) db"
      using recorded_row [OF Cons.prems(1)] assms(1) Cons.prems(1) False by (simp add: n)
    show ?thesis
    proof (cases "run_file f (contents db)")
      case (Inl e)
      then show ?thesis
        using step u assms(1) Cons.prems(1) False by (simp add: apply_migration_new)
    next
      case (Inr d)
      let ?db = "db\<lparr>contents := d, schema_migrations := Some (rows @ [(f, snd (weather m))])\<rparr>"
      have v: "migration_versions ?db = migration_versions db @ [f]"
        using Cons.prems(1) by (simp add: migration_versions_def)
      have same: "unrecorded ?db fs = unrecorded db fs"
        using Cons.prems(2) v unfolding unrecorded_def by (intro filter_cong) auto
      have "migration_loop run_file directory weather n (Checking (f # fs)) db =
          migration_loop run_file directory weather m (Checking fs) ?db"
        using step assms(1) Cons.prems(1) False Inr by (simp add: apply_migration_new)
      with Cons.IH [of ?db "rows @ [(f, snd (weather m))]" m] Cons.prems n same v u Inr show ?thesis
        by (auto simp: case_prod_beta)
    qed
  qed
qed

text \<open>
  C38: every run of the migrations ends, whatever connections are lost.  A run alone on its
  connection looks at the entries of the directory that are migration files, in the order of their
  names, skips those recorded and applies the others one after another up to the first error, which
  it then fails with; each file applied is recorded, so the outcome is that of the reference
  \<open>apply_until\<close>.  A run after a successful one applies nothing and changes nothing.
\<close>

theorem migrations_run_alone:
  assumes "\<And>i. fst (weather i) = Answered" "\<And>i. fst (weather' i) = Answered" "distinct entries"
    and "apply_until run_file (unrecorded db (migration_files entries)) (contents db) = (done, d, r)"
    and "run_migrations run_file (Inr entries) weather db = (result, db')"
  shows "fst (run_migrations run_file directory stormy db) \<noteq> None \<and>
    result = Some r \<and> migration_versions db' = migration_versions db @ done \<and> contents db' = d \<and>
    sorted_wrt (\<lambda>f g. code_compare f g \<le> 0) (migration_files entries) \<and>
    (r = Inr () \<longrightarrow> set (migration_files entries) \<subseteq> set (migration_versions db') \<and>
      run_migrations run_file (Inr entries) weather' db' = (Some (Inr ()), db'))"
proof -
  have all: "\<exists>db'. run_migrations run_file (Inr entries) w b =
      (Some (snd (snd (apply_until run_file (unrecorded b (migration_files entries)) (contents b)))), db') \<and>
    migration_versions db' = migration_versions b @ fst (apply_until run_file (unrecorded b (migration_files entries)) (contents b)) \<and>
    contents db' = fst (snd (apply_until run_file (unrecorded b (migration_files entries)) (contents b))) \<and>
    schema_migrations db' \<noteq> None \<and>
    (unrecorded b (migration_files entries) = [] \<longrightarrow> schema_migrations b \<noteq> None \<longrightarrow> db' = b)"
    if w: "\<And>i. fst (w i) = Answered" for w and b :: "'a migrated_database"
  proof -
    let ?b = "create_migrations_table b"
    obtain rows where t: "schema_migrations ?b = Some rows"
      by (cases "schema_migrations b") (auto simp: create_migrations_table_def)
    have b: "migration_versions ?b = migration_versions b" "contents ?b = contents b" "schema_migrations b \<noteq> None \<Longrightarrow> ?b = b"
      by (auto simp: create_migrations_table_def migration_versions_def split: option.splits)
    have "run_migrations run_file (Inr entries) w b =
        migration_loop run_file (Inr entries) w (2 * length entries + 1) (Checking (migration_files entries)) ?b"
      using w by (simp add: run_migrations_def migration_fuel_def eval_nat_numeral)
    with migration_loop_alone [of w ?b rows "migration_files entries" "2 * length entries + 1" run_file "Inr entries", OF w t]
      length_migration_files [of entries] distinct_migration_files [OF assms(3)] b
    show ?thesis by (auto simp: unrecorded_def)
  qed
  have out: "result = Some r" "migration_versions db' = migration_versions db @ done" "contents db' = d"
    "schema_migrations db' \<noteq> None"
    using all [of weather db, OF assms(1)] assms(4,5) by auto
  have complete: "apply_until run_file fs b = (done', d', Inr ()) \<Longrightarrow> done' = fs" for fs b done' d'
    by (induction fs arbitrary: b done' d') (auto split: sum.splits prod.splits)
  have rest: "set (migration_files entries) \<subseteq> set (migration_versions db')" if "r = Inr ()"
  proof -
    have "done = unrecorded db (migration_files entries)" using complete assms(4) that by blast
    then show ?thesis using out(2) by (auto simp: unrecorded_def)
  qed
  have "run_migrations run_file (Inr entries) weather' db' = (Some (Inr ()), db')" if "r = Inr ()"
  proof -
    have "unrecorded db' (migration_files entries) = []"
      using rest [OF that] by (auto simp: unrecorded_def filter_empty_conv)
    with all [of weather' db', OF assms(2)] out(4) show ?thesis by simp
  qed
  moreover have "sorted_wrt (\<lambda>f g. code_compare f g \<le> 0) (migration_files entries)"
    unfolding migration_files_def by (rule code_order.sorted_js_sort)
  ultimately show ?thesis using out rest run_migrations_ends by blast
qed

definition migrate_example :: "string \<Rightarrow> string list \<Rightarrow> string list result" where
  "migrate_example f d = (if f \<in> set d then Inl (Plain_Error ''exists'') else Inr (d @ [f]))"

definition fresh_database :: "string list migrated_database" where
  "fresh_database = \<lparr>schema_migrations = None, contents = []\<rparr>"

theorem migrations_run_alone_witness:
  "\<exists>db'. run_migrations migrate_example (Inr [''002_b.sql'', ''readme.md'', ''001_a.sql'']) (\<lambda>_. (Answered, 7)) fresh_database =
      (Some (Inr ()), db') \<and> contents db' = [''001_a.sql'', ''002_b.sql''] \<and>
    run_migrations migrate_example (Inr [''002_b.sql'', ''readme.md'', ''001_a.sql'']) (\<lambda>_. (Answered, 8)) db' = (Some (Inr ()), db')"
proof -
  let ?es = "[''002_b.sql'', ''readme.md'', ''001_a.sql'']"
  let ?r = "run_migrations migrate_example (Inr ?es) (\<lambda>_. (Answered, 7)) fresh_database"
  have a: "apply_until migrate_example (unrecorded fresh_database (migration_files ?es)) (contents fresh_database) =
      ([''001_a.sql'', ''002_b.sql''], [''001_a.sql'', ''002_b.sql''], Inr ())"
    by code_simp
  have "distinct ?es" by simp
  from migrations_run_alone [of "\<lambda>_. (Answered, 7)" "\<lambda>_. (Answered, 8)", OF _ _ this a prod.collapse [symmetric]]
  show ?thesis by (intro exI [of _ "snd ?r"]) (auto simp: prod_eq_iff)
qed

section \<open>Runs at once\<close>

text \<open>
  Processes are numbered; each has its own view of the directory.  A process that dies is one that
  takes no more steps.
\<close>

record 'd migration_system =
  shared_database :: "'d migrated_database"
  runs :: "nat \<Rightarrow> (string list result \<times> migration_phase) option"

inductive migration_reachable :: "(string \<Rightarrow> 'd \<Rightarrow> 'd result) \<Rightarrow> 'd \<Rightarrow> 'd migration_system \<Rightarrow> bool" for run_file d0 where
  start: "migration_reachable run_file d0
    \<lparr>shared_database = \<lparr>schema_migrations = None, contents = d0\<rparr>, runs = (\<lambda>_. None)\<rparr>"
| launch: "migration_reachable run_file d0 y \<Longrightarrow> runs y i = None \<Longrightarrow>
    migration_reachable run_file d0 (y\<lparr>runs := (runs y)(i \<mapsto> (directory, Creating_Table))\<rparr>)"
| step: "migration_reachable run_file d0 y \<Longrightarrow> runs y i = Some (directory, p) \<Longrightarrow>
    migration_step run_file directory fault now p (shared_database y) = (p', db') \<Longrightarrow>
    migration_reachable run_file d0 (y\<lparr>shared_database := db', runs := (runs y)(i \<mapsto> (directory, p'))\<rparr>)"

text \<open>The files of a run not yet known to be recorded.\<close>

definition awaited :: "migration_phase \<Rightarrow> string list option" where
  "awaited p = (case p of Checking fs \<Rightarrow> Some fs | Applying f fs \<Rightarrow> Some (f # fs) | Migrated \<Rightarrow> Some [] | _ \<Rightarrow> None)"

definition run_ok :: "'d migrated_database \<Rightarrow> string list result \<times> migration_phase \<Rightarrow> bool" where
  "run_ok db run = (case run of (directory, p) \<Rightarrow>
     (case awaited p of
        None \<Rightarrow> True
      | Some fs \<Rightarrow> (case directory of
          Inl _ \<Rightarrow> False
        | Inr entries \<Rightarrow> set fs \<subseteq> set (migration_files entries) \<and>
            set (migration_files entries) \<subseteq> set fs \<union> set (migration_versions db))))"

definition database_ok :: "(string \<Rightarrow> 'd \<Rightarrow> 'd result) \<Rightarrow> 'd \<Rightarrow> 'd migrated_database \<Rightarrow> bool" where
  "database_ok run_file d0 db \<longleftrightarrow> distinct (migration_versions db) \<and> list_all is_migration_file (migration_versions db) \<and>
     apply_until run_file (migration_versions db) d0 = (migration_versions db, contents db, Inr ())"

lemma apply_until_snoc:
  "apply_until run_file fs d = (fs, d', Inr ()) \<Longrightarrow> run_file f d' = Inr d'' \<Longrightarrow>
    apply_until run_file (fs @ [f]) d = (fs @ [f], d'', Inr ())"
  by (induction fs arbitrary: d) (auto split: sum.splits prod.splits)

text \<open>A step leaves the database alone, creates the table, or is a transaction that records a new version.\<close>

lemma migration_step_database:
  assumes "migration_step run_file directory fault now p db = (p', db')"
  shows "db' = db \<or> db' = create_migrations_table db \<or>
    (\<exists>f fs rows d. p = Applying f fs \<and> schema_migrations db = Some rows \<and> f \<notin> set (migration_versions db) \<and>
      run_file f (contents db) = Inr d \<and> db' = db\<lparr>contents := d, schema_migrations := Some (rows @ [(f, now)])\<rparr>)"
proof (cases p)
  case (Checking fs)
  with assms show ?thesis by (cases fs; cases fault) auto
next
  case (Applying f fs)
  with assms show ?thesis
    by (cases fault) (auto simp: apply_migration_def r_bind_def migration_versions_def split: sum.splits option.splits if_splits)
qed (use assms in \<open>cases fault; auto split: sum.splits\<close>)+

lemma create_table_versions [simp]:
  "migration_versions (create_migrations_table db) = migration_versions db" "contents (create_migrations_table db) = contents db"
  by (auto simp: create_migrations_table_def migration_versions_def split: option.splits)

lemma migration_step_ok:
  assumes "migration_step run_file directory fault now p db = (p', db')" "run_ok db (directory, p)" "database_ok run_file d0 db"
  shows "database_ok run_file d0 db' \<and> set (migration_versions db) \<subseteq> set (migration_versions db') \<and> run_ok db' (directory, p')"
proof -
  have new: "is_migration_file f" if "p = Applying f fs" for f fs
    using assms(2) that by (auto simp: run_ok_def awaited_def split: sum.splits)
  have rows: "migration_versions (db\<lparr>contents := d, schema_migrations := Some (rows @ [(f, now)])\<rparr>) = migration_versions db @ [f]"
    if "schema_migrations db = Some rows" for d rows f
    using that by (simp add: migration_versions_def)
  have "database_ok run_file d0 db' \<and> set (migration_versions db) \<subseteq> set (migration_versions db')"
    using migration_step_database [OF assms(1)] assms(3) new
    by (auto simp: database_ok_def rows apply_until_snoc)
  moreover have "run_ok db' (directory, p')"
  proof (cases p)
    case (Checking fs)
    with assms(1,2) show ?thesis
      by (cases fs; cases fault)
        (auto simp: run_ok_def awaited_def recorded_row [unfolded filter_empty_conv] migration_versions_def filter_empty_conv
          simp del: set_migration_files split: sum.splits option.splits if_splits, blast+)
  next
    case (Applying f fs)
    with assms(1,2) show ?thesis
      by (cases fault) (auto simp: run_ok_def awaited_def apply_migration_def r_bind_def migration_versions_def
          simp del: set_migration_files split: sum.splits option.splits if_splits)
  qed (use assms(1,2) in \<open>cases fault; auto simp: run_ok_def awaited_def split: sum.splits\<close>)+
  ultimately show ?thesis by blast
qed

lemma run_ok_mono: "set (migration_versions db) \<subseteq> set (migration_versions db') \<Longrightarrow> run_ok db r \<Longrightarrow> run_ok db' r"
  unfolding run_ok_def by (fastforce split: option.splits sum.splits prod.splits)

lemma migration_reachable_ok:
  "migration_reachable run_file d0 y \<Longrightarrow>
    database_ok run_file d0 (shared_database y) \<and> (\<forall>i r. runs y i = Some r \<longrightarrow> run_ok (shared_database y) r)"
proof (induction rule: migration_reachable.induct)
  case start
  show ?case by (simp add: database_ok_def migration_versions_def)
next
  case (launch y i directory)
  then show ?case by (auto simp: run_ok_def awaited_def)
next
  case (step y i directory p fault now p' db')
  then have "run_ok (shared_database y) (directory, p)" "database_ok run_file d0 (shared_database y)" by auto
  note ok = migration_step_ok [OF step(3) this]
  with step show ?case by (auto intro: run_ok_mono)
qed

text \<open>
  C37: however many processes run their migrations at once, whatever directory each of them sees,
  wherever connections are lost and processes die, no migration is ever applied twice: the versions
  recorded are distinct names of migration files, and the database is what these files, each run
  exactly once in the order recorded, make of the initial one.  A run that has ended without an
  error leaves every migration file of its directory recorded.
\<close>

theorem migrations_apply_once:
  assumes "migration_reachable run_file d0 y"
  shows "distinct (migration_versions (shared_database y)) \<and>
    list_all is_migration_file (migration_versions (shared_database y)) \<and>
    apply_until run_file (migration_versions (shared_database y)) d0 =
      (migration_versions (shared_database y), contents (shared_database y), Inr ()) \<and>
    (runs y i = Some (Inr entries, Migrated) \<longrightarrow>
      set (migration_files entries) \<subseteq> set (migration_versions (shared_database y)))"
proof -
  note ok = migration_reachable_ok [OF assms]
  have "set (migration_files entries) \<subseteq> set (migration_versions (shared_database y))" if "runs y i = Some (Inr entries, Migrated)"
  proof -
    have "run_ok (shared_database y) (Inr entries, Migrated)" using ok that by blast
    then show ?thesis by (simp add: run_ok_def awaited_def)
  qed
  with ok show ?thesis by (simp add: database_ok_def)
qed

text \<open>A schedule, to compute with.\<close>

datatype migration_event = Launch nat "string list result" | Statement_Of nat connection_fault int

definition migration_event_step :: "(string \<Rightarrow> 'd \<Rightarrow> 'd result) \<Rightarrow> migration_event \<Rightarrow> 'd migration_system \<Rightarrow> 'd migration_system" where
  "migration_event_step run_file ev y =
     (case ev of
        Launch i directory \<Rightarrow>
          (case runs y i of None \<Rightarrow> y\<lparr>runs := (runs y)(i \<mapsto> (directory, Creating_Table))\<rparr> | Some _ \<Rightarrow> y)
      | Statement_Of i fault now \<Rightarrow>
          (case runs y i of
             None \<Rightarrow> y
           | Some (directory, p) \<Rightarrow>
               (case migration_step run_file directory fault now p (shared_database y) of
                  (p', db') \<Rightarrow> y\<lparr>shared_database := db', runs := (runs y)(i \<mapsto> (directory, p'))\<rparr>)))"

lemma migration_schedule_reachable:
  "migration_reachable run_file d0 y \<Longrightarrow> migration_reachable run_file d0 (fold (migration_event_step run_file) evs y)"
proof (induction evs arbitrary: y)
  case (Cons ev evs)
  have "migration_reachable run_file d0 (migration_event_step run_file ev y)"
    using Cons.prems
    by (auto simp: migration_event_step_def split: migration_event.splits option.splits prod.splits
        intro: migration_reachable.launch migration_reachable.step)
  with Cons.IH show ?case by simp
qed simp

text \<open>Two processes reach the transaction of the same file; the second is rolled back; a third finds the work done.\<close>

definition race :: "migration_event list" where
  "race = [Launch 0 (Inr [''001_a.sql'']), Launch 1 (Inr [''001_a.sql''])] @
     map (\<lambda>i. Statement_Of i Answered 5) [0, 1, 0, 1, 0, 1, 0, 1, 0] @
     [Launch 2 (Inr [''001_a.sql''])] @ map (\<lambda>i. Statement_Of i Answered 6) [2, 2, 2, 2]"

definition race_end :: "string list migration_system" where
  "race_end = fold (migration_event_step migrate_example) race
     \<lparr>shared_database = \<lparr>schema_migrations = None, contents = []\<rparr>, runs = (\<lambda>_. None)\<rparr>"

theorem migrations_apply_once_witness:
  "distinct (migration_versions (shared_database race_end)) \<and> contents (shared_database race_end) = [''001_a.sql''] \<and>
   runs race_end 1 = Some (Inr [''001_a.sql''], Migration_Failed (Plain_Error ''exists'')) \<and>
   set (migration_files [''001_a.sql'']) \<subseteq> set (migration_versions (shared_database race_end))"
proof -
  have r: "migration_reachable migrate_example [] race_end"
    unfolding race_end_def by (intro migration_schedule_reachable migration_reachable.start)
  have c: "contents (shared_database race_end) = [''001_a.sql'']"
    "runs race_end 1 = Some (Inr [''001_a.sql''], Migration_Failed (Plain_Error ''exists''))"
    "runs race_end 2 = Some (Inr [''001_a.sql''], Migrated)"
    by code_simp+
  show ?thesis using migrations_apply_once [OF r, of 2 "[''001_a.sql'']"] c by simp
qed

end
