(* ===== verification/Spec2Isabelle.thy ===== *)
theory Spec2Isabelle
  imports Circuit_Breaker Retry_Policy Fingerprint Memory_Repository Postgres_Repository Create_Transaction
    Queries Redis Rate_Limit Json_Parse Redis_Cache Metrics Logger Http_Provider Resilient_Provider Lifecycle
    Readiness Redis_Executor Authenticator Config Http_Schemas Http_Response Http_Server Http_Requests
    Application Application_Runs Application_Reads Fake_Provider Migrations
begin

text \<open>
  A model of the transaction service under \<^verbatim>\<open>src/src\<close>: an HTTP API that creates payment
  transactions through an external provider, exactly once per idempotency key as far as its own
  records go, and lists and returns them.

  \<^bold>\<open>How the parts interact.\<close>  \<^verbatim>\<open>main.ts\<close> reads the configuration, builds the adapters, checks
  Postgres and serves.  A request passes the in-flight tracker, the body-size check, authentication
  and the rate limiter, and then reaches a use case.  \<^verbatim>\<open>CreateTransaction\<close> claims the key in
  Postgres, calls the provider through the retry policy and the circuit breaker, and completes the
  claim or releases it.  \<^verbatim>\<open>GetTransaction\<close> reads through the Redis cache; \<^verbatim>\<open>ListTransactions\<close> reads
  Postgres.  Metrics, logs, readiness and shutdown observe all of it.

  \<^bold>\<open>Theories and sources\<close> (file names relative to \<^verbatim>\<open>src/src\<close>):
  \<^item> \<open>Prelude\<close>, \<open>Js_Number\<close>, \<open>Js_String\<close>, \<open>Js_Parse\<close>, \<open>Json\<close>, \<open>Json_Parse\<close>: what the source uses of
    JavaScript - Map, sort, slice; IEEE doubles with the rounding of each operation; strings;
    Number and BigInt parsing; \<open>JSON.stringify\<close> and \<open>JSON.parse\<close> with their round trip.
  \<^item> \<open>Domain\<close>: domain, application errors, models and ports.  \<open>Failure_Policy\<close>, \<open>Circuit_Breaker\<close>,
    \<open>Retry_Policy\<close>, \<open>Http_Provider\<close>, \<open>Resilient_Provider\<close>: \<^verbatim>\<open>infrastructure/providers\<close>.
  \<^item> \<open>Fingerprint\<close>, \<open>Create_Transaction\<close>, \<open>Queries\<close>: \<^verbatim>\<open>application/idempotency\<close> and
    \<^verbatim>\<open>application/use-cases\<close>.
  \<^item> \<open>Repository\<close>: the abstract ledger - per key: free, claimed with a fingerprint and a time, done
    with a transaction - and the locales of its contract.  \<open>Memory_Repository\<close> and
    \<open>Postgres_Repository\<close> (with the tables and constraints of the migration) implement it.
  \<^item> \<open>Redis\<close>, \<open>Redis_Executor\<close>, \<open>Redis_Cache\<close>, \<open>Rate_Limit\<close>: \<^verbatim>\<open>infrastructure/redis\<close>,
    \<^verbatim>\<open>infrastructure/cache\<close>, \<^verbatim>\<open>infrastructure/rate-limit\<close>.
  \<^item> \<open>Logger\<close>, \<open>Metrics\<close>, \<open>Readiness\<close>, \<open>Lifecycle\<close>: \<^verbatim>\<open>infrastructure/observability\<close>,
    \<^verbatim>\<open>infrastructure/operability\<close> and \<^verbatim>\<open>http/security/log-redaction.ts\<close>.
  \<^item> \<open>Authenticator\<close>, \<open>Http_Schemas\<close>, \<open>Http_Response\<close>, \<open>Http_Server\<close>, \<open>Http_Requests\<close>: \<^verbatim>\<open>http\<close>.
  \<^item> \<open>Config\<close>: \<^verbatim>\<open>config.ts\<close>.  \<open>Application\<close>, \<open>Application_Runs\<close>,
    \<open>Application_Reads\<close>: \<^verbatim>\<open>main.ts\<close>, the whole service.
  \<^item> \<open>Fake_Provider\<close>: \<^verbatim>\<open>dev\<close>.  \<open>Migrations\<close>: \<^verbatim>\<open>infrastructure/database/migrate.ts\<close>.

  \<^bold>\<open>How the code is modelled.\<close>  A class is a record of its fields and a function per method on
  it; a dependency is an argument or a record of functions; a throw is \<open>Inl\<close> of the datatype
  \<open>error\<close>; \<open>number\<close> is \<open>js_number\<close> where the code computes in floating point and \<open>int\<close> once a check
  has made it a safe integer; effects (metrics, log lines, sleeps, timers) are lists in their
  order.  A method with an \<open>await\<close> is a sequence of atomic steps wherever others may run in
  between, and concurrency is a step relation over a system of such executions with its
  reachable states: \<open>breaker_reachable\<close>, \<open>resilient_reachable\<close>, \<open>pg_reachable\<close>, \<open>create_reachable\<close>,
  \<open>executor_reachable\<close>, \<open>shutdown_reachable\<close>, \<open>migration_reachable\<close>.

  \<^bold>\<open>Contracts.\<close>  \<open>idempotent_store\<close> is the ledger contract, interpreted on both repositories and on
  the repository as a part of the application's state; the use case's theorems are proved in it
  once.  \<open>read_cache\<close> is the contract of a cache, interpreted on Redis and on the observed cache of
  the application; \<open>comparator\<close> is that of sorting.

  \<^bold>\<open>What the lemmas show.\<close>  Claims, completions and releases refine the ledger, statement by
  statement in Postgres; a key is completed at most once and a completed key is answered from the
  store for ever, through the whole service, and can be read through it; within a validated timing configuration one execution
  per key is calling the provider.  The breaker opens exactly at its threshold and admits one probe.
  Retries end, and their window is what the start-up check computes.  The fingerprint identifies
  requests.  The cache never changes an answer; the Redis limiter counts as the in-memory one does
  and fails open.  Metrics count exactly; a log entry is one line without secrets down to depth
  five.  Shutdown keeps its order and always ends.  Every response is well formed, every business
  route is behind authentication, and only valid input reaches a use case.  A configuration that
  loads starts.  Migrations are applied once.

  \<^bold>\<open>Bounds and fuel.\<close>  \<open>provider_fuel\<close> is twice the attempts of the retry policy: each attempt is a
  call and a wait, so a run never exhausts it (\<open>Resilient_Provider.resilient_process_returns\<close>).  A
  claim in Postgres takes at most seven statements.  \<open>migration_fuel\<close> is two statements per file and
  three more (\<open>Migrations.run_migrations_ends\<close>).  Amounts and counts are safe integers; the list of
  transactions is shown exact up to \<open>2^42\<close> rows.

  \<^bold>\<open>Parameters\<close> (code that is not in the repository): SHA-256; Number::toString; the collation of
  localeCompare; the text of a Date and how it is read; the UTF-8 decoder; the URL parser; what the
  validation package takes for a UUID and a timestamp and the issues it reports; what fetch, Redis
  and the probes answer and when; the clocks, random numbers and identifiers.  A string is a list
  of characters below 256.

  \<^bold>\<open>Not modelled.\<close>  \<^verbatim>\<open>infrastructure/observability/request-context.ts\<close> wraps AsyncLocalStorage: the
  request identifier is an argument of the operations that read it.  The Bun server, and the Redis
  and Postgres clients, are their commands as the code uses them.  In \<open>Application\<close> requests are
  served one after another, but for what other requests do between a claim and the end of its
  provider call (\<open>meanwhile\<close>); finer interleavings are those of \<open>Create_Transaction\<close> and
  \<open>Postgres_Repository\<close>.  The benchmark client, tests and infrastructure files are not part of the
  service.
\<close>

section \<open>The lease of a claim and the timing of the provider\<close>



end
